(* ===== verification/Prelude.thy ===== *)
theory Prelude
  imports Main "HOL-Library.Word" "HOL-Library.List_Lexorder" "HOL-Library.Char_ord"
begin

text \<open>
  Shared vocabulary of the development: the names of the machine types the C++ sources use,
  the fact collections the component theories add to, and the generic list and option lemmas
  their proofs share.
\<close>

named_theorems co_simps \<open>evaluation rules of coroutine trees\<close>
named_theorems keeps \<open>operations that keep an invariant of the process\<close>
named_theorems map_simps \<open>lookup rules of the ordered map operations\<close>

type_synonym byte = "8 word"
type_synonym u16 = "16 word"
type_synonym u32 = "32 word"
type_synonym u64 = "64 word"

text \<open>A C++ \<open>int64_t\<close> (\<open>std::chrono::seconds\<close>, \<open>ssize_t\<close>) is an \<^typ>\<open>int\<close> of this range.\<close>

definition int64_range :: "int \<Rightarrow> bool" where
  "int64_range i \<longleftrightarrow> - (2 ^ 63) \<le> i \<and> i < 2 ^ 63"

text \<open>Bytes written over the front of a buffer: what a short read leaves of it.\<close>

definition fill :: "'a list \<Rightarrow> 'a list \<Rightarrow> 'a list" where
  "fill buf bs = bs @ drop (length bs) buf"

lemma fill_full [simp]: "length bs = length buf \<Longrightarrow> fill buf bs = bs"
  by (simp add: fill_def)

lemma length_fill: "length bs \<le> length buf \<Longrightarrow> length (fill buf bs) = length buf"
  by (simp add: fill_def)

lemma fill_Nil [simp]: "fill buf [] = buf"
  by (simp add: fill_def)

text \<open>C++ signed division and remainder truncate towards zero.\<close>

definition cdiv :: "int \<Rightarrow> int \<Rightarrow> int" where
  "cdiv a b = sgn a * sgn b * (\<bar>a\<bar> div \<bar>b\<bar>)"

definition cmod :: "int \<Rightarrow> int \<Rightarrow> int" where
  "cmod a b = a - cdiv a b * b"

lemma cdiv_nonneg: "0 \<le> a \<Longrightarrow> 0 < b \<Longrightarrow> cdiv a b = a div b"
  by (cases "a = 0") (auto simp: cdiv_def sgn_if)

lemma cmod_nonneg: "0 \<le> a \<Longrightarrow> 0 < b \<Longrightarrow> cmod a b = a mod b"
  by (simp add: cmod_def cdiv_nonneg minus_div_mult_eq_mod)

lemma cmod_abs: "b \<noteq> 0 \<Longrightarrow> cmod a b = sgn a * (\<bar>a\<bar> mod \<bar>b\<bar>)"
proof -
  assume "b \<noteq> 0"
  then have "cdiv a b * b = sgn a * (\<bar>a\<bar> div \<bar>b\<bar> * \<bar>b\<bar>)"
    by (simp add: cdiv_def mult.assoc) (simp add: mult.left_commute abs_sgn mult.commute)
  then have "cmod a b = sgn a * \<bar>a\<bar> - sgn a * (\<bar>a\<bar> div \<bar>b\<bar> * \<bar>b\<bar>)"
    by (simp add: cmod_def sgn_mult_abs)
  then show ?thesis by (simp add: right_diff_distrib [symmetric] minus_div_mult_eq_mod)
qed

lemma cmod_eq_0: "b \<noteq> 0 \<Longrightarrow> cmod a b = 0 \<longleftrightarrow> b dvd a"
  by (auto simp: cmod_abs sgn_0_0 simp flip: dvd_eq_mod_eq_0)

text \<open>List facts.\<close>

lemma sorted_wrt_less_distinct:
  fixes xs :: "'a::linorder list"
  shows "sorted_wrt (<) xs \<Longrightarrow> distinct xs"
  by (simp add: strict_sorted_iff)

lemma take_min_length: "length (take n xs) \<le> n"
  by simp

lemma map_of_map_snd: "map_of (map (\<lambda>(k, v). (k, f v)) m) k = map_option f (map_of m k)"
  by (induction m) auto

lemma map_of_map_keyed:
  "map_of (map (\<lambda>(k, v). (k, f k v)) m) k = map_option (f k) (map_of m k)"
  by (induction m) auto

lemma map_of_filter_distinct:
  assumes "distinct (map fst m)"
  shows "map_of (filter P m) k =
    (case map_of m k of None \<Rightarrow> None | Some v \<Rightarrow> if P (k, v) then Some v else None)"
  using assms
proof (induction m)
  case Nil
  then show ?case by simp
next
  case (Cons p m)
  obtain a b where p: "p = (a, b)" by (cases p)
  show ?case
  proof (cases "k = a")
    case True
    with Cons.prems p have "map_of m k = None" by (simp add: map_of_eq_None_iff)
    moreover from this have "map_of (filter P m) k = None"
      by (auto simp: map_of_eq_None_iff)
    ultimately show ?thesis using True p by simp
  next
    case False
    with Cons p show ?thesis by (auto split: option.split)
  qed
qed

end
