(* ===== verification/StdMap.thy ===== *)
theory StdMap
  imports Prelude
begin

text \<open>
  \<open>std::map\<close> as the sources use it: an association list with strictly ascending keys, which is
  the order in which the code iterates over it. The locale \<open>key_store\<close> is the interface the
  clients (merge, bleach, the type registry, the statistics) rely on; the ordered list
  interprets it, and the lemma on key-wise loops is proved once over its laws.
\<close>

type_synonym ('k, 'v) smap = "('k \<times> 'v) list"

definition smap_wf :: "('k::linorder, 'v) smap \<Rightarrow> bool" where
  "smap_wf m \<longleftrightarrow> sorted_wrt (<) (map fst m)"

text \<open>\<open>find\<close>: the mapped value, or the end iterator.\<close>

definition smap_find :: "('k, 'v) smap \<Rightarrow> 'k \<Rightarrow> 'v option" where
  "smap_find m k = map_of m k"

text \<open>\<open>insert_or_assign\<close>, and assignment through \<open>operator[]\<close>.\<close>

fun smap_put :: "'k::linorder \<Rightarrow> 'v \<Rightarrow> ('k, 'v) smap \<Rightarrow> ('k, 'v) smap" where
  "smap_put k v [] = [(k, v)]"
| "smap_put k v ((a, b) # m) =
     (if k < a then (k, v) # (a, b) # m
      else if k = a then (k, v) # m
      else (a, b) # smap_put k v m)"

text \<open>\<open>emplace\<close> inserts only when the key is absent.\<close>

definition smap_emplace :: "'k::linorder \<Rightarrow> 'v \<Rightarrow> ('k, 'v) smap \<Rightarrow> ('k, 'v) smap" where
  "smap_emplace k v m = (case smap_find m k of None \<Rightarrow> smap_put k v m | Some _ \<Rightarrow> m)"

text \<open>\<open>operator[]\<close> read as a statement: default-constructs a missing value.\<close>

definition smap_touch :: "'v \<Rightarrow> 'k::linorder \<Rightarrow> ('k, 'v) smap \<Rightarrow> ('k, 'v) smap" where
  "smap_touch d k m = smap_emplace k d m"

definition smap_erase :: "'k \<Rightarrow> ('k, 'v) smap \<Rightarrow> ('k, 'v) smap" where
  "smap_erase k m = filter (\<lambda>p. fst p \<noteq> k) m"

text \<open>\<open>std::erase_if\<close>: the remaining map; the number of erased items is the size difference.\<close>

definition smap_erase_if :: "('k \<times> 'v \<Rightarrow> bool) \<Rightarrow> ('k, 'v) smap \<Rightarrow> ('k, 'v) smap" where
  "smap_erase_if P m = filter (\<lambda>p. \<not> P p) m"

definition smap_map :: "('v \<Rightarrow> 'w) \<Rightarrow> ('k, 'v) smap \<Rightarrow> ('k, 'w) smap" where
  "smap_map f m = map (\<lambda>(k, v). (k, f v)) m"

lemma smap_wf_Nil [simp]: "smap_wf []"
  by (simp add: smap_wf_def)

lemma smap_wf_distinct: "smap_wf m \<Longrightarrow> distinct (map fst m)"
  by (simp add: smap_wf_def sorted_wrt_less_distinct)

lemma smap_find_Nil [simp]: "smap_find [] k = None"
  by (simp add: smap_find_def)

lemma smap_find_put [map_simps]: "smap_find (smap_put k v m) = (smap_find m)(k \<mapsto> v)"
  unfolding smap_find_def by (induction k v m rule: smap_put.induct) auto

lemma smap_put_keys: "set (map fst (smap_put k v m)) = insert k (set (map fst m))"
  by (induction k v m rule: smap_put.induct) auto

lemma smap_wf_put: "smap_wf m \<Longrightarrow> smap_wf (smap_put k v m)"
  unfolding smap_wf_def
proof (induction k v m rule: smap_put.induct)
  case (2 k v a b m)
  then show ?case
    using smap_put_keys [of k v m] by auto
qed simp

lemma smap_find_emplace [map_simps]:
  "smap_find (smap_emplace k v m) =
     (case smap_find m k of None \<Rightarrow> (smap_find m)(k \<mapsto> v) | Some _ \<Rightarrow> smap_find m)"
  by (simp add: smap_emplace_def smap_find_put split: option.split)

lemma smap_wf_emplace: "smap_wf m \<Longrightarrow> smap_wf (smap_emplace k v m)"
  by (simp add: smap_emplace_def smap_wf_put split: option.split)

lemma smap_find_touch [map_simps]:
  "smap_find (smap_touch d k m) k' =
     (if k' = k \<and> smap_find m k = None then Some d else smap_find m k')"
  by (simp add: smap_touch_def smap_find_emplace split: option.split)

lemma smap_wf_touch: "smap_wf m \<Longrightarrow> smap_wf (smap_touch d k m)"
  by (simp add: smap_touch_def smap_wf_emplace)

lemma smap_wf_filter: "smap_wf m \<Longrightarrow> smap_wf (filter P m)"
  by (induction m) (auto simp: smap_wf_def)

lemma smap_find_erase_if [map_simps]:
  "smap_wf m \<Longrightarrow> smap_find (smap_erase_if P m) k =
     (case smap_find m k of None \<Rightarrow> None | Some v \<Rightarrow> if P (k, v) then None else Some v)"
  by (auto simp: smap_erase_if_def smap_find_def map_of_filter_distinct smap_wf_distinct
      split: option.split)

lemma smap_wf_erase_if: "smap_wf m \<Longrightarrow> smap_wf (smap_erase_if P m)"
  by (simp add: smap_erase_if_def smap_wf_filter)

lemma smap_find_erase [map_simps]:
  "smap_find (smap_erase k m) = (smap_find m)(k := None)"
  by (induction m) (auto simp: smap_erase_def smap_find_def)

lemma smap_wf_erase: "smap_wf m \<Longrightarrow> smap_wf (smap_erase k m)"
  by (simp add: smap_erase_def smap_wf_filter)

lemma smap_find_map [map_simps]: "smap_find (smap_map f m) k = map_option f (smap_find m k)"
  by (simp add: smap_map_def smap_find_def map_of_map_snd)

lemma smap_wf_map [simp]: "smap_wf (smap_map f m) = smap_wf m"
  by (simp add: smap_wf_def smap_map_def case_prod_beta comp_def)

lemma smap_find_Some_in: "smap_find m k = Some v \<Longrightarrow> (k, v) \<in> set m"
  by (simp add: smap_find_def map_of_SomeD)

lemma smap_find_in: "smap_wf m \<Longrightarrow> (k, v) \<in> set m \<Longrightarrow> smap_find m k = Some v"
  by (simp add: smap_find_def smap_wf_distinct)

text \<open>Two well-formed maps with the same lookups are the same map.\<close>

lemma smap_rebuild: "smap_wf m \<Longrightarrow> map (\<lambda>k. (k, the (smap_find m k))) (map fst m) = m"
proof (rule nth_equalityI)
  assume wf: "smap_wf m"
  fix i assume "i < length (map (\<lambda>k. (k, the (smap_find m k))) (map fst m))"
  then have i: "i < length m" by simp
  obtain k v where kv: "m ! i = (k, v)" by (cases "m ! i")
  with i have "(k, v) \<in> set m" by (metis nth_mem)
  with wf have "smap_find m k = Some v" by (rule smap_find_in)
  with kv i show "map (\<lambda>k. (k, the (smap_find m k))) (map fst m) ! i = m ! i" by simp
qed simp

lemma smap_eqI:
  assumes "smap_wf m" and "smap_wf n" and "\<And>k. smap_find m k = smap_find n k"
  shows "m = n"
proof -
  have eq: "smap_find m = smap_find n" using assms(3) by blast
  then have "set (map fst m) = set (map fst n)"
    by (metis dom_map_of_conv_image_fst list.set_map smap_find_def ext)
  moreover have "sorted (map fst m)" "sorted (map fst n)"
    using assms(1,2) by (auto simp: smap_wf_def strict_sorted_iff)
  ultimately have "map fst m = map fst n"
    using assms(1,2) by (intro sorted_distinct_set_unique) (auto dest: smap_wf_distinct)
  with eq smap_rebuild [OF assms(1)] smap_rebuild [OF assms(2)] show ?thesis by metis
qed

subsection \<open>The interface\<close>

locale key_store =
  fixes find :: "'m \<Rightarrow> 'k \<Rightarrow> 'v option"
    and put :: "'k \<Rightarrow> 'v \<Rightarrow> 'm \<Rightarrow> 'm"
    and erase :: "'k \<Rightarrow> 'm \<Rightarrow> 'm"
    and invar :: "'m \<Rightarrow> bool"
  assumes find_put: "invar m \<Longrightarrow> find (put k v m) = (find m)(k \<mapsto> v)"
    and find_erase: "invar m \<Longrightarrow> find (erase k m) = (find m)(k := None)"
    and invar_put: "invar m \<Longrightarrow> invar (put k v m)"
    and invar_erase: "invar m \<Longrightarrow> invar (erase k m)"
    and ext_find: "invar m \<Longrightarrow> invar n \<Longrightarrow> (\<And>k. find m k = find n k) \<Longrightarrow> m = n"
begin

text \<open>The sources replace a value by \<open>erase\<close> and \<open>emplace\<close>: the same as assigning it.\<close>

lemma erase_put: "invar m \<Longrightarrow> put k v (erase k m) = put k v m"
  by (rule ext_find) (auto simp: find_put find_erase invar_put invar_erase)

lemma put_same: "invar m \<Longrightarrow> find m k = Some v \<Longrightarrow> put k v m = m"
  by (rule ext_find) (auto simp: find_put invar_put)

text \<open>
  A loop whose body, for each item, replaces only the item's own key, by a value computed from
  the item and what the store held for that key. Over distinct keys it acts key by key, in
  whatever order it visits them.
\<close>

lemma fold_keywise:
  assumes step: "\<And>k x m. invar m \<Longrightarrow>
      invar (step k x m) \<and> find (step k x m) = (find m)(k := g k x (find m k))"
    and "distinct (map fst xs)" and "invar m"
  shows "invar (fold (\<lambda>(k, x). step k x) xs m) \<and>
    find (fold (\<lambda>(k, x). step k x) xs m) k =
      (case map_of xs k of None \<Rightarrow> find m k | Some x \<Rightarrow> g k x (find m k))"
  using assms(2,3)
proof (induction xs arbitrary: m)
  case Nil
  then show ?case by simp
next
  case (Cons p xs)
  obtain a x where p: "p = (a, x)" by (cases p)
  from Cons.prems p have a: "map_of xs a = None" by (simp add: map_of_eq_None_iff)
  have s: "invar (step a x m)" "find (step a x m) = (find m)(a := g a x (find m a))"
    using step [OF Cons.prems(2)] by auto
  from Cons.IH [OF _ s(1)] Cons.prems(1) p
  have "invar (fold (\<lambda>(k, x). step k x) xs (step a x m)) \<and>
      find (fold (\<lambda>(k, x). step k x) xs (step a x m)) k =
        (case map_of xs k of None \<Rightarrow> find (step a x m) k
          | Some x' \<Rightarrow> g k x' (find (step a x m) k))"
    by simp
  with p a s(2) show ?case by (auto split: option.split)
qed

end

interpretation smap: key_store smap_find smap_put smap_erase "smap_wf :: ('k::linorder, 'v) smap \<Rightarrow> bool"
  by unfold_locales
    (auto simp: smap_find_put smap_find_erase smap_wf_put smap_wf_erase intro: smap_eqI)

lemma smap_erase_emplace: "smap_wf m \<Longrightarrow> smap_emplace k v (smap_erase k m) = smap_put k v m"
  by (simp add: smap_emplace_def smap_find_erase smap.erase_put)

end
