(* ===== verification/Platform.thy ===== *)
theory Platform
  imports StdMap
begin

unbundle bit_operations_syntax

text \<open>
  The data the program keeps (\<open>include/sharedstate.hh\<close>), its error conditions
  (\<open>include/shared_state_errors.hh\<close>), and the record \<open>ext\<close> of the code it calls that is not
  part of the repository: the socket address helpers, the JSON document and the serialiser of
  libretroshare and rapidjson. \<open>ext\<close> is an argument of every definition that uses one of them;
  the JSON document itself is the type variable \<open>'j\<close>.
\<close>

subsection \<open>Error conditions\<close>

text \<open>
  An \<open>std::error_condition\<close>: one of the \<open>std::errc\<close> enumerators (with its number), the
  condition \<open>rs_errno_to_condition\<close> makes of an \<open>errno\<close>, or one of the program's own category.
\<close>

datatype error_condition = Errc int | FromErrno int | SharedStateCond int

abbreviation "errc_no_such_file_or_directory \<equiv> Errc 2"
abbreviation "errc_io_error \<equiv> Errc 5"
abbreviation "errc_bad_address \<equiv> Errc 14"
abbreviation "errc_invalid_argument \<equiv> Errc 22"
abbreviation "errc_protocol_error \<equiv> Errc 71"
abbreviation "errc_bad_message \<equiv> Errc 74"
abbreviation "errc_message_size \<equiv> Errc 90"
abbreviation "errc_state_not_recoverable \<equiv> Errc 131"

datatype SharedStateErrors = UNKOWN_DATA_TYPE

fun SharedStateErrors_value :: "SharedStateErrors \<Rightarrow> int" where
  "SharedStateErrors_value UNKOWN_DATA_TYPE = 2000"

definition make_error_condition :: "SharedStateErrors \<Rightarrow> error_condition" where
  "make_error_condition e = SharedStateCond (SharedStateErrors_value e)"

definition category_name :: string where
  "category_name = ''SharedState''"

text \<open>\<open>rsErrorNotInCategory\<close> is library code, the first argument.\<close>

definition category_message :: "(int \<Rightarrow> string \<Rightarrow> string) \<Rightarrow> int \<Rightarrow> string" where
  "category_message rsErrorNotInCategory ev =
     (if ev = SharedStateErrors_value UNKOWN_DATA_TYPE then ''Unknown data type''
      else rsErrorNotInCategory ev category_name)"

subsection \<open>The program's data\<close>

text \<open>
  \<open>sockaddr_storage\<close>: family, port and address bytes. Durations and time points are their tick
  counts: TTLs and intervals in seconds, round trip times in microseconds, the steady clock in
  nanoseconds.
\<close>

record sockaddr_storage =
  ss_family :: nat
  ss_port :: u16
  ss_addr :: "byte list"

record 'j StateEntry =
  mAuthor :: string
  mTtl :: int
  mData :: 'j

record DataTypeConf =
  mName :: string
  mScope :: string
  mUpdateInterval :: int
  mBleachTTL :: int

definition DataTypeConf_default :: DataTypeConf where
  "DataTypeConf_default =
     \<lparr>mName = [], mScope = [], mUpdateInterval = 0, mBleachTTL = 0\<rparr>"

record NetworkStats =
  mPeer :: sockaddr_storage
  mTS :: int
  mRttExt :: int
  mUpBwMbsExt :: u32
  mDownBwMbsExt :: u32

definition sockaddr_zero :: sockaddr_storage where
  "sockaddr_zero = \<lparr>ss_family = 0, ss_port = 0, ss_addr = []\<rparr>"

definition NetworkStats_default :: NetworkStats where
  "NetworkStats_default =
     \<lparr>mPeer = sockaddr_zero, mTS = 0, mRttExt = 0, mUpBwMbsExt = 0, mDownBwMbsExt = 0\<rparr>"

record NetworkMessage =
  mTypeName :: string
  mMsgData :: "byte list"

type_synonym 'j state_slice = "(string, 'j StateEntry) smap"
type_synonym stat_map = "(string, NetworkStats list) smap"

definition TCP_PORT :: u16 where "TCP_PORT = 3490"
definition DATA_TYPE_NAME_MAX_LENGHT :: nat where "DATA_TYPE_NAME_MAX_LENGHT = 128"
definition DATA_MAX_LENGHT :: nat where "DATA_MAX_LENGHT = 1024 * 1024"
definition WIRE_PROTO_VERSION :: u32 where "WIRE_PROTO_VERSION = 1"
definition SHARED_STATE_NET_STAT_MAX_RECORDS :: byte where
  "SHARED_STATE_NET_STAT_MAX_RECORDS = 10"

text \<open>Thirty minutes in steady clock ticks.\<close>

definition SHARED_STATE_NET_STAT_MAX_AGE :: int where
  "SHARED_STATE_NET_STAT_MAX_AGE = 30 * 60 * 1000000000"

definition SHARED_STATE_CONFIG_DIR :: string where
  "SHARED_STATE_CONFIG_DIR = ''/tmp/shared-state/''"

definition SHARED_STATE_CONFIG_FILE_NAME :: string where
  "SHARED_STATE_CONFIG_FILE_NAME = ''shared-state-async.conf''"

definition SHARED_STATE_HOOKS_DIR :: string where
  "SHARED_STATE_HOOKS_DIR = ''/usr/share/shared-state/hooks/''"

definition SHARED_STATE_NET_STAT_FILE_PATH :: string where
  "SHARED_STATE_NET_STAT_FILE_PATH = ''/tmp/shared-state/network_statistics.json''"

definition SHARED_STATE_GET_CANDIDATES_CMD :: string where
  "SHARED_STATE_GET_CANDIDATES_CMD = ''shared-state-async-discover''"

subsection \<open>Code the program calls and the repository does not hold\<close>

text \<open>
  \<open>RsGenericSerializer::SerializeContext\<close>, as far as the program touches it, and the two jobs
  it asks for. A \<open>serial_process\<close> of the library takes the job, the context, the member's name
  and the member, and gives both back, updated.
\<close>

record 'j SerializeContext =
  mOk :: bool
  mJson :: 'j

datatype SerializeJob = TO_JSON | FROM_JSON

type_synonym ('j, 'v) member_process =
  "SerializeJob \<Rightarrow> 'j SerializeContext \<Rightarrow> string \<Rightarrow> 'v \<Rightarrow> 'j SerializeContext \<times> 'v"
type_synonym ('j, 'v) object_process =
  "SerializeJob \<Rightarrow> 'j SerializeContext \<Rightarrow> 'v \<Rightarrow> 'j SerializeContext \<times> 'v"

record 'j ext =
  x_little_endian :: bool
  x_stat_file_locking :: bool
  x_hostname_file :: string
  x_isLoopbackNet :: "sockaddr_storage \<Rightarrow> bool"
  x_isValidNet :: "sockaddr_storage \<Rightarrow> bool"
  x_ipv4_to_ipv6 :: "sockaddr_storage \<Rightarrow> bool \<times> sockaddr_storage"
  x_inet_pton :: "string \<Rightarrow> sockaddr_storage option"
  x_ipv4_aton :: "string \<Rightarrow> sockaddr_storage"
  x_setport :: "sockaddr_storage \<Rightarrow> u16 \<Rightarrow> sockaddr_storage"
  x_iptostring :: "sockaddr_storage \<Rightarrow> string"
  x_tostring :: "sockaddr_storage \<Rightarrow> string"
  x_errno_value :: "int \<Rightarrow> int"
  x_data_ne :: "'j \<Rightarrow> 'j \<Rightarrow> bool"
  x_ctx :: "'j SerializeContext"
  x_parse :: "byte list \<Rightarrow> 'j"
  x_parse_error :: "byte list \<Rightarrow> bool"
  x_print :: "'j \<Rightarrow> byte list"
  x_print_pretty :: "'j \<Rightarrow> byte list"
  x_object :: 'j
  x_add_member :: "'j \<Rightarrow> string \<Rightarrow> 'j \<Rightarrow> 'j"
  x_get_object :: "'j \<Rightarrow> (string \<times> 'j) list"
  x_member :: "'j \<Rightarrow> string \<Rightarrow> 'j"
  x_serial_string :: "('j, string) member_process"
  x_serial_int64 :: "('j, int) member_process"
  x_serial_uint32 :: "('j, u32) member_process"
  x_serial_json :: "('j, 'j) member_process"
  x_serial_slice :: "('j, 'j StateEntry) object_process \<Rightarrow> ('j, 'j state_slice) member_process"
  x_serial_confs ::
    "('j, DataTypeConf) object_process \<Rightarrow> ('j, (string, DataTypeConf) smap) member_process"
  x_serial_stats :: "('j, NetworkStats) object_process \<Rightarrow> ('j, stat_map) member_process"

text \<open>\<open>error_condition::value()\<close>: the number \<open>rs_errno_to_condition\<close> keeps is library code.\<close>

fun error_condition_value :: "'j ext \<Rightarrow> error_condition \<Rightarrow> int" where
  "error_condition_value X (Errc n) = n"
| "error_condition_value X (FromErrno n) = x_errno_value X n"
| "error_condition_value X (SharedStateCond n) = n"

text \<open>
  \<open>authorPlaceOlder\<close>: the first blank-delimited word of \<open>/proc/sys/kernel/hostname\<close>, which
  \<open>operator>>\<close> extracts.
\<close>

definition is_blank :: "char \<Rightarrow> bool" where
  "is_blank c \<longleftrightarrow> c \<in> {CHR 0x20, CHR 0x09, CHR 0x0A, CHR 0x0B, CHR 0x0C, CHR 0x0D}"

definition authorPlaceOlder :: "'j ext \<Rightarrow> string" where
  "authorPlaceOlder X = takeWhile (\<lambda>c. \<not> is_blank c) (dropWhile is_blank (x_hostname_file X))"

subsection \<open>Bytes, characters and byte order\<close>

definition byte_of_char :: "char \<Rightarrow> byte" where
  "byte_of_char c = of_nat (of_char c)"

definition char_of_byte :: "byte \<Rightarrow> char" where
  "char_of_byte b = char_of (unat b)"

abbreviation bytes_of_string :: "string \<Rightarrow> byte list" where
  "bytes_of_string \<equiv> map byte_of_char"

abbreviation string_of_bytes :: "byte list \<Rightarrow> string" where
  "string_of_bytes \<equiv> map char_of_byte"

lemma char_of_byte_of_char [simp]: "char_of_byte (byte_of_char c) = c"
proof -
  have "unat (of_nat (of_char c) :: byte) = of_char c mod 2 ^ 8"
    by (simp add: unat_of_nat)
  also have "\<dots> = of_char c" using of_char_mod_256 [of c, where 'a = nat] by simp
  finally have "unat (of_nat (of_char c) :: byte) = of_char c" .
  then show ?thesis by (simp add: char_of_byte_def byte_of_char_def)
qed

lemma char_byte_comp [simp]: "char_of_byte \<circ> byte_of_char = id"
  by (simp add: fun_eq_iff)

lemma string_bytes_roundtrip: "string_of_bytes (bytes_of_string s) = s"
  by simp

text \<open>
  An \<open>uint32_t\<close> variable in memory: its four bytes, least significant first on a little endian
  host. \<open>htonl\<close> and \<open>ntohl\<close> are the same exchange of bytes.
\<close>

definition be_bytes :: "u32 \<Rightarrow> byte list" where
  "be_bytes w = [ucast (drop_bit 24 w), ucast (drop_bit 16 w), ucast (drop_bit 8 w), ucast w]"

definition be_value :: "byte list \<Rightarrow> u32" where
  "be_value bs = foldl (\<lambda>w b. push_bit 8 w OR ucast b) 0 bs"

definition store32 :: "bool \<Rightarrow> u32 \<Rightarrow> byte list" where
  "store32 le w = (if le then rev (be_bytes w) else be_bytes w)"

definition load32 :: "bool \<Rightarrow> byte list \<Rightarrow> u32" where
  "load32 le bs = be_value (if le then rev bs else bs)"

definition htonl :: "bool \<Rightarrow> u32 \<Rightarrow> u32" where
  "htonl le w = (if le then be_value (rev (be_bytes w)) else w)"

lemma length_be_bytes [simp]: "length (be_bytes w) = 4"
  by (simp add: be_bytes_def)

lemma length_store32 [simp]: "length (store32 le w) = 4"
  by (simp add: store32_def)

lemma be_value_bytes [simp]: "be_value (be_bytes w) = w"
  by (rule bit_word_eqI) (auto simp: be_value_def be_bytes_def bit_simps not_less
      intro: ccontr)

lemma byte_no_high_bit: "\<not> bit (b::byte) (8 + n)" "\<not> bit (b::byte) (16 + n)" "\<not> bit (b::byte) (24 + n)"
  using bit_imp_le_length [of b "8 + n"] bit_imp_le_length [of b "16 + n"]
    bit_imp_le_length [of b "24 + n"] by auto

lemma be_bytes_value:
  assumes "length bs = 4"
  shows "be_bytes (be_value bs) = bs"
proof -
  from assms obtain a b c d where bs: "bs = [a, b, c, d]"
    by (auto simp: numeral_eq_Suc length_Suc_conv)
  show ?thesis unfolding bs be_value_def be_bytes_def
    by (auto intro!: bit_word_eqI simp: bit_simps byte_no_high_bit)
qed

lemma load_store32 [simp]: "load32 le (store32 le w) = w"
  by (simp add: load32_def store32_def)

lemma store_load32: "length bs = 4 \<Longrightarrow> store32 le (load32 le bs) = bs"
  by (simp add: load32_def store32_def be_bytes_value)

text \<open>Whatever the host's byte order, the wire carries the most significant byte first.\<close>

lemma htonl_load32: "length bs = 4 \<Longrightarrow> htonl le (load32 le bs) = be_value bs"
  by (simp add: htonl_def load32_def be_bytes_value)

lemma store32_htonl: "store32 le (htonl le w) = be_bytes w"
  by (simp add: htonl_def store32_def be_bytes_value)

lemma htonl_htonl [simp]: "htonl le (htonl le w) = w"
  by (simp add: htonl_def be_bytes_value)

end
