(* ===== verification/Coroutine.thy ===== *)
theory Coroutine
  imports Platform
begin

text \<open>
  The effects of the program. A \<open>std::task\<close> coroutine is a tree: it returns, terminates the
  process, stores an error condition in its caller's \<open>errbub\<close>, updates the process's state,
  calls the operating system or the standard library, or suspends until epoll reports an event
  on a descriptor. Only a suspension lets other coroutines run. \<open>co_bind\<close> is \<open>co_await\<close> of a
  task; \<open>or_exit\<close> and \<open>with_errc\<close> are the two ways the sources pass \<open>errbub\<close>: \<open>nullptr\<close>, and
  the address of a local \<open>std::error_condition\<close>; passing the own \<open>errbub\<close> on is plain \<open>co_bind\<close>.

  \<open>wp\<close> quantifies over every answer of the environment and every interference at a suspension;
  \<open>run\<close> executes a tree against one concrete environment. \<open>wp_run\<close> connects them.
\<close>

subsection \<open>Calls to the environment\<close>

record dir_entry =
  de_path :: string
  de_status_failed :: bool
  de_owner_exec :: bool

datatype syscall =
    SysSocket
  | SysSetsockopt int string int
  | SysBind int u16
  | SysListen int int
  | SysAccept int
  | SysConnect int sockaddr_storage
  | SysGetpeername int
  | SysRecv int nat
  | SysSend int "byte list"
  | SysRead int nat
  | SysWrite int "byte list"
  | SysClose int
  | SysFcntlGetFl int
  | SysFcntlSetFlNonblock int int
  | SysEpollCreate
  | SysEpollAdd int int u32
  | SysEpollMod int int u32
  | SysEpollDel int int
  | SysEpollWait int nat
  | SysTimerfdCreate
  | SysTimerfdSettime int int int
  | SysPipe
  | SysFork
  | SysPidfdOpen int
  | SysKillSigkill int
  | SysDup2 int int
  | SysExecvp "string list"
  | SysWaitpidNohang int
  | SysOpenCreate string
  | SysFlockEx int
  | SysFlockUn int
  | SteadyClockNow
  | ReadFile string
  | WriteFile string "byte list"
  | CreateDirectory string
  | IsDirectory string
  | DirectoryIterator string
  | ReadStdin
  | WriteStdout "byte list"

text \<open>What a call gives back: its value, \<open>errno\<close>, and whatever it writes through a pointer.\<close>

record sysret =
  s_ret :: int
  s_errno :: int
  s_bytes :: "byte list"
  s_addr :: sockaddr_storage
  s_fds :: "int \<times> int"
  s_entries :: "dir_entry list"
  s_events :: "(int \<times> u32) list"

definition sys_value :: "int \<Rightarrow> sysret" where
  "sys_value n = \<lparr>s_ret = n, s_errno = 0, s_bytes = [], s_addr = sockaddr_zero,
     s_fds = (0, 0), s_entries = [], s_events = []\<rparr>"

definition sys_error :: "int \<Rightarrow> sysret" where
  "sys_error e = (sys_value (-1))\<lparr>s_errno := e\<rparr>"

subsection \<open>Coroutines\<close>

text \<open>
  Why the process stopped: \<open>exit(n)\<close>, \<open>rs_error_bubble_or_exit\<close> on \<open>nullptr\<close>, a fault, a signal, or not
  at all: \<open>Unfinished\<close> ends the observation of a loop that is still running after as many
  iterations as the model was asked for.
\<close>

datatype trap = DivisionByZero | OutOfRange | DanglingReference | InvalidNumber | NullPointer | SignedOverflow

datatype halt = Exited int | Aborted error_condition | Trapped trap | Killed int | Unfinished

datatype ('s, 'a) co =
    Ret 'a
  | Halt halt
  | Bubble error_condition "('s, 'a) co"
  | Act "'s \<Rightarrow> 's" "'s \<Rightarrow> ('s, 'a) co"
  | Call syscall "sysret \<Rightarrow> ('s, 'a) co"
  | Suspend nat "('s, 'a) co"

primrec co_bind :: "('s, 'a) co \<Rightarrow> ('a \<Rightarrow> ('s, 'b) co) \<Rightarrow> ('s, 'b) co" where
  "co_bind (Ret a) f = f a"
| "co_bind (Halt h) f = Halt h"
| "co_bind (Bubble e c) f = Bubble e (co_bind c f)"
| "co_bind (Act u k) f = Act u (\<lambda>s. co_bind (k s) f)"
| "co_bind (Call q k) f = Call q (\<lambda>r. co_bind (k r) f)"
| "co_bind (Suspend a c) f = Suspend a (co_bind c f)"

definition co_then :: "('s, 'a) co \<Rightarrow> ('s, 'b) co \<Rightarrow> ('s, 'b) co" where
  "co_then c d = co_bind c (\<lambda>_. d)"

definition co_get :: "('s, 's) co" where
  "co_get = Act id Ret"

definition co_update :: "('s \<Rightarrow> 's) \<Rightarrow> ('s, unit) co" where
  "co_update u = Act u (\<lambda>_. Ret ())"

definition co_call :: "syscall \<Rightarrow> ('s, sysret) co" where
  "co_call q = Call q Ret"

text \<open>\<open>rs_error_bubble_or_exit\<close> followed by the failure value.\<close>

definition co_fail :: "error_condition \<Rightarrow> 'a \<Rightarrow> ('s, 'a) co" where
  "co_fail e a = Bubble e (Ret a)"

primrec or_exit :: "('s, 'a) co \<Rightarrow> ('s, 'a) co" where
  "or_exit (Ret a) = Ret a"
| "or_exit (Halt h) = Halt h"
| "or_exit (Bubble e c) = Halt (Aborted e)"
| "or_exit (Act u k) = Act u (\<lambda>s. or_exit (k s))"
| "or_exit (Call q k) = Call q (\<lambda>r. or_exit (k r))"
| "or_exit (Suspend a c) = Suspend a (or_exit c)"

primrec with_errc ::
  "('s, 'a) co \<Rightarrow> error_condition option \<Rightarrow> ('s, 'a \<times> error_condition option) co" where
  "with_errc (Ret a) e = Ret (a, e)"
| "with_errc (Halt h) e = Halt h"
| "with_errc (Bubble e' c) e = with_errc c (Some e')"
| "with_errc (Act u k) e = Act u (\<lambda>s. with_errc (k s) e)"
| "with_errc (Call q k) e = Call q (\<lambda>r. with_errc (k r) e)"
| "with_errc (Suspend a c) e = Suspend a (with_errc c e)"

subsection \<open>Monad laws\<close>

lemma co_bind_Ret [simp]: "co_bind c Ret = c"
  by (induction c) auto

lemma co_bind_assoc: "co_bind (co_bind c f) g = co_bind c (\<lambda>a. co_bind (f a) g)"
  by (induction c) auto

lemmas co_defs = co_then_def co_get_def co_update_def co_call_def co_fail_def

declare co_bind_assoc [co_simps] co_defs [co_simps]

lemma or_exit_bind: "or_exit (co_bind c f) = co_bind (or_exit c) (\<lambda>a. or_exit (f a))"
  by (induction c) auto

lemma or_exit_or_exit [simp]: "or_exit (or_exit c) = or_exit c"
  by (induction c) auto

lemma with_errc_bind:
  "with_errc (co_bind c f) e = co_bind (with_errc c e) (\<lambda>(a, e'). with_errc (f a) e')"
  by (induction c arbitrary: e) auto

lemma with_errc_or_exit: "with_errc (or_exit c) e = co_bind (or_exit c) (\<lambda>a. Ret (a, e))"
  by (induction c) auto

lemma or_exit_with_errc [simp]: "or_exit (with_errc c e) = with_errc c e"
  by (induction c arbitrary: e) auto

subsection \<open>All environments\<close>

text \<open>
  \<open>wp R H c Q s\<close>: started in \<open>s\<close>, with whatever answers the environment gives and other
  coroutines changing the state within \<open>R\<close> at every suspension, \<open>c\<close> returns only values and
  states in \<open>Q\<close>, and stops the process only as \<open>H\<close> allows.
\<close>

primrec wp ::
  "('s \<Rightarrow> 's \<Rightarrow> bool) \<Rightarrow> (halt \<Rightarrow> 's \<Rightarrow> bool) \<Rightarrow> ('s, 'a) co \<Rightarrow> ('a \<Rightarrow> 's \<Rightarrow> bool) \<Rightarrow> 's \<Rightarrow> bool"
where
  "wp R H (Ret a) Q s = Q a s"
| "wp R H (Halt h) Q s = H h s"
| "wp R H (Bubble e c) Q s = wp R H c Q s"
| "wp R H (Act u k) Q s = wp R H (k s) Q (u s)"
| "wp R H (Call q k) Q s = (\<forall>r. wp R H (k r) Q s)"
| "wp R H (Suspend a c) Q s = (\<forall>s'. R s s' \<longrightarrow> wp R H c Q s')"

lemma wp_bind [simp]: "wp R H (co_bind c f) Q s = wp R H c (\<lambda>a. wp R H (f a) Q) s"
  by (induction c arbitrary: s) auto

lemma wp_mono:
  assumes "wp R H c Q s" and "\<And>a t. Q a t \<Longrightarrow> Q' a t" and "\<And>h t. H h t \<Longrightarrow> H' h t"
  shows "wp R H' c Q' s"
  using assms(1)
proof (induction c arbitrary: s)
  case (Ret a)
  then show ?case using assms(2) by simp
next
  case (Halt h)
  then show ?case using assms(3) by simp
qed auto

lemma wp_conseq: "wp R H c Q s \<Longrightarrow> (\<And>a t. Q a t \<Longrightarrow> Q' a t) \<Longrightarrow> wp R H c Q' s"
  by (rule wp_mono)

lemma wp_conj: "wp R H c (\<lambda>a t. P a t \<and> Q a t) s = (wp R H c P s \<and> wp R H c Q s)"
  by (induction c arbitrary: s) auto

lemma wp_with_errc:
  "wp R H c (\<lambda>a t. \<forall>e'. Q (a, e') t) s \<Longrightarrow> wp R H (with_errc c e) Q s"
  by (induction c arbitrary: s e) auto

lemma wp_or_exit:
  assumes "wp R H c Q s" and "\<And>e t. H (Aborted e) t"
  shows "wp R H (or_exit c) Q s"
  using assms(1) by (induction c arbitrary: s) (auto simp: assms(2))

subsection \<open>One environment\<close>

text \<open>
  An environment answers the \<open>n\<close>-th call and interferes at the \<open>n\<close>-th suspension; \<open>run\<close> counts
  both.
\<close>

record 's env =
  e_call :: "nat \<Rightarrow> syscall \<Rightarrow> sysret"
  e_interfere :: "nat \<Rightarrow> 's \<Rightarrow> 's"

datatype 'a outcome = Done 'a | Stopped halt

primrec run :: "'s env \<Rightarrow> ('s, 'a) co \<Rightarrow> nat \<Rightarrow> 's \<Rightarrow> 'a outcome \<times> nat \<times> 's" where
  "run E (Ret a) n s = (Done a, n, s)"
| "run E (Halt h) n s = (Stopped h, n, s)"
| "run E (Bubble e c) n s = run E c n s"
| "run E (Act u k) n s = run E (k s) n (u s)"
| "run E (Call q k) n s = run E (k (e_call E n q)) (Suc n) s"
| "run E (Suspend a c) n s = run E c (Suc n) (e_interfere E n s)"

lemma run_bind [co_simps]:
  "run E (co_bind c f) n s =
     (case run E c n s of
        (Done a, n', s') \<Rightarrow> run E (f a) n' s'
      | (Stopped h, n', s') \<Rightarrow> (Stopped h, n', s'))"
  by (induction c arbitrary: n s) auto

text \<open>The calls an execution makes, with their answers, and the descriptors they open and close.\<close>

primrec trace :: "'s env \<Rightarrow> ('s, 'a) co \<Rightarrow> nat \<Rightarrow> 's \<Rightarrow> (syscall \<times> sysret) list" where
  "trace E (Ret a) n s = []"
| "trace E (Halt h) n s = []"
| "trace E (Bubble e c) n s = trace E c n s"
| "trace E (Act u k) n s = trace E (k s) n (u s)"
| "trace E (Call q k) n s = (q, e_call E n q) # trace E (k (e_call E n q)) (Suc n) s"
| "trace E (Suspend a c) n s = trace E c (Suc n) (e_interfere E n s)"

fun opened_by :: "syscall \<times> sysret \<Rightarrow> int list" where
  "opened_by (SysPipe, r) = (if s_ret r = -1 then [] else [fst (s_fds r), snd (s_fds r)])"
| "opened_by (SysSocket, r) = (if s_ret r < 0 then [] else [s_ret r])"
| "opened_by (SysAccept fd, r) = (if s_ret r < 0 then [] else [s_ret r])"
| "opened_by (SysTimerfdCreate, r) = (if s_ret r < 0 then [] else [s_ret r])"
| "opened_by (SysPidfdOpen pid, r) = (if s_ret r < 0 then [] else [s_ret r])"
| "opened_by (SysOpenCreate p, r) = (if s_ret r < 0 then [] else [s_ret r])"
| "opened_by (q, r) = []"

fun closed_by :: "syscall \<times> sysret \<Rightarrow> int list" where
  "closed_by (SysClose fd, r) = [fd]"
| "closed_by (q, r) = []"

definition opened_fds :: "(syscall \<times> sysret) list \<Rightarrow> int set" where
  "opened_fds tr = set (concat (map opened_by tr))"

definition closed_fds :: "(syscall \<times> sysret) list \<Rightarrow> int set" where
  "closed_fds tr = set (concat (map closed_by tr))"

lemma fds_Nil [simp]: "opened_fds [] = {}" "closed_fds [] = {}"
  by (simp_all add: opened_fds_def closed_fds_def)

lemma fds_Cons [simp]:
  "opened_fds (x # tr) = set (opened_by x) \<union> opened_fds tr"
  "closed_fds (x # tr) = set (closed_by x) \<union> closed_fds tr"
  by (simp_all add: opened_fds_def closed_fds_def)

lemma fds_append [simp]:
  "opened_fds (xs @ ys) = opened_fds xs \<union> opened_fds ys"
  "closed_fds (xs @ ys) = closed_fds xs \<union> closed_fds ys"
  by (simp_all add: opened_fds_def closed_fds_def)

lemma trace_bind [co_simps]:
  "trace E (co_bind c f) n s = trace E c n s @
     (case run E c n s of
        (Done a, n', s') \<Rightarrow> trace E (f a) n' s'
      | (Stopped h, n', s') \<Rightarrow> [])"
  by (induction c arbitrary: n s) auto

text \<open>Keeping the error condition changes nothing else of an execution.\<close>

lemma run_with_errc:
  "\<exists>e'. run E (with_errc c e) n s =
     (case run E c n s of (Done a, n', s') \<Rightarrow> (Done (a, e'), n', s') | (Stopped h, n', s') \<Rightarrow> (Stopped h, n', s'))"
  by (induction c arbitrary: n s e) auto

lemma trace_with_errc: "trace E (with_errc c e) n s = trace E c n s"
  by (induction c arbitrary: n s e) auto

lemma wp_run:
  assumes "wp R H c Q s" and "\<And>n s. R s (e_interfere E n s)"
  shows "case run E c n s of (Done a, n', s') \<Rightarrow> Q a s' | (Stopped h, n', s') \<Rightarrow> H h s'"
  using assms(1) by (induction c arbitrary: n s) (auto simp: assms(2))

end
