(* ===== verification/AsyncFileDescriptor.thy ===== *)
theory AsyncFileDescriptor
  imports Coroutine
begin

unbundle bit_operations_syntax

text \<open>
  \<open>AsyncFileDescriptor\<close> and its derived classes (\<open>include/async_file_descriptor.hh\<close>,
  \<open>include/async_command.hh\<close>), the state of \<open>IOContext\<close> (\<open>include/io_context.hh\<close>), the state of
  the whole process, and the queue of suspended coroutines of a descriptor. Objects live in a
  heap and are named by their address, a natural number, so that two \<open>shared_ptr\<close> to the same
  object are equal and two objects with the same descriptor are not.
\<close>

record afd =
  mFD :: int
  mIoState :: u32
  mNextIOState :: u32
  mPendigOps :: "nat list"
  mProcessId :: int
  mStdOut :: "nat option"
  mStdIn :: "nat option"

text \<open>The constructors: a fresh object around a descriptor.\<close>

definition afd_new :: "int \<Rightarrow> afd" where
  "afd_new fd = \<lparr>mFD = fd, mIoState = 0, mNextIOState = 0, mPendigOps = [],
     mProcessId = -1, mStdOut = None, mStdIn = None\<rparr>"

text \<open>
  The destructors of \<open>AsyncFileDescriptor\<close> and \<open>AsyncCommand\<close> end the process when the object
  was not closed first.
\<close>

definition afd_destructor :: "afd \<Rightarrow> halt option" where
  "afd_destructor a = (if mFD a \<noteq> -1 then Some (Exited 131) else None)"

definition command_destructor :: "afd \<Rightarrow> halt option" where
  "command_destructor a = (if mProcessId a \<noteq> -1 then Some (Exited 131) else afd_destructor a)"

record iocontext =
  mEpollFD :: int
  mManagedFD :: "(int, nat) smap"
  aheap :: "nat \<Rightarrow> afd option"
  next_address :: nat

text \<open>
  The process: the members of \<open>SharedState\<close>, its I/O context, whether \<open>signal(SIGPIPE, SIG_IGN)\<close> was
  called, and the handle of the coroutine that is being executed.
\<close>

record 'j process =
  mStates :: "(string, 'j state_slice) smap"
  mTypeConf :: "(string, DataTypeConf) smap"
  isPeer :: bool
  mIoContext :: iocontext
  sigpipe_ignored :: bool
  running :: nat

definition get_afd :: "'j process \<Rightarrow> nat \<Rightarrow> afd option" where
  "get_afd s r = aheap (mIoContext s) r"

definition fd_of :: "'j process \<Rightarrow> nat \<Rightarrow> int" where
  "fd_of s r = (case get_afd s r of None \<Rightarrow> -1 | Some a \<Rightarrow> mFD a)"

definition update_afd :: "nat \<Rightarrow> (afd \<Rightarrow> afd) \<Rightarrow> 'j process \<Rightarrow> 'j process" where
  "update_afd r f s = s\<lparr>mIoContext := (mIoContext s)\<lparr>aheap :=
     (aheap (mIoContext s))(r := map_option f (aheap (mIoContext s) r))\<rparr>\<rparr>"

lemma get_afd_update [simp]:
  "get_afd (update_afd r f s) r' = (if r' = r then map_option f (get_afd s r) else get_afd s r')"
  by (simp add: get_afd_def update_afd_def)

lemma update_afd_frame [simp]:
  "mStates (update_afd r f s) = mStates s" "mTypeConf (update_afd r f s) = mTypeConf s"
  "isPeer (update_afd r f s) = isPeer s" "sigpipe_ignored (update_afd r f s) = sigpipe_ignored s" "running (update_afd r f s) = running s"
  "mManagedFD (mIoContext (update_afd r f s)) = mManagedFD (mIoContext s)"
  "mEpollFD (mIoContext (update_afd r f s)) = mEpollFD (mIoContext s)"
  "next_address (mIoContext (update_afd r f s)) = next_address (mIoContext s)"
  by (simp_all add: update_afd_def)

lemma fd_of_update [simp]:
  "(\<And>a. mFD (f a) = mFD a) \<Longrightarrow> fd_of (update_afd r f s) r' = fd_of s r'"
  by (simp add: fd_of_def split: option.split)

subsection \<open>The queue of suspended coroutines\<close>

definition addPendingOp :: "nat \<Rightarrow> nat \<Rightarrow> 'j process \<Rightarrow> 'j process" where
  "addPendingOp r op = update_afd r (\<lambda>a. a\<lparr>mPendigOps := mPendigOps a @ [op]\<rparr>)"

definition pending_ops :: "nat \<Rightarrow> 'j process \<Rightarrow> nat list" where
  "pending_ops r s = (case get_afd s r of None \<Rightarrow> [] | Some a \<Rightarrow> mPendigOps a)"

definition pop_pending_op :: "nat \<Rightarrow> 'j process \<Rightarrow> 'j process" where
  "pop_pending_op r = update_afd r (\<lambda>a. a\<lparr>mPendigOps := tl (mPendigOps a)\<rparr>)"

end
