(* ===== verification/Guarantee.thy ===== *)
theory Guarantee
  imports AsyncFileDescriptor
begin

text \<open>
  What coroutines guarantee each other. A coroutine keeps a family of assertions: an assertion that
  holds when it starts holds whenever it returns or suspends, and when it is resumed it goes on
  with any assertion of the family that holds then. A family of one member is an invariant; a
  family indexed by states, \<open>I s0 s\<close>, says what a coroutine may change between two suspensions.
  Whenever a coroutine suspends on an object, the last thing it did was to queue itself there. The
  one signal that the program deals with kills the process only where it is not ignored.
\<close>

definition SIGPIPE :: int where "SIGPIPE = 13"

primrec guarantee ::
  "('i \<Rightarrow> 'j process \<Rightarrow> bool) \<Rightarrow> ('j process, 'a) co \<Rightarrow> 'i \<Rightarrow> 'j process \<Rightarrow> bool" where
  "guarantee I (Ret a) i s = I i s"
| "guarantee I (Halt h) i s = (h = Killed SIGPIPE \<longrightarrow> I i s \<and> \<not> sigpipe_ignored s)"
| "guarantee I (Bubble e c) i s = guarantee I c i s"
| "guarantee I (Act u k) i s = guarantee I (k s) i (u s)"
| "guarantee I (Call q k) i s = (\<forall>r. guarantee I (k r) i s)"
| "guarantee I (Suspend a c) i s = (I i s \<and>
     (\<exists>s0. I i s0 \<and> s = addPendingOp a (running s0) s0) \<and>
     (\<forall>i' s'. I i' s' \<longrightarrow> guarantee I c i' s'))"

definition co_keeps :: "('i \<Rightarrow> 'j process \<Rightarrow> bool) \<Rightarrow> ('j process, 'a) co \<Rightarrow> bool" where
  "co_keeps I c \<longleftrightarrow> (\<forall>i s. I i s \<longrightarrow> guarantee I c i s)"

lemma guarantee_bind:
  assumes "guarantee I c i s" and "\<And>a. co_keeps I (f a)"
  shows "guarantee I (co_bind c f) i s"
  using assms(1) by (induction c arbitrary: i s) (use assms(2) in \<open>auto simp: co_keeps_def\<close>)

lemma co_keeps_bind [keeps]:
  "co_keeps I c \<Longrightarrow> (\<And>a. co_keeps I (f a)) \<Longrightarrow> co_keeps I (co_bind c f)"
  by (auto simp: co_keeps_def [of I c] co_keeps_def [of I "co_bind c f"] intro: guarantee_bind)

lemma guarantee_or_exit: "guarantee I c i s \<Longrightarrow> guarantee I (or_exit c) i s"
  by (induction c arbitrary: i s) auto

lemma co_keeps_or_exit [keeps]: "co_keeps I c \<Longrightarrow> co_keeps I (or_exit c)"
  by (simp add: co_keeps_def guarantee_or_exit)

lemma guarantee_with_errc: "guarantee I c i s \<Longrightarrow> guarantee I (with_errc c e) i s"
  by (induction c arbitrary: i s e) auto

lemma co_keeps_with_errc [keeps]: "co_keeps I c \<Longrightarrow> co_keeps I (with_errc c e)"
  by (simp add: co_keeps_def guarantee_with_errc)

lemma co_keeps_Halt [keeps]:
  "co_keeps I (Halt (Exited n))" "co_keeps I (Halt (Aborted e))" "co_keeps I (Halt (Trapped t))"
  "co_keeps I (Halt Unfinished)"
  by (simp_all add: co_keeps_def)

lemma co_keeps_Ret [keeps]: "co_keeps I (Ret a)"
  "co_keeps I co_get" "co_keeps I (co_call q)" "co_keeps I (co_fail e a)"
  by (simp_all add: co_defs co_keeps_def)

lemma co_keeps_node [keeps]:
  "co_keeps I c \<Longrightarrow> co_keeps I (Bubble e c)" "(\<And>r. co_keeps I (k r)) \<Longrightarrow> co_keeps I (Call q k)"
  by (simp_all add: co_keeps_def)

lemma co_keeps_then [keeps]:
  "co_keeps I c \<Longrightarrow> co_keeps I d \<Longrightarrow> co_keeps I (co_then c d)"
  by (simp add: co_then_def co_keeps_bind)

lemma co_keeps_update: "(\<And>i s. I i s \<Longrightarrow> I i (u s)) \<Longrightarrow> co_keeps I (co_update u)"
  by (simp add: co_update_def co_keeps_def)

lemma co_keeps_if [keeps]:
  "(b \<Longrightarrow> co_keeps I c) \<Longrightarrow> (\<not> b \<Longrightarrow> co_keeps I d) \<Longrightarrow> co_keeps I (if b then c else d)"
  by simp

lemma co_keeps_option [keeps]:
  "(x = None \<Longrightarrow> co_keeps I c) \<Longrightarrow> (\<And>a. x = Some a \<Longrightarrow> co_keeps I (f a)) \<Longrightarrow>
   co_keeps I (case x of None \<Rightarrow> c | Some a \<Rightarrow> f a)"
  by (simp split: option.split)

lemma co_keeps_prod [keeps]:
  "(\<And>a b. x = (a, b) \<Longrightarrow> co_keeps I (f a b)) \<Longrightarrow> co_keeps I (case x of (a, b) \<Rightarrow> f a b)"
  by (simp split: prod.split)

lemma co_keeps_prod_applied [keeps]:
  "(\<And>a b. x = (a, b) \<Longrightarrow> co_keeps I (f a b y)) \<Longrightarrow> co_keeps I ((case x of (a, b) \<Rightarrow> f a b) y)"
  by (simp split: prod.split)

lemma co_keeps_let [keeps]: "(\<And>y. y = x \<Longrightarrow> co_keeps I (f y)) \<Longrightarrow> co_keeps I (let y = x in f y)"
  by simp

text \<open>Queueing itself and suspending go together.\<close>

lemma co_keeps_park:
  assumes "\<And>i s. I i s \<Longrightarrow> I i (addPendingOp a (running s) s)" and "co_keeps I c"
  shows "co_keeps I (co_then (co_update (\<lambda>s. addPendingOp a (running s) s)) (Suspend a c))"
  using assms by (auto simp: co_keeps_def co_then_def co_update_def)

lemma co_keeps_wp:
  assumes "co_keeps (\<lambda>_::unit. I) c" and "I s" and "\<And>s s'. R s s' \<Longrightarrow> I s \<Longrightarrow> I s'"
  shows "wp R (\<lambda>_ _. True) c (\<lambda>_. I) s"
proof -
  have "guarantee (\<lambda>_::unit. I) c i s" for i using assms(1,2) by (simp add: co_keeps_def)
  then show ?thesis by (induction c arbitrary: s) (auto intro: assms(3))
qed

end
