(* ===== verification/AwaitableSyscall.thy ===== *)
theory AwaitableSyscall
  imports Guarantee
begin

text \<open>
  \<open>AwaitableSyscall\<close> (\<open>include/awaitable_syscall.hh\<close>): the first attempt in \<open>await_suspend\<close>, the
  suspension when the call asks to wait, the second attempt in \<open>await_resume\<close>. A derived class
  is its \<open>syscall()\<close>, a function of whether this is its first run.
\<close>

definition EAGAIN :: int where "EAGAIN = 11"
definition EWOULDBLOCK :: int where "EWOULDBLOCK = 11"
definition EINPROGRESS :: int where "EINPROGRESS = 115"
definition ENOTCONN :: int where "ENOTCONN = 107"
definition EINVAL :: int where "EINVAL = 22"
definition EINTR :: int where "EINTR = 4"

definition shouldWait :: "sysret \<Rightarrow> bool" where
  "shouldWait r \<longleftrightarrow> s_ret r = -1 \<and>
     (s_errno r = EAGAIN \<or> s_errno r = EWOULDBLOCK \<or> s_errno r = EINPROGRESS)"

type_synonym ('j, 'a) task = "('j process, 'a) co"

text \<open>\<open>suspend\<close> queues the awaiting coroutine; whether control really leaves it is up to the
  caller.\<close>

definition suspend :: "nat \<Rightarrow> ('j, unit) task" where
  "suspend r = co_update (\<lambda>s. addPendingOp r (running s) s)"

definition await_resume :: "bool \<Rightarrow> nat \<Rightarrow> (bool \<Rightarrow> ('j, sysret) task) \<Rightarrow> ('j, sysret) task" where
  "await_resume multiShot r syscall =
     co_bind (syscall False) (\<lambda>ret.
       if multiShot \<and> shouldWait ret then co_then (suspend r) (Ret ret)
       else if s_ret ret = -1 then co_fail (FromErrno (s_errno ret)) ret
       else Ret ret)"

definition await_suspend :: "bool \<Rightarrow> nat \<Rightarrow> (bool \<Rightarrow> ('j, sysret) task) \<Rightarrow> ('j, sysret) task" where
  "await_suspend multiShot r syscall =
     co_bind (syscall True) (\<lambda>ret.
       if shouldWait ret
       then co_then (suspend r) (Suspend r (await_resume multiShot r syscall))
       else if s_ret ret = -1 then co_fail (FromErrno (s_errno ret)) ret
       else Ret ret)"

text \<open>
  For the single shot classes, an operation that is told to wait and then succeeds gives what
  the second attempt gave; one that is told to wait twice fails with that very condition.
\<close>

lemma await_resume_single:
  "await_resume False r syscall =
     co_bind (syscall False) (\<lambda>ret.
       if s_ret ret = -1 then co_fail (FromErrno (s_errno ret)) ret else Ret ret)"
  by (simp add: await_resume_def)

end
