(* ===== verification/IoContext.thy ===== *)
theory IoContext
  imports AwaitableSyscall
begin

unbundle bit_operations_syntax

text \<open>
  \<open>IOContext\<close> (\<open>include/io_context.hh\<close>, \<open>src/io_context.cc\<close>) without its event loop, and
  \<open>CloseOperation\<close> (\<open>src/close_operation.cc\<close>): registering, attaching, watching and closing
  descriptors. A pointer that the sources may leave null is an \<open>option\<close>.
\<close>

definition EPOLLIN :: u32 where "EPOLLIN = 0x001"
definition EPOLLPRI :: u32 where "EPOLLPRI = 0x002"
definition EPOLLOUT :: u32 where "EPOLLOUT = 0x004"
definition EPOLLERR :: u32 where "EPOLLERR = 0x008"
definition EPOLLET :: u32 where "EPOLLET = 0x80000000"
definition EPOLLHUP :: u32 where "EPOLLHUP = 0x010"
definition EPOLLRDNORM :: u32 where "EPOLLRDNORM = 0x040"
definition EPOLLRDBAND :: u32 where "EPOLLRDBAND = 0x080"
definition EPOLLWRNORM :: u32 where "EPOLLWRNORM = 0x100"
definition EPOLLWRBAND :: u32 where "EPOLLWRBAND = 0x200"
definition EPOLLMSG :: u32 where "EPOLLMSG = 0x400"
definition EPOLLRDHUP :: u32 where "EPOLLRDHUP = 0x2000"
definition EPOLLEXCLUSIVE :: u32 where "EPOLLEXCLUSIVE = 0x10000000"
definition EPOLLWAKEUP :: u32 where "EPOLLWAKEUP = 0x20000000"
definition EPOLLONESHOT :: u32 where "EPOLLONESHOT = 0x40000000"

text \<open>\<open>epoll_events_to_string\<close>, which the log messages use: the names of the flags that are set.\<close>

definition epoll_flags :: "(u32 \<times> string) list" where
  "epoll_flags =
     [(EPOLLIN, ''EPOLLIN''), (EPOLLPRI, ''EPOLLPRI''), (EPOLLOUT, ''EPOLLOUT''),
      (EPOLLRDNORM, ''EPOLLRDNORM''), (EPOLLRDBAND, ''EPOLLRDBAND''), (EPOLLWRNORM, ''EPOLLWRNORM''),
      (EPOLLWRBAND, ''EPOLLWRBAND''), (EPOLLMSG, ''EPOLLMSG''), (EPOLLERR, ''EPOLLERR''),
      (EPOLLHUP, ''EPOLLHUP''), (EPOLLRDHUP, ''EPOLLRDHUP''), (EPOLLEXCLUSIVE, ''EPOLLEXCLUSIVE''),
      (EPOLLWAKEUP, ''EPOLLWAKEUP''), (EPOLLONESHOT, ''EPOLLONESHOT''), (EPOLLET, ''EPOLLET'')]"

definition eAdd :: "string \<Rightarrow> string \<Rightarrow> string" where
  "eAdd evs tRet = (if tRet \<noteq> [] then tRet @ '', '' else tRet) @ evs"

definition epoll_events_to_string :: "u32 \<Rightarrow> string" where
  "epoll_events_to_string events =
     fold (\<lambda>(flag, name) tRet. if events AND flag \<noteq> 0 then eAdd name tRet else tRet) epoll_flags []"

lemma epoll_events_in_out: "epoll_events_to_string (EPOLLIN OR EPOLLET) = ''EPOLLIN, EPOLLET''"
  by (simp add: epoll_events_to_string_def epoll_flags_def eAdd_def EPOLLIN_def EPOLLPRI_def EPOLLOUT_def
      EPOLLRDNORM_def EPOLLRDBAND_def EPOLLWRNORM_def EPOLLWRBAND_def EPOLLMSG_def EPOLLERR_def EPOLLHUP_def
      EPOLLRDHUP_def EPOLLEXCLUSIVE_def EPOLLWAKEUP_def EPOLLONESHOT_def EPOLLET_def)

definition io_of :: "('j process \<Rightarrow> 'a) \<Rightarrow> ('j, 'a) task" where
  "io_of f = co_bind co_get (\<lambda>s. Ret (f s))"

definition IOContext_setup :: "('j, unit option) task" where
  "IOContext_setup = co_bind (co_call SysEpollCreate) (\<lambda>r.
     if s_ret r < 0 then co_fail (FromErrno (s_errno r)) None
     else co_then (co_update (\<lambda>s. s\<lparr>mIoContext :=
         \<lparr>mEpollFD = s_ret r, mManagedFD = [], aheap = (\<lambda>_. None), next_address = 0\<rparr>\<rparr>))
       (Ret (Some ())))"

text \<open>\<open>new AFD_T(fd, *this)\<close> and \<open>mManagedFD[fd] = aFD\<close>.\<close>

definition new_afd :: "int \<Rightarrow> 'j process \<Rightarrow> 'j process" where
  "new_afd fd s = (let io = mIoContext s; r = next_address io in
     s\<lparr>mIoContext := io\<lparr>mManagedFD := smap_put fd r (mManagedFD io),
       aheap := (aheap io)(r \<mapsto> afd_new fd), next_address := Suc r\<rparr>\<rparr>)"

definition registerFD :: "int \<Rightarrow> ('j, nat option) task" where
  "registerFD fd =
     co_bind (co_call (SysFcntlGetFl fd)) (\<lambda>flags.
       if s_ret flags = -1 then co_fail (FromErrno (s_errno flags)) None
       else co_bind (co_call (SysFcntlSetFlNonblock fd (s_ret flags))) (\<lambda>r.
         if s_ret r = -1 then co_fail (FromErrno (s_errno r)) None
         else co_bind (io_of (\<lambda>s. next_address (mIoContext s))) (\<lambda>a.
           co_then (co_update (new_afd fd)) (Ret (Some a)))))"

text \<open>\<open>attach\<close>, \<open>attachReadonly\<close> and \<open>attachWriteOnly\<close>: a failing \<open>epoll_ctl\<close> is only logged, and a
  null pointer is dereferenced.\<close>

definition attach_with :: "u32 \<Rightarrow> nat option \<Rightarrow> ('j, unit) task" where
  "attach_with io_state aFD = (case aFD of
     None \<Rightarrow> Halt (Trapped NullPointer)
   | Some a \<Rightarrow>
       co_bind (io_of (\<lambda>s. (mEpollFD (mIoContext s), fd_of s a))) (\<lambda>(ep, fd).
       co_bind (co_call (SysEpollAdd ep fd io_state)) (\<lambda>_.
       co_update (update_afd a (\<lambda>x. x\<lparr>mIoState := io_state\<rparr>)))))"

definition attach :: "nat option \<Rightarrow> ('j, unit) task" where
  "attach = attach_with (EPOLLIN OR EPOLLET)"

definition attachReadonly :: "nat option \<Rightarrow> ('j, unit) task" where
  "attachReadonly = attach_with (EPOLLIN OR EPOLLET)"

definition attachWriteOnly :: "nat option \<Rightarrow> ('j, unit) task" where
  "attachWriteOnly = attach_with (EPOLLOUT OR EPOLLET)"

definition set_next_io :: "(u32 \<Rightarrow> u32) \<Rightarrow> nat \<Rightarrow> ('j, unit) task" where
  "set_next_io f a = co_update (update_afd a (\<lambda>x. x\<lparr>mNextIOState := f (mNextIOState x)\<rparr>))"

definition watchRead :: "nat \<Rightarrow> ('j, unit) task" where
  "watchRead = set_next_io (\<lambda>st. st OR EPOLLIN)"

definition unwatchRead :: "nat \<Rightarrow> ('j, unit) task" where
  "unwatchRead = set_next_io (\<lambda>st. st AND NOT EPOLLIN)"

definition watchWrite :: "nat \<Rightarrow> ('j, unit) task" where
  "watchWrite = set_next_io (\<lambda>st. st OR EPOLLOUT)"

definition unwatchWrite :: "nat \<Rightarrow> ('j, unit) task" where
  "unwatchWrite = set_next_io (\<lambda>st. st AND NOT EPOLLOUT)"

subsection \<open>Closing\<close>

text \<open>\<open>CloseOperation::syscall\<close> reports a delayed close as done, so that it is never repeated.\<close>

definition CloseOperation_syscall :: "nat \<Rightarrow> ('j, sysret) task" where
  "CloseOperation_syscall a =
     co_bind (io_of (\<lambda>s. fd_of s a)) (\<lambda>fd.
     co_bind (co_call (SysClose fd)) (\<lambda>r.
       Ret (if shouldWait r then sys_value 0 else r)))"

definition CloseOperation :: "nat \<Rightarrow> ('j, sysret) task" where
  "CloseOperation a = await_suspend False a (\<lambda>_. CloseOperation_syscall a)"

text \<open>\<open>aFD->mFD = -1\<close> and \<open>mManagedFD.erase(fdIt)\<close>.\<close>

definition drop_managed :: "nat \<Rightarrow> int \<Rightarrow> 'j process \<Rightarrow> 'j process" where
  "drop_managed a fd s = (let s' = update_afd a (\<lambda>x. x\<lparr>mFD := -1\<rparr>) s in
     s'\<lparr>mIoContext := (mIoContext s')\<lparr>mManagedFD := smap_erase fd (mManagedFD (mIoContext s'))\<rparr>\<rparr>)"

definition closeAFD :: "nat option \<Rightarrow> ('j, bool) task" where
  "closeAFD aFD = (case aFD of
     None \<Rightarrow> co_fail errc_invalid_argument False
   | Some a \<Rightarrow>
       co_bind (io_of (\<lambda>s. (mEpollFD (mIoContext s), fd_of s a,
           smap_find (mManagedFD (mIoContext s)) (fd_of s a)))) (\<lambda>(ep, fd, managed).
         case managed of
           None \<Rightarrow> co_fail errc_no_such_file_or_directory False
         | Some b \<Rightarrow>
             if b \<noteq> a then Halt (Aborted errc_state_not_recoverable)
             else co_bind (co_call (SysEpollDel ep fd)) (\<lambda>del.
               if s_ret del = -1 then Halt (Aborted (FromErrno (s_errno del)))
               else co_bind (with_errc (CloseOperation a) None) (\<lambda>(r, closeErr).
                 co_then
                   (if s_ret r = -1
                    then co_fail (case closeErr of None \<Rightarrow> Errc 0 | Some e \<Rightarrow> e) ()
                    else Ret ())
                   (co_then (co_update (drop_managed a fd)) (Ret (s_ret r = 0)))))))"

subsection \<open>Well-formedness\<close>

text \<open>
  Every managed descriptor belongs to a live object with that descriptor, addresses are handed
  out in order, and no object is managed under two descriptors.
\<close>

definition io_wf :: "iocontext \<Rightarrow> bool" where
  "io_wf io \<longleftrightarrow> smap_wf (mManagedFD io) \<and>
     (\<forall>fd r. smap_find (mManagedFD io) fd = Some r \<longrightarrow>
        r < next_address io \<and> (\<exists>a. aheap io r = Some a \<and> mFD a = fd)) \<and>
     (\<forall>r. next_address io \<le> r \<longrightarrow> aheap io r = None)"

lemma io_wf_managed:
  assumes "io_wf io" and "smap_find (mManagedFD io) fd = Some r"
  shows "r < next_address io \<and> (\<exists>a. aheap io r = Some a \<and> mFD a = fd)"
  using assms unfolding io_wf_def by blast

lemma io_wfI:
  assumes "smap_wf (mManagedFD io)"
    and "\<And>fd r. smap_find (mManagedFD io) fd = Some r \<Longrightarrow>
        r < next_address io \<and> (\<exists>a. aheap io r = Some a \<and> mFD a = fd)"
    and "\<And>r. next_address io \<le> r \<Longrightarrow> aheap io r = None"
  shows "io_wf io"
  using assms unfolding io_wf_def by blast

lemma io_wf_fresh: "io_wf io \<Longrightarrow> next_address io \<le> r \<Longrightarrow> aheap io r = None"
  by (simp add: io_wf_def)

lemma io_wf_map: "io_wf io \<Longrightarrow> smap_wf (mManagedFD io)"
  by (simp add: io_wf_def)

lemma io_wf_managed_inj:
  "io_wf io \<Longrightarrow> smap_find (mManagedFD io) fd = Some r \<Longrightarrow>
   smap_find (mManagedFD io) fd' = Some r \<Longrightarrow> fd = fd'"
  by (metis io_wf_managed option.inject)

lemma io_wf_update_afd:
  assumes wf: "io_wf (mIoContext s)" and same: "\<And>a. mFD (f a) = mFD a"
  shows "io_wf (mIoContext (update_afd r f s))"
proof (rule io_wfI)
  fix fd b assume "smap_find (mManagedFD (mIoContext (update_afd r f s))) fd = Some b"
  then have "smap_find (mManagedFD (mIoContext s)) fd = Some b" by simp
  from io_wf_managed [OF wf this] obtain a where
    "b < next_address (mIoContext s)" "aheap (mIoContext s) b = Some a" "mFD a = fd" by blast
  moreover from this same have "mFD (f a) = fd" by simp
  ultimately show "b < next_address (mIoContext (update_afd r f s)) \<and>
      (\<exists>a. aheap (mIoContext (update_afd r f s)) b = Some a \<and> mFD a = fd)"
    by (auto simp: update_afd_def)
qed (use wf in \<open>auto simp: update_afd_def io_wf_map io_wf_fresh\<close>)

lemma io_wf_new_afd:
  assumes wf: "io_wf (mIoContext s)"
  shows "io_wf (mIoContext (new_afd fd s))"
proof (rule io_wfI)
  fix fd' b assume "smap_find (mManagedFD (mIoContext (new_afd fd s))) fd' = Some b"
  then have "fd' = fd \<and> b = next_address (mIoContext s) \<or>
      smap_find (mManagedFD (mIoContext s)) fd' = Some b"
    by (simp add: new_afd_def Let_def smap_find_put split: if_splits)
  then show "b < next_address (mIoContext (new_afd fd s)) \<and>
      (\<exists>a. aheap (mIoContext (new_afd fd s)) b = Some a \<and> mFD a = fd')"
  proof
    assume "fd' = fd \<and> b = next_address (mIoContext s)"
    then show ?thesis by (simp add: new_afd_def Let_def afd_new_def)
  next
    assume "smap_find (mManagedFD (mIoContext s)) fd' = Some b"
    from io_wf_managed [OF wf this] show ?thesis by (auto simp: new_afd_def Let_def)
  qed
qed (use wf in \<open>auto simp: new_afd_def Let_def io_wf_map io_wf_fresh smap_wf_put\<close>)

lemma io_wf_drop_managed:
  assumes wf: "io_wf (mIoContext s)" and a: "smap_find (mManagedFD (mIoContext s)) fd = Some a"
  shows "io_wf (mIoContext (drop_managed a fd s))"
proof (rule io_wfI)
  fix fd' b assume "smap_find (mManagedFD (mIoContext (drop_managed a fd s))) fd' = Some b"
  then have b: "fd' \<noteq> fd" "smap_find (mManagedFD (mIoContext s)) fd' = Some b"
    by (auto simp: drop_managed_def Let_def smap_find_erase split: if_splits)
  then have "b \<noteq> a" using io_wf_managed_inj [OF wf a] by auto
  with io_wf_managed [OF wf b(2)]
  show "b < next_address (mIoContext (drop_managed a fd s)) \<and>
      (\<exists>x. aheap (mIoContext (drop_managed a fd s)) b = Some x \<and> mFD x = fd')"
    by (auto simp: drop_managed_def Let_def update_afd_def)
qed (use wf in \<open>auto simp: drop_managed_def Let_def update_afd_def io_wf_map io_wf_fresh smap_wf_erase\<close>)

end
