(* ===== verification/Operations.thy ===== *)
theory Operations
  imports IoContext
begin

text \<open>
  The awaitable system calls (\<open>src/*_operation.cc\<close>) and the transfer loops \<open>AsyncSocket::recv\<close>,
  \<open>AsyncSocket::send\<close>, \<open>asyncRead\<close> and \<open>asyncWrite\<close>. A constructor subscribes to the epoll event,
  the destructor unsubscribes; \<open>with_watch\<close> is that bracket. A transfer never moves more bytes
  than asked for; the number of bytes it reports is the number it moved.
\<close>

definition with_watch ::
  "(nat \<Rightarrow> ('j, unit) task) \<Rightarrow> (nat \<Rightarrow> ('j, unit) task) \<Rightarrow> nat \<Rightarrow> ('j, 'a) task \<Rightarrow> ('j, 'a) task"
where
  "with_watch watch unwatch a op =
     co_then (watch a) (co_bind op (\<lambda>r. co_then (unwatch a) (Ret r)))"

definition on_fd :: "nat \<Rightarrow> (int \<Rightarrow> syscall) \<Rightarrow> ('j, sysret) task" where
  "on_fd a q = co_bind (io_of (\<lambda>s. fd_of s a)) (\<lambda>fd. co_call (q fd))"

definition AcceptOperation_syscall :: "nat \<Rightarrow> ('j, sysret) task" where
  "AcceptOperation_syscall a = on_fd a SysAccept"

definition AcceptOperation :: "nat \<Rightarrow> ('j, sysret) task" where
  "AcceptOperation a = with_watch watchRead unwatchRead a
     (await_suspend False a (\<lambda>_. AcceptOperation_syscall a))"

definition RecvOperation_syscall :: "nat \<Rightarrow> nat \<Rightarrow> ('j, sysret) task" where
  "RecvOperation_syscall a len = on_fd a (\<lambda>fd. SysRecv fd len)"

definition RecvOperation :: "nat \<Rightarrow> nat \<Rightarrow> ('j, sysret) task" where
  "RecvOperation a len = with_watch watchRead unwatchRead a
     (await_suspend False a (\<lambda>_. RecvOperation_syscall a len))"

text \<open>
  \<open>send\<close> without \<open>MSG_NOSIGNAL\<close> and \<open>write\<close> on a broken connection: besides failing with \<open>EPIPE\<close> they
  raise \<open>SIGPIPE\<close>, which ends the process unless it is ignored.
\<close>

definition EPIPE :: int where "EPIPE = 32"

definition raise_sigpipe :: "sysret \<Rightarrow> ('j, sysret) task" where
  "raise_sigpipe r = co_bind co_get (\<lambda>s.
     if s_ret r = -1 \<and> s_errno r = EPIPE \<and> \<not> sigpipe_ignored s then Halt (Killed SIGPIPE) else Ret r)"

definition SendOperation_syscall :: "nat \<Rightarrow> byte list \<Rightarrow> ('j, sysret) task" where
  "SendOperation_syscall a buf = co_bind (on_fd a (\<lambda>fd. SysSend fd buf)) raise_sigpipe"

definition SendOperation :: "nat \<Rightarrow> byte list \<Rightarrow> ('j, sysret) task" where
  "SendOperation a buf = with_watch watchWrite unwatchWrite a
     (await_suspend False a (\<lambda>_. SendOperation_syscall a buf))"

definition ReadOp_syscall :: "nat \<Rightarrow> nat \<Rightarrow> ('j, sysret) task" where
  "ReadOp_syscall a len = on_fd a (\<lambda>fd. SysRead fd len)"

definition ReadOp :: "nat \<Rightarrow> nat \<Rightarrow> ('j, sysret) task" where
  "ReadOp a len = with_watch watchRead unwatchRead a
     (await_suspend False a (\<lambda>_. ReadOp_syscall a len))"

definition WriteOp_syscall :: "nat \<Rightarrow> byte list \<Rightarrow> ('j, sysret) task" where
  "WriteOp_syscall a buf = co_bind (on_fd a (\<lambda>fd. SysWrite fd buf)) raise_sigpipe"

definition WriteOp :: "nat \<Rightarrow> byte list \<Rightarrow> ('j, sysret) task" where
  "WriteOp a buf = with_watch watchWrite unwatchWrite a
     (await_suspend False a (\<lambda>_. WriteOp_syscall a buf))"

text \<open>
  \<open>waitpid\<close> with \<open>WNOHANG\<close> gives 0 while the child runs; the operation turns that into the
  \<open>-1\<close>, \<open>EAGAIN\<close> that \<open>AwaitableSyscall\<close> understands. It is the only multi-shot operation.
\<close>

definition WaitpidOperation_syscall :: "nat \<Rightarrow> ('j, sysret) task" where
  "WaitpidOperation_syscall a =
     co_bind (io_of (\<lambda>s. case get_afd s a of None \<Rightarrow> -1 | Some x \<Rightarrow> mProcessId x)) (\<lambda>mChildPid.
     co_bind (co_call (SysWaitpidNohang mChildPid)) (\<lambda>r.
       Ret (if s_ret r = 0 then sys_error EAGAIN else r)))"

definition WaitpidOperation :: "nat \<Rightarrow> ('j, sysret) task" where
  "WaitpidOperation a = with_watch watchRead unwatchRead a
     (await_suspend True a (\<lambda>_. WaitpidOperation_syscall a))"

text \<open>
  The first run of \<open>ConnectOperation\<close> starts the connection; the second asks for the peer's name
  to learn whether it was established, and on failure reads from the socket for the reason.
\<close>

definition ConnectOperation_syscall ::
  "'j ext \<Rightarrow> nat \<Rightarrow> sockaddr_storage \<Rightarrow> bool \<Rightarrow> ('j, sysret) task" where
  "ConnectOperation_syscall X a addr mFirstRun =
     (if mFirstRun then
        if \<not> x_isValidNet X addr \<or> \<not> fst (x_ipv4_to_ipv6 X addr)
        then Ret (sys_error EINVAL)
        else on_fd a (\<lambda>fd. SysConnect fd (snd (x_ipv4_to_ipv6 X addr)))
      else
        co_bind (on_fd a SysGetpeername) (\<lambda>r.
          if s_ret r \<noteq> 0 then
            if s_errno r = ENOTCONN then on_fd a (\<lambda>fd. SysRead fd 1)
            else Ret (sys_error (s_errno r))
          else Ret (sys_value 0)))"

definition ConnectOperation :: "'j ext \<Rightarrow> nat \<Rightarrow> sockaddr_storage \<Rightarrow> ('j, sysret) task" where
  "ConnectOperation X a addr = with_watch watchWrite unwatchWrite a
     (await_suspend False a (ConnectOperation_syscall X a addr))"

subsection \<open>Transfer loops\<close>

text \<open>
  The receiving loop, over the operation \<open>op\<close> that reads at most the given number of bytes: it
  returns the total and the bytes, in the order they arrived at the start of the buffer.
\<close>

definition received :: "nat \<Rightarrow> sysret \<Rightarrow> byte list" where
  "received n r = take n (s_bytes r)"

definition written :: "nat \<Rightarrow> sysret \<Rightarrow> nat" where
  "written n r = min (nat (s_ret r)) n"

lemma length_received: "length (received n r) \<le> n"
  by (simp add: received_def)

lemma written_le: "written n r \<le> n"
  by (simp add: written_def)

function read_loop ::
  "(nat \<Rightarrow> ('j, sysret) task) \<Rightarrow> nat \<Rightarrow> byte list \<Rightarrow> ('j, int \<times> byte list) task" where
  "read_loop op len acc =
     co_bind (op (len - length acc)) (\<lambda>r.
       if s_ret r = -1 then Ret (-1, acc)
       else
         let chunk = received (len - length acc) r;
             acc' = acc @ chunk
         in if chunk \<noteq> [] \<and> length acc' < len then read_loop op len acc'
            else Ret (int (length acc'), acc'))"
  by pat_completeness auto
termination
  by (relation "measure (\<lambda>(op, len, acc). len - length acc)")
    (auto simp flip: length_greater_0_conv simp del: length_greater_0_conv)

declare read_loop.simps [simp del]

text \<open>The sending loop, over the operation that writes some of the given bytes.\<close>

function write_loop ::
  "(byte list \<Rightarrow> ('j, sysret) task) \<Rightarrow> byte list \<Rightarrow> nat \<Rightarrow> ('j, int) task" where
  "write_loop op buf sent =
     co_bind (op (drop sent buf)) (\<lambda>r.
       if s_ret r = -1 then Ret (-1)
       else
         let n = written (length buf - sent) r;
             sent' = sent + n
         in if n \<noteq> 0 \<and> sent' < length buf then write_loop op buf sent'
            else Ret (int sent'))"
  by pat_completeness auto
termination
  by (relation "measure (\<lambda>(op, buf, sent). length buf - sent)") auto

declare write_loop.simps [simp del]

definition AsyncSocket_recv :: "nat \<Rightarrow> nat \<Rightarrow> ('j, int \<times> byte list) task" where
  "AsyncSocket_recv a len = read_loop (RecvOperation a) len []"

definition AsyncSocket_send :: "nat \<Rightarrow> byte list \<Rightarrow> ('j, int) task" where
  "AsyncSocket_send a buf = write_loop (SendOperation a) buf 0"

definition asyncRead :: "nat \<Rightarrow> nat \<Rightarrow> ('j, int \<times> byte list) task" where
  "asyncRead a len = read_loop (ReadOp a) len []"

definition asyncWrite :: "nat \<Rightarrow> byte list \<Rightarrow> ('j, int) task" where
  "asyncWrite a buf = write_loop (WriteOp a) buf 0"

subsection \<open>What every operation leaves alone\<close>

text \<open>
  An assertion that depends on the descriptors of the objects and on what is managed, but not
  on subscriptions, and that survives the growth of queues, is kept by all of them. No operation
  takes a coroutine out of a queue.
\<close>

definition queue_grows :: "(afd \<Rightarrow> afd) \<Rightarrow> bool" where
  "queue_grows f \<longleftrightarrow> (\<forall>a. \<exists>q. mPendigOps (f a) = mPendigOps a @ q)"

definition io_blind :: "('i \<Rightarrow> 'j process \<Rightarrow> bool) \<Rightarrow> bool" where
  "io_blind I \<longleftrightarrow> (\<forall>i s r f. queue_grows f \<longrightarrow> (\<forall>a. mFD (f a) = mFD a \<and> mProcessId (f a) = mProcessId a \<and>
      mStdIn (f a) = mStdIn a \<and> mStdOut (f a) = mStdOut a) \<longrightarrow> I i s \<longrightarrow> I i (update_afd r f s))"

lemma io_blindD:
  "io_blind I \<Longrightarrow> I i s \<Longrightarrow> queue_grows f \<Longrightarrow> (\<And>a. mFD (f a) = mFD a) \<Longrightarrow>
   (\<And>a. mProcessId (f a) = mProcessId a) \<Longrightarrow> (\<And>a. mStdIn (f a) = mStdIn a) \<Longrightarrow>
   (\<And>a. mStdOut (f a) = mStdOut a) \<Longrightarrow> I i (update_afd r f s)"
  unfolding io_blind_def by blast

lemma keeps_io_of [keeps]: "co_keeps I (io_of f)"
  by (simp add: io_of_def co_keeps_bind co_keeps_Ret)

lemma keeps_on_fd [keeps]: "co_keeps I (on_fd a q)"
  by (simp add: on_fd_def keeps)

lemma keeps_raise_sigpipe [keeps]: "co_keeps I (raise_sigpipe r)"
  by (simp add: raise_sigpipe_def co_keeps_def co_get_def)

lemma keeps_set_next_io [keeps]: "io_blind I \<Longrightarrow> co_keeps I (set_next_io f a)"
  unfolding set_next_io_def by (rule co_keeps_update) (auto intro: io_blindD simp: queue_grows_def)

lemmas watch_defs = watchRead_def unwatchRead_def watchWrite_def unwatchWrite_def

lemma blind_queue: "io_blind I \<Longrightarrow> I i s \<Longrightarrow> I i (addPendingOp r h s)"
  unfolding addPendingOp_def by (auto intro: io_blindD simp: queue_grows_def)

lemma keeps_suspend [keeps]: "io_blind I \<Longrightarrow> co_keeps I (suspend r)"
  unfolding suspend_def by (rule co_keeps_update) (rule blind_queue)

lemma keeps_await_suspend [keeps]:
  assumes "io_blind I" and "\<And>b. co_keeps I (sc b)"
  shows "co_keeps I (await_suspend m a sc)"
proof -
  have "co_keeps I (await_resume m a sc)" unfolding await_resume_def by (intro keeps assms)
  then have "co_keeps I (co_then (suspend a) (Suspend a (await_resume m a sc)))"
    unfolding suspend_def by (rule co_keeps_park [rotated]) (rule blind_queue [OF assms(1)])
  then show ?thesis
    unfolding await_suspend_def by (intro co_keeps_bind co_keeps_if co_keeps_Ret assms)
qed

lemma keeps_read_loop [keeps]:
  assumes "\<And>n. co_keeps I (op n)"
  shows "co_keeps I (read_loop op len acc)"
  using assms
proof (induction op len acc rule: read_loop.induct)
  case (1 op len acc)
  then show ?case
    by (subst read_loop.simps) (intro co_keeps_bind co_keeps_if co_keeps_let co_keeps_Ret, auto)
qed

lemma keeps_write_loop [keeps]:
  assumes "\<And>b. co_keeps I (op b)"
  shows "co_keeps I (write_loop op buf sent)"
  using assms
proof (induction op buf sent rule: write_loop.induct)
  case (1 op buf sent)
  then show ?case
    by (subst write_loop.simps) (intro co_keeps_bind co_keeps_if co_keeps_let co_keeps_Ret, auto)
qed

lemmas operation_defs = AcceptOperation_def RecvOperation_def SendOperation_def ReadOp_def
  WriteOp_def WaitpidOperation_def ConnectOperation_def with_watch_def watch_defs
  AcceptOperation_syscall_def RecvOperation_syscall_def SendOperation_syscall_def
  ReadOp_syscall_def WriteOp_syscall_def WaitpidOperation_syscall_def
  ConnectOperation_syscall_def

lemma keeps_operations [keeps]:
  assumes "io_blind I"
  shows "co_keeps I (AcceptOperation a)" "co_keeps I (RecvOperation a n)"
    "co_keeps I (SendOperation a buf)" "co_keeps I (ReadOp a n)" "co_keeps I (WriteOp a buf)"
    "co_keeps I (WaitpidOperation a)" "co_keeps I (ConnectOperation X a addr)"
  unfolding operation_defs by (intro keeps assms)+

lemma keeps_transfers [keeps]:
  assumes "io_blind I"
  shows "co_keeps I (AsyncSocket_recv a n)" "co_keeps I (AsyncSocket_send a buf)"
    "co_keeps I (asyncRead a n)" "co_keeps I (asyncWrite a buf)"
  unfolding AsyncSocket_recv_def AsyncSocket_send_def asyncRead_def asyncWrite_def
  by (intro keeps assms)+

text \<open>
  What opens and closes descriptors changes the table of managed objects in two more ways: a new
  object enters it, and one that is in it leaves it, closed. An invariant that survives these is
  kept by everything below; one that does not depend on the I/O context at all trivially is, and
  so is the well-formedness of the table.
\<close>

definition io_safe :: "('i \<Rightarrow> 'j process \<Rightarrow> bool) \<Rightarrow> bool" where
  "io_safe I \<longleftrightarrow>
     (\<forall>i s r f. queue_grows f \<longrightarrow> (\<forall>a. mFD (f a) = mFD a) \<longrightarrow> I i s \<longrightarrow> I i (update_afd r f s)) \<and>
     (\<forall>i s fd. I i s \<longrightarrow> I i (new_afd fd s)) \<and>
     (\<forall>i s a fd. I i s \<longrightarrow> smap_find (mManagedFD (mIoContext s)) fd = Some a \<longrightarrow>
        I i (drop_managed a fd s))"

lemma io_safeD:
  assumes "io_safe I" and "I i s"
  shows "queue_grows f \<Longrightarrow> (\<And>a. mFD (f a) = mFD a) \<Longrightarrow> I i (update_afd r f s)"
    and "I i (new_afd fd s)"
    and "smap_find (mManagedFD (mIoContext s)) fd = Some a \<Longrightarrow> I i (drop_managed a fd s)"
  using assms unfolding io_safe_def by blast+

lemma io_safe_blind: "io_safe I \<Longrightarrow> io_blind I"
  by (simp add: io_blind_def io_safe_def)

definition io_free :: "('i \<Rightarrow> 'j process \<Rightarrow> bool) \<Rightarrow> bool" where
  "io_free I \<longleftrightarrow> (\<forall>i s io. I i s \<longrightarrow> I i (s\<lparr>mIoContext := io\<rparr>))"

lemma io_freeD: "io_free I \<Longrightarrow> I i s \<Longrightarrow> I i (s\<lparr>mIoContext := io\<rparr>)"
  by (simp add: io_free_def)

lemma io_free_safe: "io_free I \<Longrightarrow> io_safe I"
  by (simp add: io_free_def io_safe_def update_afd_def new_afd_def drop_managed_def Let_def)

lemma io_wf_safe: "io_safe (\<lambda>_ s. io_wf (mIoContext s))"
  by (simp add: io_safe_def io_wf_update_afd io_wf_new_afd io_wf_drop_managed)

lemma keeps_update_afd [keeps]:
  "io_safe I \<Longrightarrow> (\<And>a. mFD (f a) = mFD a \<and> mPendigOps (f a) = mPendigOps a) \<Longrightarrow>
   co_keeps I (co_update (update_afd r f))"
  by (rule co_keeps_update) (auto intro: io_safeD simp: queue_grows_def)

lemma keeps_new_afd [keeps]: "io_safe I \<Longrightarrow> co_keeps I (co_update (new_afd fd))"
  by (rule co_keeps_update) (rule io_safeD)

lemma keeps_registerFD [keeps]: "io_safe I \<Longrightarrow> co_keeps I (registerFD fd)"
  unfolding registerFD_def by (intro keeps)

lemma keeps_attach [keeps]:
  assumes "io_safe I"
  shows "co_keeps I (attach a)" "co_keeps I (attachReadonly a)" "co_keeps I (attachWriteOnly a)"
  unfolding attach_def attachReadonly_def attachWriteOnly_def attach_with_def
  by (intro keeps assms; simp)+

text \<open>
  \<open>closeAFD\<close> never suspends: \<open>CloseOperation\<close> hides the request to wait. So what it found in the
  table is still there when it removes it.
\<close>

lemma CloseOperation_eq:
  "CloseOperation a =
     co_bind (io_of (\<lambda>s. fd_of s a)) (\<lambda>fd. co_bind (co_call (SysClose fd)) (\<lambda>r.
       if shouldWait r then Ret (sys_value 0)
       else if s_ret r = -1 then co_fail (FromErrno (s_errno r)) r else Ret r))"
proof -
  have "\<not> shouldWait (sys_value 0)" "s_ret (sys_value 0) \<noteq> -1"
    by (simp_all add: shouldWait_def sys_value_def)
  then show ?thesis
    by (auto simp: CloseOperation_def await_suspend_def CloseOperation_syscall_def co_simps io_of_def
        fun_eq_iff)
qed

lemma keeps_closeAFD [keeps]:
  assumes "io_safe I"
  shows "co_keeps I (closeAFD a)"
  using io_safeD(3) [OF assms]
  by (auto simp: co_keeps_def closeAFD_def CloseOperation_eq io_of_def co_simps with_errc_bind
      split: option.split)

lemma keeps_IOContext_setup [keeps]: "io_free I \<Longrightarrow> co_keeps I IOContext_setup"
  unfolding IOContext_setup_def by (intro keeps co_keeps_update) (rule io_freeD)

end
