(* ===== verification/AsyncSocket.thy ===== *)
theory AsyncSocket
  imports Operations
begin

text \<open>
  \<open>ConnectingSocket\<close>, \<open>ListeningSocket\<close> and \<open>AsyncSocket\<close> (\<open>src/async_socket.cc\<close>) and \<open>AsyncTimer\<close>
  (\<open>src/async_timer.cc\<close>). The transfer methods are in the theory of the operations. A call the
  sources make without an error pointer is wrapped in \<open>or_exit\<close>.
\<close>

subsection \<open>Sockets\<close>

definition ConnectingSocket_connect ::
  "'j ext \<Rightarrow> sockaddr_storage \<Rightarrow> ('j, nat option) task" where
  "ConnectingSocket_connect X address =
     co_bind (co_call SysSocket) (\<lambda>fd.
       if s_ret fd < 0 then co_fail (FromErrno (s_errno fd)) None
       else co_bind (or_exit (registerFD (s_ret fd))) (\<lambda>lSocket.
         co_then (attachWriteOnly lSocket) (case lSocket of
           None \<Rightarrow> Halt (Trapped NullPointer)
         | Some a \<Rightarrow>
             co_bind (ConnectOperation X a address) (\<lambda>r.
               if s_ret r = -1 then co_then (or_exit (closeAFD lSocket)) (Ret None)
               else Ret lSocket))))"

definition DEFAULT_LISTEN_BACKLOG :: int where "DEFAULT_LISTEN_BACKLOG = 8"

definition setupListener :: "u16 \<Rightarrow> ('j, nat option) task" where
  "setupListener port =
     co_bind (co_call SysSocket) (\<lambda>fd.
       if s_ret fd < 0 then co_fail (FromErrno (s_errno fd)) None
       else co_bind (co_call (SysSetsockopt (s_ret fd) ''IPV6_V6ONLY'' 0)) (\<lambda>r1.
         if s_ret r1 < 0 then co_fail (FromErrno (s_errno r1)) None
         else co_bind (co_call (SysSetsockopt (s_ret fd) ''SO_REUSEADDR'' 1)) (\<lambda>r2.
           if s_ret r2 < 0 then co_fail (FromErrno (s_errno r2)) None
           else co_bind (co_call (SysBind (s_ret fd) port)) (\<lambda>r3.
             if s_ret r3 < 0 then co_fail (FromErrno (s_errno r3)) None
             else co_bind (co_call (SysListen (s_ret fd) DEFAULT_LISTEN_BACKLOG)) (\<lambda>r4.
               if s_ret r4 < 0 then co_fail (FromErrno (s_errno r4)) None
               else co_bind (registerFD (s_ret fd)) (\<lambda>lSocket. case lSocket of
                 None \<Rightarrow>
                   co_bind (co_call (SysClose (s_ret fd))) (\<lambda>c.
                     if s_ret c \<noteq> 0 then co_fail (FromErrno (s_errno c)) None else Ret None)
               | Some a \<Rightarrow>
                   co_then (attachReadonly lSocket) (co_then (watchRead a) (Ret lSocket))))))))"

definition ListeningSocket_accept :: "nat \<Rightarrow> ('j, nat option) task" where
  "ListeningSocket_accept listener =
     co_bind (or_exit (AcceptOperation listener)) (\<lambda>fd.
     co_bind (or_exit (registerFD (s_ret fd))) (\<lambda>rsk.
     co_then (attach rsk) (Ret rsk)))"

text \<open>\<open>getPeerAddr\<close> gives back whether it succeeded and what is then in the address; on failure
  that is what was there before.\<close>

definition getPeerAddr ::
  "nat \<Rightarrow> sockaddr_storage \<Rightarrow> ('j, bool \<times> sockaddr_storage) task" where
  "getPeerAddr a peerAddr =
     co_bind (on_fd a SysGetpeername) (\<lambda>r.
       if s_ret r \<noteq> 0 then co_fail (FromErrno (s_errno r)) (False, peerAddr)
       else Ret (True, s_addr r))"

subsection \<open>Timers\<close>

definition MAX_WAIT_NANOSECONDS :: int where "MAX_WAIT_NANOSECONDS = 999999999"

definition AsyncTimer_create :: "('j, nat option) task" where
  "AsyncTimer_create =
     co_bind (co_call SysTimerfdCreate) (\<lambda>timerFD.
     co_bind (registerFD (s_ret timerFD)) (\<lambda>timerAFD.
     co_then (attachReadonly timerAFD) (Ret timerAFD)))"

definition AsyncTimer_wait :: "nat \<Rightarrow> int \<Rightarrow> int \<Rightarrow> ('j, bool) task" where
  "AsyncTimer_wait a wsec wnsec =
     (if wsec < 0 then co_fail errc_invalid_argument False
      else if wnsec < 0 then co_fail errc_invalid_argument False
      else if wnsec > MAX_WAIT_NANOSECONDS then co_fail errc_invalid_argument False
      else co_bind (on_fd a (\<lambda>fd. SysTimerfdSettime fd wsec wnsec)) (\<lambda>r.
        if s_ret r = -1 then co_fail (FromErrno (s_errno r)) False
        else co_bind (ReadOp a 8) (\<lambda>numReadBytes. Ret (s_ret numReadBytes = 8))))"

subsection \<open>What they leave alone\<close>

lemma keeps_sockets [keeps]:
  assumes "io_safe I"
  shows "co_keeps I (ConnectingSocket_connect X addr)" "co_keeps I (setupListener port)"
    "co_keeps I (ListeningSocket_accept a)" "co_keeps I (getPeerAddr a addr)"
    "co_keeps I AsyncTimer_create" "co_keeps I (AsyncTimer_wait a secs nsecs)"
  unfolding ConnectingSocket_connect_def setupListener_def ListeningSocket_accept_def
    getPeerAddr_def AsyncTimer_create_def AsyncTimer_wait_def watchRead_def
  by (intro keeps assms io_safe_blind)+

end
