(* ===== verification/AsyncCommand.thy ===== *)
theory AsyncCommand
  imports AsyncSocket
begin

text \<open>
  \<open>AsyncCommand\<close> (\<open>src/async_command.cc\<close>): a child process with pipes to its standard input and
  output, waited for through a process descriptor. \<open>fork\<close> returns in both processes; the child's
  side is \<open>execute_child\<close>, reached when its answer is 0.
\<close>

subsection \<open>The command line\<close>

text \<open>\<open>istream_iterator<std::string>\<close> over the command: its blank-delimited words.\<close>

function istream_words :: "string \<Rightarrow> string list" where
  "istream_words s = (case dropWhile is_blank s of
     [] \<Rightarrow> []
   | c # t \<Rightarrow> (c # takeWhile (\<lambda>c. \<not> is_blank c) t) # istream_words (dropWhile (\<lambda>c. \<not> is_blank c) t))"
  by pat_completeness auto
termination
proof (relation "measure length")
  fix s :: string and c t
  assume "dropWhile is_blank s = c # t"
  then have "length (c # t) \<le> length s" using length_dropWhile_le [of is_blank s] by simp
  then show "(dropWhile (\<lambda>c. \<not> is_blank c) t, s) \<in> measure length"
    using length_dropWhile_le [of "\<lambda>c. \<not> is_blank c" t] by simp
qed simp

declare istream_words.simps [simp del]

subsection \<open>Starting a command\<close>

primrec close_all :: "int list \<Rightarrow> ('j, unit) task" where
  "close_all [] = Ret ()"
| "close_all (fd # fds) = co_bind (co_call (SysClose fd)) (\<lambda>_. close_all fds)"

text \<open>\<open>errno\<close> after further calls: a failing one overwrites it.\<close>

definition errno_after :: "int \<Rightarrow> sysret list \<Rightarrow> int" where
  "errno_after e rs = foldl (\<lambda>e r. if s_ret r = -1 then s_errno r else e) e rs"

definition set_command :: "nat option \<Rightarrow> (afd \<Rightarrow> afd) \<Rightarrow> ('j, unit) task" where
  "set_command tPac f = (case tPac of
     None \<Rightarrow> Halt (Trapped NullPointer)
   | Some a \<Rightarrow> co_update (update_afd a f))"

definition execute_parent :: "int \<Rightarrow> int \<Rightarrow> int \<Rightarrow> int \<Rightarrow> int \<Rightarrow> ('j, nat option) task" where
  "execute_parent forkRetVal CHILD_READ CHILD_WRITE PARENT_READ PARENT_WRITE =
     co_bind (co_call (SysPidfdOpen forkRetVal)) (\<lambda>childWaitFD.
       if s_ret childWaitFD = -1 then
         co_then (close_all [CHILD_READ, CHILD_WRITE, PARENT_READ, PARENT_WRITE])
           (co_then (co_call (SysKillSigkill forkRetVal))
             (co_fail (FromErrno (s_errno childWaitFD)) None))
       else
         co_bind (or_exit (registerFD (s_ret childWaitFD))) (\<lambda>tPac.
         co_then (attach tPac)
         (co_then (set_command tPac (\<lambda>a. a\<lparr>mProcessId := forkRetVal\<rparr>))
         (co_bind (or_exit (registerFD PARENT_READ)) (\<lambda>tOut.
         co_then (set_command tPac (\<lambda>a. a\<lparr>mStdOut := tOut\<rparr>))
         (co_then (attachReadonly tOut)
         (co_bind (or_exit (registerFD PARENT_WRITE)) (\<lambda>tIn.
         co_then (set_command tPac (\<lambda>a. a\<lparr>mStdIn := tIn\<rparr>))
         (co_then (attachWriteOnly tIn)
         (co_then (close_all [CHILD_READ, CHILD_WRITE]) (Ret tPac)))))))))))"

text \<open>\<open>execvp\<close> returns only when it fails; the process then ends with its \<open>errno\<close>.\<close>

definition execute_child :: "string \<Rightarrow> int \<Rightarrow> int \<Rightarrow> int \<Rightarrow> int \<Rightarrow> ('j, nat option) task" where
  "execute_child cmd CHILD_READ CHILD_WRITE PARENT_READ PARENT_WRITE =
     co_then (close_all [PARENT_WRITE, PARENT_READ])
     (co_then (co_call (SysDup2 CHILD_READ 0))
     (co_then (close_all [CHILD_READ])
     (co_then (co_call (SysDup2 CHILD_WRITE 1))
     (co_then (close_all [CHILD_WRITE])
     (co_bind (co_call (SysExecvp (istream_words cmd))) (\<lambda>r.
        if s_ret r = -1 then Halt (Exited (s_errno r)) else Ret None))))))"

definition AsyncCommand_execute :: "string \<Rightarrow> ('j, nat option) task" where
  "AsyncCommand_execute cmd =
     co_bind (co_call SysPipe) (\<lambda>parentToChildPipe.
       if s_ret parentToChildPipe = -1
       then co_fail (FromErrno (s_errno parentToChildPipe)) None
       else case s_fds parentToChildPipe of (CHILD_READ, PARENT_WRITE) \<Rightarrow>
         co_bind (co_call SysPipe) (\<lambda>childToParentPipe.
           if s_ret childToParentPipe = -1 then
             co_bind (co_call (SysClose PARENT_WRITE)) (\<lambda>c1.
             co_bind (co_call (SysClose CHILD_READ)) (\<lambda>c0.
               co_fail (FromErrno (errno_after (s_errno childToParentPipe) [c1, c0])) None))
           else case s_fds childToParentPipe of (PARENT_READ, CHILD_WRITE) \<Rightarrow>
             co_bind (co_call SysFork) (\<lambda>forkRetVal.
               if s_ret forkRetVal = -1 then
                 co_then (close_all [CHILD_READ, CHILD_WRITE, PARENT_READ, PARENT_WRITE])
                   (co_fail (FromErrno (s_errno forkRetVal)) None)
               else if s_ret forkRetVal > 0 then
                 execute_parent (s_ret forkRetVal) CHILD_READ CHILD_WRITE PARENT_READ PARENT_WRITE
               else if s_ret forkRetVal = 0 then
                 execute_child cmd CHILD_READ CHILD_WRITE PARENT_READ PARENT_WRITE
               else Ret None)))"

subsection \<open>Using and ending it\<close>

definition std_out_of :: "nat \<Rightarrow> 'j process \<Rightarrow> nat option" where
  "std_out_of a s = (case get_afd s a of None \<Rightarrow> None | Some x \<Rightarrow> mStdOut x)"

definition std_in_of :: "nat \<Rightarrow> 'j process \<Rightarrow> nat option" where
  "std_in_of a s = (case get_afd s a of None \<Rightarrow> None | Some x \<Rightarrow> mStdIn x)"

definition getPid :: "nat \<Rightarrow> 'j process \<Rightarrow> int" where
  "getPid a s = (case get_afd s a of None \<Rightarrow> -1 | Some x \<Rightarrow> mProcessId x)"

definition readStdOut :: "nat \<Rightarrow> nat \<Rightarrow> ('j, int \<times> byte list) task" where
  "readStdOut a len = co_bind (io_of (std_out_of a)) (\<lambda>mStdOut. case mStdOut of
     None \<Rightarrow> Halt (Trapped NullPointer)
   | Some fd \<Rightarrow> asyncRead fd len)"

definition writeStdIn :: "nat \<Rightarrow> byte list \<Rightarrow> ('j, int) task" where
  "writeStdIn a buffer = co_bind (io_of (std_in_of a)) (\<lambda>mStdIn. case mStdIn of
     None \<Rightarrow> Halt (Trapped NullPointer)
   | Some fd \<Rightarrow> asyncWrite fd buffer)"

definition closeStdIn :: "nat \<Rightarrow> ('j, bool) task" where
  "closeStdIn a = co_bind (io_of (std_in_of a)) (\<lambda>mStdIn.
     co_bind (closeAFD mStdIn) (\<lambda>mRet.
       if mRet then co_then (co_update (update_afd a (\<lambda>x. x\<lparr>mStdIn := None\<rparr>))) (Ret mRet)
       else Ret mRet))"

definition closeStdOut :: "nat \<Rightarrow> ('j, bool) task" where
  "closeStdOut a = co_bind (io_of (std_out_of a)) (\<lambda>mStdOut.
     co_bind (closeAFD mStdOut) (\<lambda>mRet.
       if mRet then co_then (co_update (update_afd a (\<lambda>x. x\<lparr>mStdOut := None\<rparr>))) (Ret mRet)
       else Ret mRet))"

text \<open>The specialisation of \<open>IOContext::closeAFD\<close> for commands.\<close>

definition closeAFD_AsyncCommand :: "nat \<Rightarrow> ('j, bool) task" where
  "closeAFD_AsyncCommand a =
     co_bind (io_of (std_in_of a)) (\<lambda>mStdIn.
     co_bind (if mStdIn \<noteq> None then closeStdIn a else Ret True) (\<lambda>inClosed.
       if \<not> inClosed then Ret False
       else co_bind (io_of (std_out_of a)) (\<lambda>mStdOut.
         co_bind (if mStdOut \<noteq> None then closeStdOut a else Ret True) (\<lambda>outClosed.
           if \<not> outClosed then Ret False
           else co_then (co_update (update_afd a (\<lambda>x. x\<lparr>mProcessId := -1\<rparr>)))
             (closeAFD (Some a))))))"

definition waitTermination :: "nat \<Rightarrow> ('j, bool) task" where
  "waitTermination pac =
     co_bind (io_of (getPid pac)) (\<lambda>tPid.
     co_bind (WaitpidOperation pac) (\<lambda>r.
       if tPid = s_ret r then closeAFD_AsyncCommand pac else Ret False))"

subsection \<open>What they leave alone\<close>

lemma keeps_close_all [keeps]: "co_keeps I (close_all fds)"
  by (induction fds) (auto intro: keeps)

lemma keeps_set_command [keeps]:
  "io_safe I \<Longrightarrow> (\<And>a. mFD (f a) = mFD a \<and> mPendigOps (f a) = mPendigOps a) \<Longrightarrow>
   co_keeps I (set_command a f)"
  unfolding set_command_def by (intro keeps)

lemma keeps_execute [keeps]: "io_safe I \<Longrightarrow> co_keeps I (AsyncCommand_execute cmd)"
  unfolding AsyncCommand_execute_def execute_parent_def execute_child_def by (intro keeps; simp)

lemma keeps_std_io [keeps]:
  assumes "io_safe I"
  shows "co_keeps I (readStdOut a n)" "co_keeps I (writeStdIn a buf)"
    "co_keeps I (closeStdIn a)" "co_keeps I (closeStdOut a)"
  unfolding readStdOut_def writeStdIn_def closeStdIn_def closeStdOut_def
  by (intro keeps assms io_safe_blind; simp)+

lemma keeps_waitTermination [keeps]: "io_safe I \<Longrightarrow> co_keeps I (waitTermination a)"
  unfolding waitTermination_def closeAFD_AsyncCommand_def by (intro keeps io_safe_blind; simp)

end
