(* ===== verification/Ownership.thy ===== *)
theory Ownership
  imports AsyncCommand
begin

unbundle bit_operations_syntax

text \<open>
  Whom a descriptor object belongs to. A coroutine owns the objects it creates and those it is given,
  and nobody else closes, rewires or unsubscribes them. \<open>owp\<close> is the weakest precondition of a
  coroutine under that discipline: it touches only what it owns, it suspends only on an object of its
  own that is managed and subscribed, and while it is suspended the others leave its objects alone.
  The kernel is relied on for one thing: it does not hand out a descriptor that is open.
\<close>

subsection \<open>Objects between two states\<close>

abbreviation fds :: "'j process \<Rightarrow> (int, nat) smap" where
  "fds s \<equiv> mManagedFD (mIoContext s)"

abbreviation addresses :: "'j process \<Rightarrow> nat" where
  "addresses s \<equiv> next_address (mIoContext s)"

abbreviation wf_io :: "'j process \<Rightarrow> bool" where
  "wf_io s \<equiv> io_wf (mIoContext s)"

definition managed :: "'j process \<Rightarrow> nat \<Rightarrow> bool" where
  "managed s a \<longleftrightarrow> (\<exists>x. get_afd s a = Some x \<and> smap_find (fds s) (mFD x) = Some a)"

text \<open>What an operation may not change on an object, and what others may not either.\<close>

definition wiring :: "afd \<Rightarrow> int \<times> nat option \<times> nat option" where
  "wiring x = (mFD x, mStdIn x, mStdOut x)"

definition subscription :: "afd \<Rightarrow> (int \<times> nat option \<times> nat option) \<times> u32" where
  "subscription x = (wiring x, mNextIOState x)"

definition stays :: "(afd \<Rightarrow> 'b) \<Rightarrow> nat \<Rightarrow> 'j process \<Rightarrow> 'j process \<Rightarrow> bool" where
  "stays f a s t \<longleftrightarrow> (\<forall>x. get_afd s a = Some x \<longrightarrow> (\<exists>y. get_afd t a = Some y \<and> f y = f x)) \<and>
     (managed s a \<longrightarrow> managed t a)"

lemma stays_refl [simp]: "stays f a s s"
  by (simp add: stays_def)

lemma stays_trans: "stays f a s t \<Longrightarrow> stays f a t u \<Longrightarrow> stays f a s u"
  unfolding stays_def by metis

lemma stays_managed: "stays f a s t \<Longrightarrow> managed s a \<Longrightarrow> managed t a"
  by (simp add: stays_def)

lemma stays_wiring: "stays subscription a s t \<Longrightarrow> stays wiring a s t"
  unfolding stays_def subscription_def by fastforce

lemma stays_context: "mIoContext t = mIoContext s \<Longrightarrow> stays f a s t"
  by (simp add: stays_def managed_def get_afd_def)

lemma stays_update:
  assumes "\<And>x. mFD (g x) = mFD x" and "b = a \<Longrightarrow> (\<And>x. f (g x) = f x)"
  shows "stays f b s (update_afd a g s)"
  using assms by (auto simp: stays_def managed_def split: if_splits)

lemma managed_update: "(\<And>x. mFD (g x) = mFD x) \<Longrightarrow> managed s b \<Longrightarrow> managed (update_afd a g s) b"
  by (auto simp: managed_def)

lemma stays_new:
  assumes "wf_io s" and "b < addresses s" and "smap_find (fds s) fd = None"
  shows "stays f b s (new_afd fd s)"
proof -
  have "fd' \<noteq> fd" if "smap_find (fds s) fd' = Some b" for fd' using assms(3) that by auto
  with assms(2) show ?thesis
    by (auto simp: stays_def managed_def new_afd_def Let_def get_afd_def smap_find_put)
qed

lemma managed_new: "managed (new_afd fd s) (addresses s)"
  by (simp add: managed_def new_afd_def Let_def get_afd_def afd_new_def smap_find_put)

lemma stays_drop:
  assumes "wf_io s" and "smap_find (fds s) fd = Some a" and "b \<noteq> a"
  shows "stays f b s (drop_managed a fd s)"
proof -
  have "fd' \<noteq> fd" if "smap_find (fds s) fd' = Some b" for fd' using assms(2,3) that by auto
  with assms(3) show ?thesis
    by (auto simp: stays_def managed_def drop_managed_def Let_def get_afd_def update_afd_def smap_find_erase)
qed

subsection \<open>The kernel\<close>

text \<open>
  An answer is plausible when the descriptors it opens are different from each other, from those
  that have been opened and not closed since the coroutine was last resumed, \<open>P\<close>, and from the
  managed ones; and when \<open>fcntl\<close> fails on a negative number.
\<close>

definition plausible :: "int set \<Rightarrow> 'j process \<Rightarrow> syscall \<times> sysret \<Rightarrow> bool" where
  "plausible P s ev \<longleftrightarrow> distinct (opened_by ev) \<and>
     (\<forall>fd \<in> set (opened_by ev). fd \<notin> P \<and> smap_find (fds s) fd = None) \<and>
     (\<forall>fd. fst ev = SysFcntlGetFl fd \<longrightarrow> fd < 0 \<longrightarrow> s_ret (snd ev) = -1)"

definition loose :: "int set \<Rightarrow> syscall \<times> sysret \<Rightarrow> int set" where
  "loose P ev = (P \<union> set (opened_by ev)) - set (closed_by ev)"

definition unmanaged :: "int set \<Rightarrow> 'j process \<Rightarrow> int set" where
  "unmanaged P s = {fd \<in> P. smap_find (fds s) fd = None}"

subsection \<open>Steps\<close>

definition own_step :: "nat set \<Rightarrow> 'j process \<Rightarrow> 'j process \<Rightarrow> bool" where
  "own_step W s t \<longleftrightarrow> wf_io t \<and> addresses s \<le> addresses t \<and>
     (\<forall>b < addresses s. b \<notin> W \<longrightarrow> stays subscription b s t)"

definition others_step :: "nat set \<Rightarrow> 'j process \<Rightarrow> 'j process \<Rightarrow> bool" where
  "others_step W s t \<longleftrightarrow> wf_io t \<and> addresses s \<le> addresses t \<and> (\<forall>b \<in> W. stays subscription b s t)"

definition waits_on :: "nat \<Rightarrow> 'j process \<Rightarrow> bool" where
  "waits_on a s \<longleftrightarrow> managed s a \<and>
     (\<exists>x. get_afd s a = Some x \<and> mNextIOState x AND (EPOLLIN OR EPOLLOUT) \<noteq> 0)"

definition new_addresses :: "'j process \<Rightarrow> 'j process \<Rightarrow> nat set" where
  "new_addresses s t = {addresses s ..< addresses t}"

primrec owp ::
  "('j process, 'a) co \<Rightarrow> ('a \<Rightarrow> nat set \<Rightarrow> int set \<Rightarrow> 'j process \<Rightarrow> bool) \<Rightarrow>
   nat set \<Rightarrow> int set \<Rightarrow> 'j process \<Rightarrow> bool" where
  "owp (Ret a) Q W P s = Q a W P s"
| "owp (Halt h) Q W P s = True"
| "owp (Bubble e c) Q W P s = owp c Q W P s"
| "owp (Act u k) Q W P s = (own_step W s (u s) \<and>
     owp (k s) Q (W \<union> new_addresses s (u s)) (unmanaged P (u s)) (u s))"
| "owp (Call q k) Q W P s = (\<forall>r. plausible P s (q, r) \<longrightarrow> owp (k r) Q W (loose P (q, r)) s)"
| "owp (Suspend a c) Q W P s = (a \<in> W \<and> waits_on a s \<and> (\<forall>t. others_step W s t \<longrightarrow> owp c Q W {} t))"

lemma owp_bind [simp]: "owp (co_bind c f) Q W P s = owp c (\<lambda>a. owp (f a) Q) W P s"
  by (induction c arbitrary: W P s) auto

lemma owp_mono:
  "owp c Q W P s \<Longrightarrow> (\<And>a W' P' t. Q a W' P' t \<Longrightarrow> Q' a W' P' t) \<Longrightarrow> owp c Q' W P s"
  by (induction c arbitrary: W P s) auto

lemma owp_with_errc:
  "owp c (\<lambda>a W P s. \<forall>e'. Q (a, e') W P s) W P s \<Longrightarrow> owp (with_errc c e) Q W P s"
  by (induction c arbitrary: W P s e) auto

lemma owp_or_exit: "owp c Q W P s \<Longrightarrow> owp (or_exit c) Q W P s"
  by (induction c arbitrary: W P s) auto

text \<open>What every coroutine keeps of its own books.\<close>

definition ready :: "nat set \<Rightarrow> int set \<Rightarrow> 'j process \<Rightarrow> bool" where
  "ready W P s \<longleftrightarrow> wf_io s \<and> W \<subseteq> {..<addresses s} \<and> (\<forall>fd \<in> P. smap_find (fds s) fd = None)"

lemma ready_act: "ready W P s \<Longrightarrow> own_step W s t \<Longrightarrow> ready (W \<union> new_addresses s t) (unmanaged P t) t"
  by (auto simp: ready_def own_step_def new_addresses_def unmanaged_def)

lemma ready_call: "ready W P s \<Longrightarrow> plausible P s ev \<Longrightarrow> ready W (loose P ev) s"
  by (auto simp: ready_def plausible_def loose_def)

lemma ready_resumed: "ready W P s \<Longrightarrow> others_step W s t \<Longrightarrow> ready W {} t"
  by (auto simp: ready_def others_step_def)

lemma owp_ready:
  assumes "owp c Q W P s" and "ready W P s"
  shows "owp c (\<lambda>a W' P' t. Q a W' P' t \<and> ready W' P' t \<and> W \<subseteq> W') W P s"
  using assms
proof (induction c arbitrary: W P s)
  case (Act u k)
  then have "owp (k s) (\<lambda>a W' P' t. Q a W' P' t \<and> ready W' P' t \<and> W \<union> new_addresses s (u s) \<subseteq> W')
      (W \<union> new_addresses s (u s)) (unmanaged P (u s)) (u s)"
    by (intro Act.IH) (simp_all add: ready_act)
  from owp_mono [OF this, where Q' = "\<lambda>a W' P' t. Q a W' P' t \<and> ready W' P' t \<and> W \<subseteq> W'"] Act.prems
  show ?case by simp
next
  case (Call q k)
  then show ?case by (auto simp: ready_call)
next
  case (Suspend a c)
  then show ?case by (auto simp: ready_resumed)
qed auto

subsection \<open>Rules\<close>

named_theorems owned \<open>what a coroutine uses and leaves alone\<close>

text \<open>
  \<open>triple K c L\<close> is a Hoare triple over \<open>owp\<close>. The assertion \<open>hold B s0 A\<close> says that the objects in \<open>A\<close> are
  the coroutine's and managed, and that those in \<open>B\<close>, its own as well, are wired as they were in \<open>s0\<close>.
\<close>

definition triple ::
  "(nat set \<Rightarrow> int set \<Rightarrow> 'j process \<Rightarrow> bool) \<Rightarrow> ('j, 'a) task \<Rightarrow>
   ('a \<Rightarrow> nat set \<Rightarrow> int set \<Rightarrow> 'j process \<Rightarrow> bool) \<Rightarrow> bool" where
  "triple K c L \<longleftrightarrow> (\<forall>W P s. ready W P s \<longrightarrow> K W P s \<longrightarrow> owp c L W P s)"

definition hold ::
  "nat set \<Rightarrow> 'j process \<Rightarrow> nat set \<Rightarrow> nat set \<Rightarrow> int set \<Rightarrow> 'j process \<Rightarrow> bool" where
  "hold B s0 A W P s \<longleftrightarrow> A \<union> B \<subseteq> W \<and> (\<forall>a \<in> A. managed s a) \<and> (\<forall>b \<in> B. stays wiring b s0 s)"

lemma tripleD: "triple K c L \<Longrightarrow> ready W P s \<Longrightarrow> K W P s \<Longrightarrow> owp c L W P s"
  by (simp add: triple_def)

lemma triple_bind:
  assumes "triple K c M" and "\<And>r. triple (M r) (f r) L"
  shows "triple K (co_bind c f) L"
  unfolding triple_def
proof (intro allI impI)
  fix W P s assume s: "ready W P s" "K W P s"
  from owp_ready [OF tripleD [OF assms(1) s] s(1)]
  show "owp (co_bind c f) L W P s"
    unfolding owp_bind by (rule owp_mono) (blast intro: tripleD [OF assms(2)])
qed

lemma triple_then: "triple K c (\<lambda>_. M) \<Longrightarrow> triple M d L \<Longrightarrow> triple K (co_then c d) L"
  unfolding co_then_def by (rule triple_bind)

lemma triple_conseq:
  "triple K c L \<Longrightarrow> (\<And>W P s. ready W P s \<Longrightarrow> K' W P s \<Longrightarrow> K W P s) \<Longrightarrow>
   (\<And>r W P s. L r W P s \<Longrightarrow> L' r W P s) \<Longrightarrow> triple K' c L'"
  unfolding triple_def by (blast intro: owp_mono)

lemma triple_pre: "triple K c L \<Longrightarrow> (\<And>W P s. ready W P s \<Longrightarrow> K' W P s \<Longrightarrow> K W P s) \<Longrightarrow> triple K' c L"
  unfolding triple_def by blast

text \<open>A coroutine does not lose what it owns.\<close>

lemma triple_owned:
  assumes "triple K c L"
  shows "triple (\<lambda>W P s. K W P s \<and> D \<subseteq> W) c (\<lambda>r W P s. L r W P s \<and> D \<subseteq> W)"
  unfolding triple_def
proof (intro allI impI)
  fix W P s assume s: "ready W P s" and h: "K W P s \<and> D \<subseteq> W"
  from owp_ready [OF tripleD [OF assms s]] s h
  have "owp c (\<lambda>a W' P' t. L a W' P' t \<and> ready W' P' t \<and> W \<subseteq> W') W P s" by blast
  then show "owp c (\<lambda>r W P s. L r W P s \<and> D \<subseteq> W) W P s" by (rule owp_mono) (use h in blast)
qed

lemma triple_Ret: "(\<And>W P s. ready W P s \<Longrightarrow> K W P s \<Longrightarrow> L a W P s) \<Longrightarrow> triple K (Ret a) L"
  by (simp add: triple_def)

lemma triple_Halt: "triple K (Halt h) L"
  by (simp add: triple_def)

lemma triple_fail: "triple K (Ret a) L \<Longrightarrow> triple K (co_fail e a) L"
  by (simp add: triple_def co_fail_def)

lemma triple_or_exit: "triple K c L \<Longrightarrow> triple K (or_exit c) L"
  by (simp add: triple_def owp_or_exit)

lemma triple_with_errc: "triple K c L \<Longrightarrow> triple K (with_errc c e) (\<lambda>p. L (fst p))"
  unfolding triple_def by (auto intro: owp_with_errc)

lemma triple_bind_errc:
  assumes "triple K c M" and "\<And>r e'. triple (M r) (f r e') L"
  shows "triple K (co_bind (with_errc c e) (\<lambda>(r, e'). f r e')) L"
  by (rule triple_bind [OF triple_with_errc [OF assms(1)]]) (auto simp: assms(2) split: prod.split)

lemma triple_if:
  "(b \<Longrightarrow> triple K c L) \<Longrightarrow> (\<not> b \<Longrightarrow> triple K d L) \<Longrightarrow> triple K (if b then c else d) L"
  by simp

text \<open>
  Reading the state and calling the system change no object; the loose descriptors follow the calls.
\<close>

lemma own_step_refl: "wf_io s \<Longrightarrow> own_step W s s"
  by (simp add: own_step_def)

lemma triple_get:
  assumes "\<And>s. triple (\<lambda>W P t. K W P t \<and> t = s) (f s) L"
  shows "triple K (co_bind co_get f) L"
  unfolding triple_def
proof (intro allI impI)
  fix W P s assume s: "ready W P s" "K W P s"
  then have "unmanaged P s = P" by (auto simp: ready_def unmanaged_def)
  moreover have "owp (f s) L W P s" by (rule tripleD [OF assms [of s] s(1)]) (simp add: s)
  ultimately show "owp (co_bind co_get f) L W P s"
    using s by (simp add: co_get_def own_step_refl new_addresses_def ready_def)
qed

lemma triple_io_of:
  assumes "\<And>v. triple (\<lambda>W P t. K W P t \<and> v = g t) (f v) L"
  shows "triple K (co_bind (io_of g) f) L"
  unfolding io_of_def co_bind_assoc co_bind.simps
  by (rule triple_get, rule triple_pre [OF assms]) auto

lemma triple_call:
  assumes "\<And>r. triple (\<lambda>W P s. \<exists>P0. K W P0 s \<and> plausible P0 s (q, r) \<and> P = loose P0 (q, r)) (f r) L"
  shows "triple K (co_bind (co_call q) f) L"
  unfolding triple_def co_call_def co_bind.simps owp.simps
  by (blast intro: tripleD [OF assms] ready_call)

lemma triple_act:
  assumes "\<And>W P s. ready W P s \<Longrightarrow> K W P s \<Longrightarrow> own_step W s (u s) \<and>
    L () (W \<union> new_addresses s (u s)) (unmanaged P (u s)) (u s)"
  shows "triple K (co_update u) L"
  using assms by (simp add: triple_def co_update_def)

subsection \<open>Using and closing objects\<close>

text \<open>
  \<open>uses A D c\<close>: \<open>c\<close> works on the managed objects \<open>A\<close> and may close those in \<open>D\<close>; what else its caller owns
  stays as it is.
\<close>

definition uses :: "nat set \<Rightarrow> nat set \<Rightarrow> ('j, 'a) task \<Rightarrow> bool" where
  "uses A D c \<longleftrightarrow> (\<forall>B s0. B \<inter> D = {} \<longrightarrow>
     triple (\<lambda>W P s. hold B s0 A W P s \<and> D \<subseteq> W) c (\<lambda>_ W P s. hold B s0 (A - D) W P s \<and> D \<subseteq> W))"

lemma usesI:
  "(\<And>B s0. B \<inter> D = {} \<Longrightarrow>
     triple (\<lambda>W P s. hold B s0 A W P s \<and> D \<subseteq> W) c (\<lambda>_ W P s. hold B s0 (A - D) W P s \<and> D \<subseteq> W)) \<Longrightarrow> uses A D c"
  by (simp add: uses_def)

lemma usesD:
  "uses A D c \<Longrightarrow> B \<inter> D = {} \<Longrightarrow>
     triple (\<lambda>W P s. hold B s0 A W P s \<and> D \<subseteq> W) c (\<lambda>_ W P s. hold B s0 (A - D) W P s \<and> D \<subseteq> W)"
  by (simp add: uses_def)

lemma hold_trans: "hold B s0 A W P s \<Longrightarrow> hold (B \<union> C) s A' W' P' t \<Longrightarrow> C \<subseteq> A \<Longrightarrow> hold B s0 (A' \<union> C) W' P' t"
  unfolding hold_def by (auto intro: stays_trans) (meson UnI2 stays_managed subsetD)

lemma hold_step:
  assumes "hold B s0 A W P s" and "A' \<subseteq> A" and "W \<subseteq> W'" and "\<And>b. b \<in> A' \<union> B \<Longrightarrow> stays wiring b s t"
  shows "hold B s0 A' W' P' t"
  using assms unfolding hold_def by (meson Un_iff stays_managed stays_trans subset_iff)

text \<open>Objects that a coroutine does not mention are left alone.\<close>

lemma uses_frame:
  assumes c: "uses A' D c" and sub: "A' \<subseteq> A"
  shows "uses A D c"
proof (rule usesI)
  fix B :: "nat set" and s0 :: "'a process" assume B: "B \<inter> D = {}"
  show "triple (\<lambda>W P s. hold B s0 A W P s \<and> D \<subseteq> W) c (\<lambda>_ W P s. hold B s0 (A - D) W P s \<and> D \<subseteq> W)"
    unfolding triple_def
  proof (intro allI impI)
    fix W P and s :: "'a process" assume s: "ready W P s" and h: "hold B s0 A W P s \<and> D \<subseteq> W"
    let ?B = "B \<union> (A - D)"
    have "hold ?B s A' W P s" using h sub by (auto simp: hold_def)
    moreover have "?B \<inter> D = {}" using B by auto
    ultimately have "owp c (\<lambda>_ W P t. hold ?B s (A' - D) W P t \<and> D \<subseteq> W) W P s"
      using tripleD [OF usesD [OF c] s] h by blast
    then show "owp c (\<lambda>_ W P t. hold B s0 (A - D) W P t \<and> D \<subseteq> W) W P s"
    proof (rule owp_mono)
      fix W' P' and t :: "'a process" assume t: "hold ?B s (A' - D) W' P' t \<and> D \<subseteq> W'"
      from h have "hold B s0 A W P s" by simp
      from hold_trans [OF this, of "A - D" "A' - D" W' P' t] t sub
      show "hold B s0 (A - D) W' P' t \<and> D \<subseteq> W'" by (auto simp: hold_def)
    qed
  qed
qed

lemma uses_triple:
  "uses A {} c \<Longrightarrow> triple (\<lambda>W P s. hold B s0 A W P s \<and> D \<subseteq> W) c (\<lambda>_ W P s. hold B s0 A W P s \<and> D \<subseteq> W)"
  using triple_owned [OF usesD [of A "{}" c B s0], of D] by simp

lemma uses_hold: "uses A {} c \<Longrightarrow> triple (hold B s0 A) c (\<lambda>_. hold B s0 A)"
  using uses_triple [of A c B s0 "{}"] by simp

lemma uses_bind [owned]:
  assumes "uses A {} c" and "\<And>r. uses A D (f r)"
  shows "uses A D (co_bind c f)"
  by (rule usesI, rule triple_bind [OF uses_triple [OF assms(1)]]) (rule usesD [OF assms(2)])

lemma uses_then_rest:
  assumes "uses A D c" and "\<And>r. uses (A - D) {} (f r)"
  shows "uses A D (co_bind c f)"
  by (rule usesI, rule triple_bind [OF usesD [OF assms(1)]]) (auto intro: uses_triple [OF assms(2)])

lemma uses_co_then [owned]: "uses A {} c \<Longrightarrow> uses A D d \<Longrightarrow> uses A D (co_then c d)"
  by (simp add: co_then_def uses_bind)

lemma uses_more:
  assumes "uses A D' c" and "D' \<subseteq> D"
  shows "uses A D c"
proof (rule usesI)
  fix B :: "nat set" and s0 :: "'a process" assume "B \<inter> D = {}"
  with assms(2) have "B \<inter> D' = {}" by auto
  show "triple (\<lambda>W P s. hold B s0 A W P s \<and> D \<subseteq> W) c (\<lambda>_ W P s. hold B s0 (A - D) W P s \<and> D \<subseteq> W)"
    by (rule triple_conseq [OF triple_owned [OF usesD [OF assms(1) \<open>B \<inter> D' = {}\<close>], where D = D]])
      (use assms(2) in \<open>auto simp: hold_def\<close>)
qed

lemma uses_Ret [owned]: "uses A D (Ret a)" "uses A D (Halt h)" "uses A D (co_fail e a)"
  by (auto simp: uses_def triple_def co_fail_def hold_def)

lemma uses_get [owned]: "uses A {} co_get"
  unfolding uses_def
  by (auto intro!: triple_get [where f = Ret, simplified] triple_Ret simp: hold_def)

lemma uses_call [owned]: "uses A {} (co_call q)"
  unfolding uses_def
  by (auto intro!: triple_call [where f = Ret, simplified] triple_Ret simp: hold_def)

lemma uses_io_of [owned]: "uses A {} (io_of f)"
  unfolding io_of_def by (intro owned)

lemma uses_on_fd [owned]: "uses A {} (on_fd a q)"
  unfolding on_fd_def by (intro owned)

lemma uses_or_exit [owned]: "uses A D c \<Longrightarrow> uses A D (or_exit c)"
  by (simp add: uses_def triple_or_exit)

lemma uses_with_errc [owned]: "uses A D c \<Longrightarrow> uses A D (with_errc c e)"
  unfolding uses_def triple_def by (auto intro!: owp_with_errc)

lemma uses_if [owned]:
  "(b \<Longrightarrow> uses A D c) \<Longrightarrow> (\<not> b \<Longrightarrow> uses A D d) \<Longrightarrow> uses A D (if b then c else d)"
  by simp

lemma uses_option [owned]:
  "(x = None \<Longrightarrow> uses A D c) \<Longrightarrow> (\<And>a. x = Some a \<Longrightarrow> uses A D (f a)) \<Longrightarrow>
   uses A D (case x of None \<Rightarrow> c | Some a \<Rightarrow> f a)"
  by (simp split: option.split)

lemma uses_prod [owned]:
  "(\<And>a b. x = (a, b) \<Longrightarrow> uses A D (f a b)) \<Longrightarrow> uses A D (case x of (a, b) \<Rightarrow> f a b)"
  by (simp split: prod.split)

lemma uses_prod_applied [owned]:
  "(\<And>a b. x = (a, b) \<Longrightarrow> uses A D (f a b y)) \<Longrightarrow> uses A D ((case x of (a, b) \<Rightarrow> f a b) y)"
  by (simp split: prod.split)

lemma uses_let [owned]: "(\<And>y. y = x \<Longrightarrow> uses A D (f y)) \<Longrightarrow> uses A D (let y = x in f y)"
  by simp

text \<open>Updates of the replicated state, and of what is no part of an object's wiring.\<close>

lemma uses_update_app:
  assumes "\<And>s. mIoContext (u s) = mIoContext s"
  shows "uses A {} (co_update u)"
  unfolding uses_def
proof (intro allI impI triple_act)
  fix B W :: "nat set" and s0 s :: "'a process" and P
  assume "ready W P s" and "hold B s0 A W P s \<and> {} \<subseteq> W"
  moreover have "stays f b s (u s)" for f :: "afd \<Rightarrow> 'b" and b by (rule stays_context [OF assms])
  ultimately show "own_step W s (u s) \<and>
      hold B s0 (A - {}) (W \<union> new_addresses s (u s)) (unmanaged P (u s)) (u s) \<and> {} \<subseteq> W \<union> new_addresses s (u s)"
    by (auto simp: own_step_def hold_def ready_def assms managed_def get_afd_def stays_def)
qed

lemma uses_update_own:
  assumes a: "a \<in> A" and f: "\<And>s x. wiring (f s x) = wiring x"
  shows "uses A {} (co_update (\<lambda>s. update_afd a (f s) s))"
  unfolding uses_def
proof (intro allI impI triple_act)
  fix B W :: "nat set" and s0 s :: "'a process" and P
  assume s: "ready W P s" and h: "hold B s0 A W P s \<and> {} \<subseteq> W"
  let ?t = "update_afd a (f s) s"
  have fd: "mFD (f s x) = mFD x" for x using f [of s x] by (simp add: wiring_def)
  have "stays wiring b s ?t" for b by (rule stays_update) (simp_all add: fd f)
  moreover have "stays subscription b s ?t" if "b \<notin> W" for b
    by (rule stays_update) (use fd that h a in \<open>auto simp: hold_def\<close>)
  moreover have "managed ?t b" if "managed s b" for b by (rule managed_update [OF fd that])
  ultimately show "own_step W s ?t \<and>
      hold B s0 (A - {}) (W \<union> new_addresses s ?t) (unmanaged P ?t) ?t \<and> {} \<subseteq> W \<union> new_addresses s ?t"
    using s h unfolding own_step_def hold_def ready_def
    by (auto simp: io_wf_update_afd fd intro: stays_trans)
qed

lemma uses_update_afd:
  "a \<in> A \<Longrightarrow> (\<And>x. wiring (f x) = wiring x) \<Longrightarrow> uses A {} (co_update (update_afd a f))"
  using uses_update_own [of a A "\<lambda>_. f"] by simp

end
