(* ===== verification/OwnedObjects.thy ===== *)
theory OwnedObjects
  imports Ownership
begin

unbundle bit_operations_syntax

text \<open>
  The operations, sockets, timers and commands under the ownership discipline: an operation suspends
  on a subscribed object of its coroutine, registering a descriptor gives the coroutine a new object,
  closing one takes it away, and nothing else of the coroutine's objects changes.
\<close>

subsection \<open>Operations\<close>

text \<open>The body of an operation only calls the system and reads the state.\<close>

primrec still :: "('s, 'a) co \<Rightarrow> bool" where
  "still (Ret a) = True"
| "still (Halt h) = True"
| "still (Bubble e c) = still c"
| "still (Act u k) = (\<forall>s. u s = s \<and> still (k s))"
| "still (Call q k) = (\<forall>r. still (k r))"
| "still (Suspend a c) = False"

lemma still_bind: "still c \<Longrightarrow> (\<And>a. still (f a)) \<Longrightarrow> still (co_bind c f)"
  by (induction c) auto

lemma still_basic:
  "still co_get" "still (co_call q)" "still (co_fail e a)" "still (io_of f)" "still (on_fd a p)" "still (raise_sigpipe r)"
  by (simp_all add: co_get_def co_call_def co_fail_def io_of_def on_fd_def raise_sigpipe_def still_bind)

lemma owp_still:
  assumes "still c" and "ready W P s" and "\<And>a P'. ready W P' s \<Longrightarrow> Q a W P' s"
  shows "owp c Q W P s"
  using assms(1,2)
proof (induction c arbitrary: P)
  case (Act u k)
  then have same: "u s = s" "still (k s)" and "unmanaged P s = P" by (auto simp: ready_def unmanaged_def)
  with Act show ?case by (simp add: own_step_refl new_addresses_def ready_def)
next
  case (Call q k)
  then show ?case by (auto simp: ready_call)
qed (auto simp: assms(3))

lemma uses_still:
  assumes "still c"
  shows "uses A {} c"
  unfolding uses_def triple_def using assms by (auto intro!: owp_still simp: hold_def)

lemma triple_still:
  assumes "still c" and "\<And>W P P' s. K W P s \<Longrightarrow> K W P' s"
  shows "triple K c (\<lambda>_. K)"
  unfolding triple_def using assms by (blast intro: owp_still)

definition subscribed :: "nat \<Rightarrow> 'j process \<Rightarrow> bool" where
  "subscribed a s \<longleftrightarrow> (\<exists>x. get_afd s a = Some x \<and> mNextIOState x AND (EPOLLIN OR EPOLLOUT) \<noteq> 0)"

lemma hold_others: "hold B s0 A W P s \<Longrightarrow> others_step W s t \<Longrightarrow> hold B s0 A W P' t"
  unfolding hold_def others_step_def by (blast intro: stays_trans stays_wiring stays_managed)

lemma uses_queue: "a \<in> A \<Longrightarrow> uses A {} (suspend a)"
  unfolding suspend_def addPendingOp_def
  by (rule uses_update_own) (simp_all add: wiring_def)

lemma uses_set_next_io [owned]: "a \<in> A \<Longrightarrow> uses A {} (set_next_io f a)"
  unfolding set_next_io_def by (rule uses_update_afd) (simp_all add: wiring_def)

text \<open>
  Suspending: the coroutine has just queued itself at an object of its own that is managed and
  subscribed, and finds its objects unchanged when it is resumed.
\<close>

lemma triple_suspend:
  assumes a: "a \<in> A" and c: "triple (hold B s0 A) c L"
  shows "triple (\<lambda>W P s. hold B s0 A W P s \<and> subscribed a s) (co_then (suspend a) (Suspend a c)) L"
  unfolding co_then_def
proof (rule triple_bind)
  show "triple (\<lambda>W P s. hold B s0 A W P s \<and> subscribed a s) (Suspend a c) L"
    unfolding triple_def owp.simps
  proof (intro allI impI conjI)
    fix W P s assume s: "ready W P s" "hold B s0 A W P s \<and> subscribed a s"
    with a show "a \<in> W" "waits_on a s" by (auto simp: hold_def waits_on_def subscribed_def)
    fix t assume t: "others_step W s t"
    with s have "hold B s0 A W {} t" by (blast intro: hold_others)
    then show "owp c L W {} t" by (rule tripleD [OF c ready_resumed [OF s(1) t]])
  qed
  have "triple (hold B s0 A) (suspend a) (\<lambda>_. hold B s0 A)" by (rule uses_hold [OF uses_queue [OF a]])
  moreover have "subscribed a (addPendingOp a h s)" if "subscribed a s" for s :: "'a process" and h
    using that by (auto simp: subscribed_def addPendingOp_def)
  ultimately show "triple (\<lambda>W P s. hold B s0 A W P s \<and> subscribed a s) (suspend a)
      (\<lambda>_ W P s. hold B s0 A W P s \<and> subscribed a s)"
    by (simp add: triple_def suspend_def co_update_def)
qed

text \<open>
  The body of an operation, with what it says of its result and the loose descriptors: \<open>accept\<close> is the
  one that opens a descriptor.
\<close>

definition asks :: "(bool \<Rightarrow> ('j, sysret) task) \<Rightarrow> (sysret \<Rightarrow> int set \<Rightarrow> bool) \<Rightarrow> bool" where
  "asks sc G \<longleftrightarrow> (\<forall>b W P s Q. ready W P s \<longrightarrow> (\<forall>r P'. ready W P' s \<longrightarrow> G r P' \<longrightarrow> Q r W P' s) \<longrightarrow> owp (sc b) Q W P s)"

lemma asks_still: "(\<And>b. still (sc b)) \<Longrightarrow> asks sc (\<lambda>_ _. True)"
  unfolding asks_def by (simp add: owp_still)

lemma asksD:
  "asks sc G \<Longrightarrow> ready W P s \<Longrightarrow> (\<And>r P'. ready W P' s \<Longrightarrow> G r P' \<Longrightarrow> Q r W P' s) \<Longrightarrow> owp (sc b) Q W P s"
  by (simp add: asks_def)

lemma triple_asks:
  assumes "asks sc G" and "\<And>W P P' s. K W P s \<Longrightarrow> K W P' s"
  shows "triple K (sc b) (\<lambda>r W P s. K W P s \<and> G r P)"
  unfolding triple_def
proof (intro allI impI)
  fix W P s assume "ready W P s" and "K W P s"
  then show "owp (sc b) (\<lambda>r W P s. K W P s \<and> G r P) W P s"
    by (intro asksD [OF assms(1)]) (auto intro: assms(2))
qed

lemma triple_resume:
  assumes a: "a \<in> A" and sc: "asks sc G" and multi: "m \<Longrightarrow> (\<And>r P. G r P)"
  shows "triple (hold B s0 A) (await_resume m a sc) (\<lambda>r W P s. hold B s0 A W P s \<and> G r P)"
  unfolding await_resume_def
proof (rule triple_bind [OF triple_asks [OF sc]])
  fix ret
  have "triple (\<lambda>W P s. hold B s0 A W P s \<and> G ret P) (co_then (suspend a) (Ret ret))
      (\<lambda>r W P s. hold B s0 A W P s \<and> G r P)" if m
    unfolding co_then_def
    by (rule triple_bind [OF triple_pre [OF uses_hold [OF uses_queue [OF a]]]])
      (auto intro!: triple_Ret multi [OF that])
  then show "triple (\<lambda>W P s. hold B s0 A W P s \<and> G ret P)
      (if m \<and> shouldWait ret then co_then (suspend a) (Ret ret)
       else if s_ret ret = -1 then co_fail (FromErrno (s_errno ret)) ret else Ret ret)
      (\<lambda>r W P s. hold B s0 A W P s \<and> G r P)"
    by (auto intro!: triple_fail triple_Ret)
qed (simp add: hold_def)

lemma triple_await:
  assumes a: "a \<in> A" and sc: "asks sc G" and multi: "m \<Longrightarrow> (\<And>r P. G r P)"
  shows "triple (\<lambda>W P s. hold B s0 A W P s \<and> subscribed a s) (await_suspend m a sc)
    (\<lambda>r W P s. hold B s0 A W P s \<and> G r P)"
  unfolding await_suspend_def
proof (rule triple_bind [OF triple_asks [OF sc]])
  fix ret
  show "triple (\<lambda>W P s. (hold B s0 A W P s \<and> subscribed a s) \<and> G ret P)
      (if shouldWait ret then co_then (suspend a) (Suspend a (await_resume m a sc))
       else if s_ret ret = -1 then co_fail (FromErrno (s_errno ret)) ret else Ret ret)
      (\<lambda>r W P s. hold B s0 A W P s \<and> G r P)"
    by (intro triple_if triple_fail triple_Ret triple_pre [OF triple_suspend [OF a triple_resume [OF a sc multi]]]) auto
qed (simp add: hold_def)

lemma triple_watch:
  assumes a: "a \<in> A" and bit: "\<And>st. f st AND (EPOLLIN OR EPOLLOUT) \<noteq> 0"
  shows "triple (hold B s0 A) (set_next_io f a) (\<lambda>_ W P s. hold B s0 A W P s \<and> subscribed a s)"
proof -
  have "triple (hold B s0 A) (set_next_io f a) (\<lambda>_. hold B s0 A)" by (rule uses_hold [OF uses_set_next_io [OF a]])
  moreover have "subscribed a (update_afd a (\<lambda>x. x\<lparr>mNextIOState := f (mNextIOState x)\<rparr>) s)"
    if "hold B s0 A W P s" for W P s
    using that a bit by (auto simp: subscribed_def hold_def managed_def)
  ultimately show ?thesis by (simp add: triple_def set_next_io_def co_update_def)
qed

lemma triple_unwatch:
  assumes a: "a \<in> A"
  shows "triple (\<lambda>W P s. hold B s0 A W P s \<and> G P) (set_next_io f a) (\<lambda>_ W P s. hold B s0 A W P s \<and> G P)"
proof -
  have "triple (hold B s0 A) (set_next_io f a) (\<lambda>_. hold B s0 A)" by (rule uses_hold [OF uses_set_next_io [OF a]])
  moreover have "unmanaged P (update_afd a g s) = P" if "ready W P s" for W P g and s :: "'a process"
    using that by (auto simp: unmanaged_def ready_def)
  ultimately show ?thesis by (simp add: triple_def set_next_io_def co_update_def)
qed

lemma triple_watched:
  assumes a: "a \<in> A" and sc: "asks sc G" and bit: "\<And>st. f st AND (EPOLLIN OR EPOLLOUT) \<noteq> 0"
    and multi: "m \<Longrightarrow> (\<And>r P. G r P)"
  shows "triple (hold B s0 A) (with_watch (set_next_io f) (set_next_io g) a (await_suspend m a sc))
    (\<lambda>r W P s. hold B s0 A W P s \<and> G r P)"
  unfolding with_watch_def co_then_def
proof (rule triple_bind [OF triple_watch [OF a bit]], rule triple_bind [OF triple_await [OF a sc multi]])
  show "triple (\<lambda>W P s. hold B s0 A W P s \<and> G r P) (co_bind (set_next_io g a) (\<lambda>_. Ret r))
      (\<lambda>r W P s. hold B s0 A W P s \<and> G r P)" for r
    by (rule triple_bind [OF triple_unwatch [OF a]], rule triple_Ret)
qed simp

lemma uses_watched:
  assumes "a \<in> A" and "\<And>b. still (sc b)" and "\<And>st. f st AND (EPOLLIN OR EPOLLOUT) \<noteq> 0"
  shows "uses A {} (with_watch (set_next_io f) (set_next_io g) a (await_suspend m a sc))"
  using triple_watched [OF assms(1) asks_still [OF assms(2)] assms(3), where g = g and m = m]
  by (simp add: uses_def)

lemma watch_bits:
  "(st OR EPOLLIN) AND (EPOLLIN OR EPOLLOUT) \<noteq> 0" "(st OR EPOLLOUT) AND (EPOLLIN OR EPOLLOUT) \<noteq> 0"
proof -
  have "bit ((st OR EPOLLIN) AND (EPOLLIN OR EPOLLOUT)) 0" "bit ((st OR EPOLLOUT) AND (EPOLLIN OR EPOLLOUT)) 2"
    by (simp_all add: bit_simps EPOLLIN_def EPOLLOUT_def)
  then show "(st OR EPOLLIN) AND (EPOLLIN OR EPOLLOUT) \<noteq> 0" "(st OR EPOLLOUT) AND (EPOLLIN OR EPOLLOUT) \<noteq> 0"
    by auto
qed

lemma uses_operations [owned]:
  assumes "a \<in> A"
  shows "uses A {} (AcceptOperation a)" "uses A {} (RecvOperation a n)" "uses A {} (SendOperation a buf)"
    "uses A {} (ReadOp a n)" "uses A {} (WriteOp a buf)" "uses A {} (WaitpidOperation a)"
    "uses A {} (ConnectOperation X a addr)"
  unfolding AcceptOperation_def RecvOperation_def SendOperation_def ReadOp_def WriteOp_def WaitpidOperation_def
    ConnectOperation_def watch_defs
  by (intro uses_watched assms watch_bits;
      simp add: AcceptOperation_syscall_def RecvOperation_syscall_def SendOperation_syscall_def ReadOp_syscall_def
        WriteOp_syscall_def WaitpidOperation_syscall_def ConnectOperation_syscall_def still_bind still_basic)+

lemma uses_read_loop [owned]:
  assumes "\<And>n. uses A {} (op n)"
  shows "uses A {} (read_loop op len acc)"
  using assms
proof (induction op len acc rule: read_loop.induct)
  case (1 op len acc)
  then show ?case
    by (subst read_loop.simps) (intro uses_bind uses_if uses_let uses_Ret, auto)
qed

lemma uses_write_loop [owned]:
  assumes "\<And>b. uses A {} (op b)"
  shows "uses A {} (write_loop op buf sent)"
  using assms
proof (induction op buf sent rule: write_loop.induct)
  case (1 op buf sent)
  then show ?case
    by (subst write_loop.simps) (intro uses_bind uses_if uses_let uses_Ret, auto)
qed

lemma uses_transfers [owned]:
  assumes "a \<in> A"
  shows "uses A {} (AsyncSocket_recv a n)" "uses A {} (AsyncSocket_send a buf)"
    "uses A {} (asyncRead a n)" "uses A {} (asyncWrite a buf)"
  unfolding AsyncSocket_recv_def AsyncSocket_send_def asyncRead_def asyncWrite_def
  by (intro owned assms)+

subsection \<open>Closing\<close>

lemma drop_step:
  assumes "ready W P s" and h: "hold B s0 A W P s" and a: "a \<in> W" "a \<notin> B"
    and fd: "smap_find (fds s) fd = Some a"
  shows "own_step W s (drop_managed a fd s)"
    and "hold B s0 (A - {a}) (W \<union> N) P' (drop_managed a fd s)"
proof -
  have wf: "wf_io s" using assms(1) by (simp add: ready_def)
  have stay: "stays wiring b s (drop_managed a fd s)" "stays subscription b s (drop_managed a fd s)" if "b \<noteq> a" for b
    by (rule stays_drop [OF wf fd that])+
  have "addresses (drop_managed a fd s) = addresses s" by (simp add: drop_managed_def Let_def)
  moreover have "stays subscription b s (drop_managed a fd s)" if "b \<notin> W" for b
    by (rule stay(2)) (use that a in auto)
  ultimately show "own_step W s (drop_managed a fd s)"
    using io_wf_drop_managed [OF wf fd] by (auto simp: own_step_def)
  show "hold B s0 (A - {a}) (W \<union> N) P' (drop_managed a fd s)"
  proof (rule hold_step [OF h])
    fix b assume "b \<in> A - {a} \<union> B"
    with a have "b \<noteq> a" by auto
    then show "stays wiring b s (drop_managed a fd s)" by (rule stay(1))
  qed auto
qed

lemma uses_closeAFD [owned]:
  assumes "set_option r \<subseteq> D"
  shows "uses A D (closeAFD r)"
proof (cases r)
  case None
  then show ?thesis by (simp add: closeAFD_def owned)
next
  case (Some a)
  have "uses A {a} (closeAFD (Some a) :: ('j, bool) task)"
    unfolding uses_def triple_def
  proof (intro allI impI)
    fix B W :: "nat set" and P and s0 s :: "'j process"
    assume B: "B \<inter> {a} = {}" and s: "ready W P s" and h: "hold B s0 A W P s \<and> {a} \<subseteq> W"
    have "own_step W s s" "new_addresses s s = {}" using s by (simp_all add: own_step_refl ready_def new_addresses_def)
    moreover have "hold B s0 (A - {a}) W P' s" for P' using h by (auto simp: hold_def)
    moreover have "own_step W s (drop_managed a fd s)" "hold B s0 (A - {a}) (W \<union> N) P' (drop_managed a fd s)"
      if "smap_find (fds s) fd = Some a" for fd N P'
      using drop_step [OF s _ _ _ that, of B s0 A] h B by auto
    ultimately show "owp (closeAFD (Some a)) (\<lambda>_ W P s. hold B s0 (A - {a}) W P s \<and> {a} \<subseteq> W) W P s"
      using h by (auto simp: closeAFD_def CloseOperation_eq io_of_def co_simps with_errc_bind split: option.split)
  qed
  from uses_more [OF this] Some assms show ?thesis by simp
qed

subsection \<open>Opening\<close>

text \<open>A new object belongs to the coroutine that registered it; it is none of those there were.\<close>

definition opens :: "nat set \<Rightarrow> ('j, nat option) task \<Rightarrow> bool" where
  "opens A c \<longleftrightarrow> (\<forall>B s0. triple (hold B s0 A) c
     (\<lambda>r W P s. hold B s0 (A \<union> set_option r) W P s \<and> set_option r \<inter> (A \<union> B) = {}))"

lemma uses_opens:
  assumes c: "opens A c" and none: "uses A {} (f None)"
    and some: "\<And>a. a \<notin> A \<Longrightarrow> uses (insert a A) {a} (f (Some a))"
  shows "uses A {} (co_bind c f)"
proof (rule usesI)
  fix B :: "nat set" and s0 :: "'a process"
  have "triple (hold B s0 A) (co_bind c f) (\<lambda>_. hold B s0 A)"
  proof (rule triple_bind)
    show "triple (hold B s0 A) c (\<lambda>r W P s. hold B s0 (A \<union> set_option r) W P s \<and> set_option r \<inter> (A \<union> B) = {})"
      using c by (simp add: opens_def)
    show "triple (\<lambda>W P s. hold B s0 (A \<union> set_option r) W P s \<and> set_option r \<inter> (A \<union> B) = {}) (f r) (\<lambda>_. hold B s0 A)" for r
    proof (cases r)
      case None
      with usesD [OF none, of B s0] show ?thesis by simp
    next
      case (Some a)
      show ?thesis
      proof (cases "a \<in> A \<union> B")
        case True
        with Some show ?thesis by (simp add: triple_def)
      next
        case False
        then have "triple (\<lambda>W P s. hold B s0 (insert a A) W P s \<and> {a} \<subseteq> W) (f (Some a))
            (\<lambda>_ W P s. hold B s0 (insert a A - {a}) W P s \<and> {a} \<subseteq> W)"
          by (intro usesD [OF some]) auto
        then show ?thesis
          unfolding Some by (rule triple_conseq) (use False in \<open>auto simp: hold_def\<close>)
      qed
    qed
  qed
  then show "triple (\<lambda>W P s. hold B s0 A W P s \<and> {} \<subseteq> W) (co_bind c f)
      (\<lambda>_ W P s. hold B s0 (A - {}) W P s \<and> {} \<subseteq> W)" by simp
qed

text \<open>Calls that neither open nor close a descriptor.\<close>

lemma triple_call_plain:
  assumes "\<And>r. opened_by (q, r) = [] \<and> closed_by (q, r) = []"
    and "\<And>r. triple (\<lambda>W P s. K W P s \<and> plausible P s (q, r)) (f r) L"
  shows "triple K (co_bind (co_call q) f) L"
proof (rule triple_call, rule triple_pre [OF assms(2)])
  fix r W P s assume "\<exists>P0. K W P0 s \<and> plausible P0 s (q, r) \<and> P = loose P0 (q, r)"
  with assms(1) [of r] show "K W P s \<and> plausible P s (q, r)" by (auto simp: loose_def)
qed

lemma new_step:
  assumes "ready W P s" and h: "hold B s0 A W P s" and fd: "fd \<in> P" "fd \<notin> F" "F \<subseteq> P"
  shows "own_step W s (new_afd fd s)"
    and "hold B s0 (insert (addresses s) A) (W \<union> new_addresses s (new_afd fd s)) P' (new_afd fd s)"
    and "addresses s \<notin> A \<union> B" and "F \<subseteq> unmanaged P (new_afd fd s)"
proof -
  have wf: "wf_io s" "W \<subseteq> {..<addresses s}" "smap_find (fds s) fd = None" "\<forall>fd \<in> P. smap_find (fds s) fd = None"
    using assms(1) fd(1) by (auto simp: ready_def)
  have stay: "stays wiring b s (new_afd fd s)" "stays subscription b s (new_afd fd s)" if "b < addresses s" for b
    by (rule stays_new [OF wf(1) that wf(3)])+
  have succ: "addresses (new_afd fd s) = Suc (addresses s)" by (simp add: new_afd_def Let_def)
  show "own_step W s (new_afd fd s)"
    using stay(2) io_wf_new_afd [OF wf(1)] succ by (auto simp: own_step_def)
  have old: "b < addresses s" if "b \<in> A \<union> B" for b using h wf(2) that by (auto simp: hold_def)
  then show "addresses s \<notin> A \<union> B" by blast
  show "hold B s0 (insert (addresses s) A) (W \<union> new_addresses s (new_afd fd s)) P' (new_afd fd s)"
  proof -
    have "hold B s0 A (W \<union> new_addresses s (new_afd fd s)) P' (new_afd fd s)"
      by (rule hold_step [OF h]) (use stay(1) old in auto)
    moreover have "addresses s \<in> new_addresses s (new_afd fd s)" by (simp add: new_addresses_def succ)
    ultimately show ?thesis using managed_new [of fd s] by (auto simp: hold_def)
  qed
  show "F \<subseteq> unmanaged P (new_afd fd s)"
    using fd wf(4) by (auto simp: unmanaged_def new_afd_def Let_def smap_find_put)
qed

lemma triple_register:
  "triple (\<lambda>W P s. hold B s0 A W P s \<and> (0 \<le> fd \<longrightarrow> fd \<in> P \<and> fd \<notin> F) \<and> F \<subseteq> P) (registerFD fd)
     (\<lambda>r W P s. hold B s0 (A \<union> set_option r) W P s \<and> set_option r \<inter> (A \<union> B) = {} \<and> F \<subseteq> P)"
  (is "triple ?K _ ?L")
proof -
  have create: "triple (\<lambda>W P s. hold B s0 A W P s \<and> fd \<in> P \<and> F \<subseteq> P \<and> fd \<notin> F)
      (co_bind (io_of (\<lambda>s. next_address (mIoContext s))) (\<lambda>a. co_then (co_update (new_afd fd)) (Ret (Some a)))) ?L"
    unfolding co_then_def
  proof (rule triple_io_of, rule triple_bind [OF triple_act])
    fix a W P and s :: "'a process"
    assume s: "ready W P s" "(hold B s0 A W P s \<and> fd \<in> P \<and> F \<subseteq> P \<and> fd \<notin> F) \<and> a = addresses s"
    then show "own_step W s (new_afd fd s) \<and> (hold B s0 (insert a A) (W \<union> new_addresses s (new_afd fd s))
        (unmanaged P (new_afd fd s)) (new_afd fd s) \<and> a \<notin> A \<union> B \<and> F \<subseteq> unmanaged P (new_afd fd s))"
      using new_step [OF s(1), of B s0 A fd F] by auto
  next
    fix a show "triple (\<lambda>W P s. hold B s0 (insert a A) W P s \<and> a \<notin> A \<union> B \<and> F \<subseteq> P) (Ret (Some a)) ?L"
      by (rule triple_Ret) auto
  qed
  have none: "triple ?K (Ret None) ?L" by (rule triple_Ret) simp
  show ?thesis
    unfolding registerFD_def
  proof (rule triple_call_plain)
    fix flags
    let ?K1 = "\<lambda>W P s. ?K W P s \<and> plausible P s (SysFcntlGetFl fd, flags)"
    show "triple ?K1 (if s_ret flags = -1 then co_fail (FromErrno (s_errno flags)) None
        else co_bind (co_call (SysFcntlSetFlNonblock fd (s_ret flags))) (\<lambda>r.
          if s_ret r = -1 then co_fail (FromErrno (s_errno r)) None
          else co_bind (io_of (\<lambda>s. next_address (mIoContext s))) (\<lambda>a. co_then (co_update (new_afd fd)) (Ret (Some a))))) ?L"
      by (intro triple_if triple_fail triple_call_plain triple_pre [OF create] triple_pre [OF none])
        (auto simp: plausible_def)
  qed simp
qed

lemma triple_created:
  assumes "triple K c (\<lambda>r W P s. hold B s0 (A \<union> set_option r) W P s \<and> set_option r \<inter> (A \<union> B) = {} \<and> F \<subseteq> P)"
    and "\<And>a. a \<notin> A \<union> B \<Longrightarrow> triple (\<lambda>W P s. hold B s0 (insert a A) W P s \<and> F \<subseteq> P) (f (Some a)) L"
    and "triple (\<lambda>W P s. hold B s0 A W P s \<and> F \<subseteq> P) (f None) L"
  shows "triple K (co_bind c f) L"
proof (rule triple_bind [OF assms(1)])
  show "triple (\<lambda>W P s. hold B s0 (A \<union> set_option r) W P s \<and> set_option r \<inter> (A \<union> B) = {} \<and> F \<subseteq> P) (f r) L" for r
    using assms(2,3) by (cases r; cases "the r \<in> A \<union> B") (auto simp: triple_def)
qed

lemma triple_registered:
  assumes "\<And>a. a \<notin> A \<union> B \<Longrightarrow> triple (hold B s0 (insert a A)) (f (Some a)) L" and "triple (hold B s0 A) (f None) L"
  shows "triple (\<lambda>W P s. hold B s0 A W P s \<and> (0 \<le> fd \<longrightarrow> fd \<in> P)) (co_bind (registerFD fd) f) L"
    and "triple (\<lambda>W P s. hold B s0 A W P s \<and> (0 \<le> fd \<longrightarrow> fd \<in> P)) (co_bind (or_exit (registerFD fd)) f) L"
  by (rule triple_created [OF triple_pre [OF triple_register [where F = "{}"]]]
      triple_created [OF triple_or_exit [OF triple_pre [OF triple_register [where F = "{}"]]]];
      use assms in \<open>simp add: triple_def\<close>)+

lemma uses_attach [owned]: "set_option r \<subseteq> A \<Longrightarrow> uses A {} (attach_with st r)"
  unfolding attach_with_def by (intro owned uses_update_afd) (auto simp: wiring_def)

text \<open>A call whose result is a new descriptor, unless it is negative.\<close>

lemma triple_open_call:
  assumes "\<And>r. opened_by (q, r) = (if s_ret r < 0 then [] else [s_ret r]) \<and> closed_by (q, r) = []"
    and "\<And>r. triple (\<lambda>W P s. hold B s0 A W P s \<and> (0 \<le> s_ret r \<longrightarrow> s_ret r \<in> P)) (f r) L"
  shows "triple (hold B s0 A) (co_bind (co_call q) f) L"
proof (rule triple_call, rule triple_pre [OF assms(2)])
  fix r W P s assume "\<exists>P0. hold B s0 A W P0 s \<and> plausible P0 s (q, r) \<and> P = loose P0 (q, r)"
  with assms(1) [of r] show "hold B s0 A W P s \<and> (0 \<le> s_ret r \<longrightarrow> s_ret r \<in> P)"
    by (auto simp: loose_def hold_def)
qed

subsection \<open>Sockets and timers\<close>

lemma uses_close_hold:
  "a \<notin> B \<Longrightarrow> a \<notin> A \<Longrightarrow> uses (insert a A) {a} c \<Longrightarrow> triple (hold B s0 (insert a A)) c (\<lambda>_. hold B s0 A)"
  by (rule triple_conseq [OF usesD [of "insert a A" "{a}" c B s0]]) (auto simp: hold_def)

lemma opensI:
  "(\<And>B s0. triple (hold B s0 A) c (\<lambda>r W P s. hold B s0 (A \<union> set_option r) W P s \<and> set_option r \<inter> (A \<union> B) = {})) \<Longrightarrow>
   opens A c"
  by (simp add: opens_def)

lemma opens_connect: "opens A (ConnectingSocket_connect X addr)"
proof (rule opensI)
  fix B :: "nat set" and s0 :: "'a process"
  let ?L = "\<lambda>r W P s. hold B s0 (A \<union> set_option r) W P s \<and> set_option r \<inter> (A \<union> B) = {}"
  have some: "triple (hold B s0 (insert a A)) (co_then (attachWriteOnly (Some a)) (
      co_bind (ConnectOperation X a addr) (\<lambda>r.
        if s_ret r = -1 then co_then (or_exit (closeAFD (Some a))) (Ret None) else Ret (Some a)))) ?L"
    if a: "a \<notin> A \<union> B" for a
    unfolding co_then_def attachWriteOnly_def
  proof (rule triple_bind [OF uses_hold], rule_tac [2] triple_bind [OF uses_hold])
    fix r
    have "triple (hold B s0 (insert a A)) (co_bind (or_exit (closeAFD (Some a))) (\<lambda>_. Ret None)) ?L"
      by (rule triple_bind [OF uses_close_hold [of a B A]]) (use a in \<open>auto intro!: owned triple_Ret\<close>)
    moreover have "triple (hold B s0 (insert a A)) (Ret (Some a)) ?L" by (rule triple_Ret) (use a in simp)
    ultimately show "triple (hold B s0 (insert a A)) (if s_ret r = -1
        then co_bind (or_exit (closeAFD (Some a))) (\<lambda>_. Ret None) else Ret (Some a)) ?L" by simp
  qed (auto intro!: owned)
  have none: "triple K (Ret None) ?L" if "\<And>W P s. K W P s \<Longrightarrow> hold B s0 A W P s" for K
    by (rule triple_Ret) (simp add: that)
  show "triple (hold B s0 A) (ConnectingSocket_connect X addr) ?L"
    unfolding ConnectingSocket_connect_def
  proof (rule triple_open_call)
    fix fd :: sysret
    show "triple (\<lambda>W P s. hold B s0 A W P s \<and> (0 \<le> s_ret fd \<longrightarrow> s_ret fd \<in> P))
      (if s_ret fd < 0 then co_fail (FromErrno (s_errno fd)) None
       else co_bind (or_exit (registerFD (s_ret fd))) (\<lambda>lSocket.
         co_then (attachWriteOnly lSocket) (case lSocket of
           None \<Rightarrow> Halt (Trapped NullPointer)
         | Some a \<Rightarrow>
             co_bind (ConnectOperation X a addr) (\<lambda>r.
               if s_ret r = -1 then co_then (or_exit (closeAFD lSocket)) (Ret None)
               else Ret lSocket)))) ?L"
      using some by (intro triple_if triple_fail none triple_registered(2))
        (auto simp: attachWriteOnly_def attach_with_def co_then_def triple_Halt)
  qed simp
qed

lemma asks_accept: "asks (\<lambda>_. AcceptOperation_syscall a) (\<lambda>r P. 0 \<le> s_ret r \<longrightarrow> s_ret r \<in> P)"
proof -
  have "own_step W s s" "new_addresses s s = {}" "unmanaged P s = P" if "ready W P s" for W P and s :: "'a process"
    using that by (auto simp: own_step_def new_addresses_def unmanaged_def ready_def)
  moreover have "0 \<le> s_ret r \<longrightarrow> s_ret r \<in> loose P (SysAccept fd, r)" for r P fd by (simp add: loose_def)
  ultimately show ?thesis
    unfolding asks_def AcceptOperation_syscall_def on_fd_def io_of_def
    by (auto simp: co_simps) (meson ready_call)
qed

lemma opens_accept:
  assumes l: "l \<in> A"
  shows "opens A (ListeningSocket_accept l)"
proof (rule opensI)
  fix B :: "nat set" and s0 :: "'a process"
  let ?L = "\<lambda>r W P s. hold B s0 (A \<union> set_option r) W P s \<and> set_option r \<inter> (A \<union> B) = {}"
  show "triple (hold B s0 A) (ListeningSocket_accept l) ?L"
    unfolding ListeningSocket_accept_def AcceptOperation_def watch_defs
  proof (rule triple_bind [OF triple_or_exit [OF triple_watched [OF l asks_accept watch_bits(1)]]], simp)
    fix fd :: sysret
    have "triple (hold B s0 (insert a A)) (co_then (attach (Some a)) (Ret (Some a))) ?L" if "a \<notin> A \<union> B" for a
      unfolding co_then_def attach_def
      by (rule triple_bind [OF uses_hold]) (use that in \<open>auto intro!: owned triple_Ret\<close>)
    then show "triple (\<lambda>W P s. hold B s0 A W P s \<and> (0 \<le> s_ret fd \<longrightarrow> s_ret fd \<in> P))
        (co_bind (or_exit (registerFD (s_ret fd))) (\<lambda>rsk. co_then (attach rsk) (Ret rsk))) ?L"
      by (rule triple_registered(2)) (auto simp: attach_def attach_with_def co_then_def triple_Halt)
  qed
qed

lemma opens_timer: "opens A AsyncTimer_create"
proof (rule opensI)
  fix B :: "nat set" and s0 :: "'a process"
  let ?L = "\<lambda>r W P s. hold B s0 (A \<union> set_option r) W P s \<and> set_option r \<inter> (A \<union> B) = {}"
  have "triple (hold B s0 (insert a A)) (co_then (attachReadonly (Some a)) (Ret (Some a))) ?L" if "a \<notin> A \<union> B" for a
    unfolding co_then_def attachReadonly_def
    by (rule triple_bind [OF uses_hold]) (use that in \<open>auto intro!: owned triple_Ret\<close>)
  then show "triple (hold B s0 A) AsyncTimer_create ?L"
    unfolding AsyncTimer_create_def
    by (intro triple_open_call triple_registered(1)) (auto simp: attachReadonly_def attach_with_def co_then_def triple_Halt)
qed

lemma uses_timer_wait [owned]: "a \<in> A \<Longrightarrow> uses A {} (AsyncTimer_wait a secs nsecs)"
  unfolding AsyncTimer_wait_def by (intro owned)

lemma uses_getPeerAddr [owned]: "uses A {} (getPeerAddr a addr)"
  unfolding getPeerAddr_def by (intro owned)

end
