(* ===== verification/OwnedCommands.thy ===== *)
theory OwnedCommands
  imports OwnedObjects
begin

text \<open>
  Commands under the ownership discipline. A command is three objects of one coroutine, the process
  descriptor and the two pipes it points to; starting one gives all three to the coroutine, and
  \<open>waitTermination\<close> takes them back.
\<close>

subsection \<open>Pipes\<close>

text \<open>The pipes of a command object, and what leaves them alone.\<close>

definition pipes :: "nat \<Rightarrow> 'j process \<Rightarrow> nat option \<times> nat option" where
  "pipes a s = (std_in_of a s, std_out_of a s)"

lemma pipes_stay: "managed s a \<Longrightarrow> stays wiring a s t \<Longrightarrow> pipes a t = pipes a s"
  by (auto simp: stays_def managed_def pipes_def std_in_of_def std_out_of_def wiring_def)

lemma triple_keep_pipes:
  assumes c: "\<And>B s0. H B \<Longrightarrow> triple (\<lambda>W P s. hold B s0 A W P s \<and> F W P) c (\<lambda>r W P s. hold B s0 (A' r) W P s \<and> G B r W P)"
    and a: "a \<in> A" and H: "H (insert a B)"
  shows "triple (\<lambda>W P s. hold B s0 A W P s \<and> F W P \<and> R (pipes a s)) c
    (\<lambda>r W P s. hold B s0 (A' r) W P s \<and> G (insert a B) r W P \<and> R (pipes a s))"
  unfolding triple_def
proof (intro allI impI)
  fix W P s assume s: "ready W P s" and h: "hold B s0 A W P s \<and> F W P \<and> R (pipes a s)"
  with a have "hold (insert a B) s A W P s \<and> F W P" by (auto simp: hold_def)
  from tripleD [OF c [OF H] s this]
  show "owp c (\<lambda>r W P t. hold B s0 (A' r) W P t \<and> G (insert a B) r W P \<and> R (pipes a t)) W P s"
  proof (rule owp_mono)
    fix r W' P' t assume t: "hold (insert a B) s (A' r) W' P' t \<and> G (insert a B) r W' P'"
    from h have "hold B s0 A W P s" by simp
    from hold_trans [OF this, of "{}" "A' r" W' P' t] t have "hold B s0 (A' r) W' P' t" by (auto simp: hold_def)
    moreover have "pipes a t = pipes a s"
      by (rule pipes_stay) (use t h a in \<open>auto simp: hold_def\<close>)
    ultimately show "hold B s0 (A' r) W' P' t \<and> G (insert a B) r W' P' \<and> R (pipes a t)" using t h by simp
  qed
qed

definition piped :: "nat \<Rightarrow> nat \<Rightarrow> nat option \<times> nat option \<Rightarrow> bool" where
  "piped i j p \<longleftrightarrow> fst p \<in> {None, Some i} \<and> snd p \<in> {None, Some j}"

definition command ::
  "nat \<Rightarrow> nat \<Rightarrow> nat \<Rightarrow> nat set \<Rightarrow> 'j process \<Rightarrow> nat set \<Rightarrow> nat set \<Rightarrow> int set \<Rightarrow> 'j process \<Rightarrow> bool" where
  "command a i j B s0 A W P s \<longleftrightarrow> hold B s0 A W P s \<and> {a, i, j} \<subseteq> W \<and> {a, i, j} \<inter> B = {} \<and> distinct [a, i, j] \<and>
     piped i j (pipes a s)"

lemma command_hold: "command a i j B s0 A W P s \<Longrightarrow> A' \<subseteq> A \<Longrightarrow> hold B s0 A' W P s"
  by (auto simp: command_def hold_def)

lemma command_pipe:
  assumes "command a i j B s0 A W P s"
  shows "std_in_of a s = Some b \<Longrightarrow> b = i" "std_out_of a s = Some b \<Longrightarrow> b = j"
  using assms by (auto simp: command_def piped_def pipes_def)

lemma triple_fact:
  "(\<And>W P s. K W P s \<Longrightarrow> p) \<Longrightarrow> (p \<Longrightarrow> triple K c L) \<Longrightarrow> triple K c L"
  unfolding triple_def by blast

text \<open>Work on the pipes of a command, or on the command itself, that does not rewire it.\<close>

lemma command_uses:
  assumes c: "uses A D c" and a: "a \<in> A" and D: "D \<subseteq> {i, j}"
  shows "triple (command a i j B s0 A) c (\<lambda>_. command a i j B s0 (A - D))"
proof (rule triple_fact)
  show "command a i j B s0 A W P s \<Longrightarrow> {a, i, j} \<inter> B = {} \<and> distinct [a, i, j]" for W P s by (simp add: command_def)
  assume fresh: "{a, i, j} \<inter> B = {} \<and> distinct [a, i, j]"
  have "triple (\<lambda>W P s. hold B s0 A W P s \<and> D \<subseteq> W \<and> piped i j (pipes a s)) c
      (\<lambda>_ W P s. hold B s0 (A - D) W P s \<and> D \<subseteq> W \<and> piped i j (pipes a s))"
    by (rule triple_keep_pipes [where H = "\<lambda>B. B \<inter> D = {}" and F = "\<lambda>W _. D \<subseteq> W" and G = "\<lambda>_ _ W _. D \<subseteq> W"
        and A' = "\<lambda>_. A - D", OF usesD [OF c] a]) (use fresh D in auto)
  from triple_owned [OF this, of "{a, i, j}"] show ?thesis
    by (rule triple_conseq) (use fresh D in \<open>auto simp: command_def\<close>)
qed

text \<open>Pointing a command object elsewhere.\<close>

lemma rewire_step:
  assumes s: "ready W P s" and h: "hold B s0 A W P s" and a: "a \<in> A" "a \<notin> B" and f: "\<And>x. mFD (f x) = mFD x"
  shows "own_step W s (update_afd a f s)" and "hold B s0 A W P' (update_afd a f s)"
    and "unmanaged P (update_afd a f s) = P"
proof -
  have aW: "a \<in> W" using h a by (auto simp: hold_def)
  then have "stays subscription b s (update_afd a f s)" if "b \<notin> W" for b
    by (intro stays_update f) (use that in auto)
  then show "own_step W s (update_afd a f s)"
    using s by (auto simp: own_step_def ready_def io_wf_update_afd f)
  have "stays wiring b s (update_afd a f s)" if "b \<in> B" for b
    by (intro stays_update f) (use that a in auto)
  moreover have "managed (update_afd a f s) b" if "managed s b" for b by (rule managed_update [OF f that])
  ultimately show "hold B s0 A W P' (update_afd a f s)"
    using h unfolding hold_def by (auto intro: stays_trans)
  show "unmanaged P (update_afd a f s) = P" using s by (auto simp: ready_def unmanaged_def)
qed

lemma pipes_update:
  "managed s a \<Longrightarrow> \<exists>x. get_afd s a = Some x \<and> pipes a s = (mStdIn x, mStdOut x) \<and>
     pipes a (update_afd a f s) = (mStdIn (f x), mStdOut (f x))"
  by (auto simp: managed_def pipes_def std_in_of_def std_out_of_def)

lemma triple_rewire:
  assumes a: "a \<in> A" "a \<notin> B" and f: "\<And>x. mFD (f x) = mFD x"
    and R: "\<And>x. R (mStdIn x, mStdOut x) \<Longrightarrow> R' (mStdIn (f x), mStdOut (f x))"
  shows "triple (\<lambda>W P s. hold B s0 A W P s \<and> F W P \<and> R (pipes a s)) (co_update (update_afd a f))
    (\<lambda>_ W P s. hold B s0 A W P s \<and> F W P \<and> R' (pipes a s))"
proof (rule triple_act)
  fix W P s assume s: "ready W P s" and h: "hold B s0 A W P s \<and> F W P \<and> R (pipes a s)"
  then have "managed s a" using a by (simp add: hold_def)
  from pipes_update [OF this, of f] h R have "R' (pipes a (update_afd a f s))" by auto
  moreover have "new_addresses s (update_afd a f s) = {}" by (simp add: new_addresses_def)
  ultimately show "own_step W s (update_afd a f s) \<and>
      hold B s0 A (W \<union> new_addresses s (update_afd a f s)) (unmanaged P (update_afd a f s)) (update_afd a f s) \<and>
      F (W \<union> new_addresses s (update_afd a f s)) (unmanaged P (update_afd a f s)) \<and> R' (pipes a (update_afd a f s))"
    using rewire_step [OF s conjunct1 [OF h] a f] h by auto
qed

lemma command_rewire:
  assumes a: "a \<in> A" and f: "\<And>x. mFD (f x) = mFD x"
    and R: "\<And>x. piped i j (mStdIn x, mStdOut x) \<Longrightarrow> piped i j (mStdIn (f x), mStdOut (f x))"
  shows "triple (command a i j B s0 A) (co_update (update_afd a f)) (\<lambda>_. command a i j B s0 A)"
proof (rule triple_fact)
  show "command a i j B s0 A W P s \<Longrightarrow> {a, i, j} \<inter> B = {} \<and> distinct [a, i, j]" for W P s by (simp add: command_def)
  assume fresh: "{a, i, j} \<inter> B = {} \<and> distinct [a, i, j]"
  then have "a \<notin> B" by simp
  from triple_rewire [where F = "\<lambda>W _. {a, i, j} \<subseteq> W" and R = "piped i j" and R' = "piped i j", OF a this f R]
  show ?thesis
    by (rule triple_conseq) (use fresh in \<open>auto simp: command_def\<close>)
qed

subsection \<open>Using and ending a command\<close>

lemma command_on_pipe:
  assumes "a \<in> A" and "uses A {} (op k)" and "\<And>W P s b. command a i j B s0 A W P s \<Longrightarrow> g s = Some b \<Longrightarrow> b = k"
  shows "triple (command a i j B s0 A)
    (co_bind (io_of g) (\<lambda>v. case v of None \<Rightarrow> Halt (Trapped NullPointer) | Some b \<Rightarrow> op b)) (\<lambda>_. command a i j B s0 A)"
proof (rule triple_io_of)
  have op: "triple (command a i j B s0 A) (op k) (\<lambda>_. command a i j B s0 A)"
    using command_uses [OF assms(2,1), of i j] by simp
  show "triple (\<lambda>W P t. command a i j B s0 A W P t \<and> v = g t)
      (case v of None \<Rightarrow> Halt (Trapped NullPointer) | Some b \<Rightarrow> op b) (\<lambda>_. command a i j B s0 A)" for v
  proof (cases v)
    case (Some b)
    show ?thesis
      unfolding Some option.case
      by (rule triple_fact [where p = "b = k"]) (use assms(3) op in \<open>auto intro: triple_pre [OF op]\<close>)
  qed (simp add: triple_Halt)
qed

lemma command_readStdOut:
  "a \<in> A \<Longrightarrow> j \<in> A \<Longrightarrow> triple (command a i j B s0 A) (readStdOut a n) (\<lambda>_. command a i j B s0 A)"
  unfolding readStdOut_def by (rule command_on_pipe [where k = j]) (auto intro: owned dest: command_pipe)

lemma command_writeStdIn:
  "a \<in> A \<Longrightarrow> i \<in> A \<Longrightarrow> triple (command a i j B s0 A) (writeStdIn a buf) (\<lambda>_. command a i j B s0 A)"
  unfolding writeStdIn_def by (rule command_on_pipe [where k = i]) (auto intro: owned dest: command_pipe)

text \<open>Closing a pipe: the command no longer points to it.\<close>

lemma command_close_pipe:
  assumes a: "a \<in> A" "a \<noteq> k" and k: "k \<in> {i, j}"
    and g: "\<And>W P s b. command a i j B s0 A W P s \<Longrightarrow> g s = Some b \<Longrightarrow> b = k"
    and f: "\<And>x. mFD (f x) = mFD x"
      "\<And>x. piped i j (mStdIn x, mStdOut x) \<Longrightarrow> piped i j (mStdIn (f x), mStdOut (f x))"
  shows "triple (command a i j B s0 A) (co_bind (io_of g) (\<lambda>v. co_bind (closeAFD v) (\<lambda>ret.
      if ret then co_then (co_update (update_afd a f)) (Ret ret) else Ret ret)))
    (\<lambda>_. command a i j B s0 (A - {k}))"
proof (rule triple_io_of)
  fix v
  show "triple (\<lambda>W P s. command a i j B s0 A W P s \<and> v = g s) (co_bind (closeAFD v) (\<lambda>ret.
      if ret then co_then (co_update (update_afd a f)) (Ret ret) else Ret ret)) (\<lambda>_. command a i j B s0 (A - {k}))"
  proof (rule triple_fact)
    show "set_option v \<subseteq> {k}" if "command a i j B s0 A W P s \<and> v = g s" for W P s using that g by (cases v) auto
    assume v: "set_option v \<subseteq> {k}"
    have close: "triple (command a i j B s0 A) (closeAFD v) (\<lambda>_. command a i j B s0 (A - {k}))"
      by (rule command_uses [OF uses_closeAFD [OF v] a(1)]) (use k in auto)
    have rewire: "triple (command a i j B s0 (A - {k})) (co_update (update_afd a f)) (\<lambda>_. command a i j B s0 (A - {k}))"
      by (rule command_rewire [OF _ f]) (use a in auto)
    show ?thesis
      by (rule triple_pre [OF triple_bind [OF close]])
        (auto simp: co_then_def intro!: triple_bind [OF rewire] triple_Ret)
  qed
qed

lemma command_closeStdIn:
  "a \<in> A \<Longrightarrow> a \<noteq> i \<Longrightarrow> triple (command a i j B s0 A) (closeStdIn a) (\<lambda>_. command a i j B s0 (A - {i}))"
  unfolding closeStdIn_def by (rule command_close_pipe) (auto dest: command_pipe simp: piped_def)

lemma command_closeStdOut:
  "a \<in> A \<Longrightarrow> a \<noteq> j \<Longrightarrow> triple (command a i j B s0 A) (closeStdOut a) (\<lambda>_. command a i j B s0 (A - {j}))"
  unfolding closeStdOut_def by (rule command_close_pipe) (auto dest: command_pipe simp: piped_def)

lemma command_mono: "command a i j B s0 A W P s \<Longrightarrow> A' \<subseteq> A \<Longrightarrow> command a i j B s0 A' W P s"
  by (auto simp: command_def hold_def)

lemma command_close:
  assumes a: "a \<in> A"
  shows "triple (command a i j B s0 A) (closeAFD_AsyncCommand a) (\<lambda>_. hold B s0 (A - {a, i, j}))"
proof (rule triple_fact)
  show "command a i j B s0 A W P s \<Longrightarrow> distinct [a, i, j] \<and> a \<notin> B" for W P s by (simp add: command_def)
  assume d: "distinct [a, i, j] \<and> a \<notin> B"
  let ?L = "\<lambda>_. hold B s0 (A - {a, i, j})"
  have stop: "triple (command a i j B s0 A') (Ret False) ?L" if "A - {a, i, j} \<subseteq> A'" for A'
    by (rule triple_Ret) (use that in \<open>auto intro: command_hold\<close>)
  have last: "triple (command a i j B s0 (A - {i} - {j})) (co_then (co_update (update_afd a (\<lambda>x. x\<lparr>mProcessId := -1\<rparr>)))
      (closeAFD (Some a))) ?L"
    unfolding co_then_def
  proof (rule triple_bind [OF command_rewire])
    have "triple (\<lambda>W P s. hold B s0 (A - {i} - {j}) W P s \<and> {a} \<subseteq> W) (closeAFD (Some a))
        (\<lambda>_ W P s. hold B s0 (A - {i} - {j} - {a}) W P s \<and> {a} \<subseteq> W)"
      by (intro usesD uses_closeAFD) (use d in auto)
    then show "triple (command a i j B s0 (A - {i} - {j})) (closeAFD (Some a)) ?L"
      by (rule triple_conseq) (auto simp: command_def hold_def)
  qed (use a d in auto)
  have in_: "triple (\<lambda>W P s. command a i j B s0 A W P s \<and> v = std_in_of a s) (if v \<noteq> None then closeStdIn a else Ret True)
      (\<lambda>_. command a i j B s0 (A - {i}))" for v
    by (intro triple_if triple_Ret triple_pre [OF command_closeStdIn [OF a]]) (use d in \<open>auto elim: command_mono\<close>)
  have out: "triple (\<lambda>W P s. command a i j B s0 (A - {i}) W P s \<and> v = std_out_of a s)
      (if v \<noteq> None then closeStdOut a else Ret True) (\<lambda>_. command a i j B s0 (A - {i} - {j}))" for v
    by (intro triple_if triple_Ret triple_pre [OF command_closeStdOut]) (use a d in \<open>auto elim: command_mono\<close>)
  show ?thesis
    unfolding closeAFD_AsyncCommand_def
    by (intro triple_io_of triple_bind [OF in_] triple_bind [OF out] triple_if last stop) auto
qed

lemma command_waitTermination:
  assumes a: "a \<in> A"
  shows "triple (command a i j B s0 A) (waitTermination a) (\<lambda>_. hold B s0 (A - {a, i, j}))"
  unfolding waitTermination_def
proof (rule triple_io_of, rule triple_bind)
  show "triple (\<lambda>W P s. command a i j B s0 A W P s \<and> v = getPid a s) (WaitpidOperation a) (\<lambda>_. command a i j B s0 A)" for v
    using command_uses [OF uses_operations(6) [OF a] a, of i j B s0] by (auto elim: triple_pre)
  show "triple (command a i j B s0 A) (if v = s_ret r then closeAFD_AsyncCommand a else Ret False)
      (\<lambda>_. hold B s0 (A - {a, i, j}))" for v r
    by (intro triple_if command_close a triple_Ret) (auto intro: command_hold)
qed

subsection \<open>Starting a command\<close>

text \<open>
  While the three objects are registered, the descriptors that are still to come are open and
  unmanaged. What neither closes a descriptor nor registers one leaves them so.
\<close>

primrec tame :: "('j process, 'a) co \<Rightarrow> bool" where
  "tame (Ret a) = True"
| "tame (Halt h) = True"
| "tame (Bubble e c) = tame c"
| "tame (Act u k) = (\<forall>s. fds (u s) = fds s \<and> tame (k s))"
| "tame (Call q k) = (\<forall>r. closed_by (q, r) = [] \<and> tame (k r))"
| "tame (Suspend a c) = False"

lemma tame_bind: "tame c \<Longrightarrow> (\<And>a. tame (f a)) \<Longrightarrow> tame (co_bind c f)"
  by (induction c) auto

lemma owp_tame:
  "owp c Q W P s \<Longrightarrow> tame c \<Longrightarrow> ready W P s \<Longrightarrow> F \<subseteq> P \<Longrightarrow> owp c (\<lambda>r W P t. Q r W P t \<and> F \<subseteq> P) W P s"
proof (induction c arbitrary: W P s)
  case (Act u k)
  then have "unmanaged P (u s) = P" by (auto simp: unmanaged_def ready_def)
  with Act ready_act [of W P s "u s"] show ?case by simp
next
  case (Call q k)
  have "F \<subseteq> loose P (q, r)" for r using Call.prems by (auto simp: loose_def)
  with Call show ?case by (simp add: ready_call)
qed auto

lemma triple_tame:
  "tame c \<Longrightarrow> triple K c L \<Longrightarrow> triple (\<lambda>W P s. K W P s \<and> F \<subseteq> P) c (\<lambda>r W P s. L r W P s \<and> F \<subseteq> P)"
  unfolding triple_def by (auto intro: owp_tame)

lemma tame_attach: "tame (attach_with st r)"
  by (auto simp: attach_with_def io_of_def co_simps split: option.split)

text \<open>The values a coroutine can return.\<close>

primrec always :: "('a \<Rightarrow> bool) \<Rightarrow> ('s, 'a) co \<Rightarrow> bool" where
  "always p (Ret a) = p a"
| "always p (Halt h) = True"
| "always p (Bubble e c) = always p c"
| "always p (Act u k) = (\<forall>s. always p (k s))"
| "always p (Call q k) = (\<forall>r. always p (k r))"
| "always p (Suspend a c) = always p c"

lemma owp_always: "owp c Q W P s \<Longrightarrow> always p c \<Longrightarrow> owp c (\<lambda>r W P t. Q r W P t \<and> p r) W P s"
  by (induction c arbitrary: W P s) auto

lemma always_bind: "(\<And>a. always p (f a)) \<Longrightarrow> always p (co_bind c f)"
  by (induction c) auto

lemma always_then: "always p d \<Longrightarrow> always p (co_then c d)"
  by (simp add: co_then_def always_bind)

lemma always_fail: "always p (Ret a) \<Longrightarrow> always p (co_fail e a)"
  by (simp add: co_fail_def)

lemma triple_always: "always p c \<Longrightarrow> triple K c L \<Longrightarrow> triple K c (\<lambda>r W P s. L r W P s \<and> p r)"
  unfolding triple_def by (auto intro: owp_always)

lemma registered_or_exit: "always (\<lambda>r. r \<noteq> None) (or_exit (registerFD fd))"
  by (simp add: registerFD_def io_of_def co_simps)

text \<open>A command object \<open>a\<close> under construction: the descriptors in \<open>F\<close> are still to be registered.\<close>

definition building ::
  "nat set \<Rightarrow> 'j process \<Rightarrow> nat set \<Rightarrow> int set \<Rightarrow> nat \<Rightarrow> (nat option \<times> nat option \<Rightarrow> bool) \<Rightarrow>
   nat set \<Rightarrow> int set \<Rightarrow> 'j process \<Rightarrow> bool" where
  "building B s0 A F a R W P s \<longleftrightarrow> hold B s0 A W P s \<and> F \<subseteq> P \<and> R (pipes a s)"

lemma building_register:
  assumes a: "a \<in> A" and fd: "fd \<notin> F"
    and rest: "\<And>b. b \<notin> A \<union> B \<Longrightarrow> triple (building B s0 (insert b A) F a R) (f (Some b)) L"
  shows "triple (building B s0 A (insert fd F) a R) (co_bind (or_exit (registerFD fd)) f) L"
proof -
  have "triple (\<lambda>W P s. hold B s0 A W P s \<and> ((0 \<le> fd \<longrightarrow> fd \<in> P \<and> fd \<notin> F) \<and> F \<subseteq> P) \<and> R (pipes a s)) (or_exit (registerFD fd))
      (\<lambda>r W P s. hold B s0 (A \<union> set_option r) W P s \<and> (set_option r \<inter> (A \<union> insert a B) = {} \<and> F \<subseteq> P) \<and> R (pipes a s))"
    by (rule triple_keep_pipes [where H = "\<lambda>_. True" and F = "\<lambda>_ P. (0 \<le> fd \<longrightarrow> fd \<in> P \<and> fd \<notin> F) \<and> F \<subseteq> P"
        and A' = "\<lambda>r. A \<union> set_option r" and G = "\<lambda>B r _ P. set_option r \<inter> (A \<union> B) = {} \<and> F \<subseteq> P",
        OF triple_or_exit [OF triple_register] a TrueI])
  from triple_always [OF registered_or_exit this] show ?thesis
  proof (rule triple_pre [OF triple_bind])
    fix r
    show "triple (\<lambda>W P s. (hold B s0 (A \<union> set_option r) W P s \<and> (set_option r \<inter> (A \<union> insert a B) = {} \<and> F \<subseteq> P) \<and>
        R (pipes a s)) \<and> r \<noteq> None) (f r) L"
    proof (rule triple_fact)
      show "\<exists>b. r = Some b \<and> b \<notin> A \<union> B" if "(hold B s0 (A \<union> set_option r) W P s \<and> (set_option r \<inter> (A \<union> insert a B) = {} \<and>
          F \<subseteq> P) \<and> R (pipes a s)) \<and> r \<noteq> None" for W P s using that by auto
      assume "\<exists>b. r = Some b \<and> b \<notin> A \<union> B"
      then obtain b where r: "r = Some b" and b: "b \<notin> A \<union> B" by blast
      show ?thesis unfolding r by (rule triple_pre [OF rest [OF b]]) (simp add: building_def)
    qed
  qed (use fd in \<open>auto simp: building_def\<close>)
qed

lemma building_attach:
  assumes a: "a \<in> A" and b: "set_option r \<subseteq> A"
  shows "triple (building B s0 A F a R) (attach_with st r) (\<lambda>_. building B s0 A F a R)"
proof -
  have "triple (\<lambda>W P s. hold B' s' A W P s \<and> F \<subseteq> P) (attach_with st r) (\<lambda>_ W P s. hold B' s' A W P s \<and> F \<subseteq> P)" for B' s'
    by (rule triple_tame [OF tame_attach uses_hold [OF uses_attach [OF b]]])
  from triple_keep_pipes [where H = "\<lambda>_. True" and F = "\<lambda>_ P. F \<subseteq> P" and A' = "\<lambda>_. A" and G = "\<lambda>_ _ _ P. F \<subseteq> P",
      OF this a TrueI]
  show ?thesis by (simp add: building_def [abs_def])
qed

lemma building_attached:
  assumes "a \<in> A" and "set_option r \<subseteq> A"
  shows "triple (building B s0 A F a R) (attach r) (\<lambda>_. building B s0 A F a R)"
    and "triple (building B s0 A F a R) (attachReadonly r) (\<lambda>_. building B s0 A F a R)"
    and "triple (building B s0 A F a R) (attachWriteOnly r) (\<lambda>_. building B s0 A F a R)"
  unfolding attach_def attachReadonly_def attachWriteOnly_def by (rule building_attach [OF assms])+

lemma building_set:
  assumes "a \<in> A" "a \<notin> B" and "\<And>x. mFD (f x) = mFD x"
    and "\<And>x. R (mStdIn x, mStdOut x) \<Longrightarrow> R' (mStdIn (f x), mStdOut (f x))"
  shows "triple (building B s0 A F a R) (set_command (Some a) f) (\<lambda>_. building B s0 A F a R')"
  using triple_rewire [where F = "\<lambda>_ P. F \<subseteq> P" and R = R and R' = R', OF assms]
  by (simp add: set_command_def building_def [abs_def])

definition launched ::
  "nat set \<Rightarrow> 'j process \<Rightarrow> nat set \<Rightarrow> nat option \<Rightarrow> nat set \<Rightarrow> int set \<Rightarrow> 'j process \<Rightarrow> bool" where
  "launched B s0 A r W P s = (case r of
     None \<Rightarrow> hold B s0 A W P s
   | Some a \<Rightarrow> \<exists>i j. command a i j B s0 (A \<union> {a, i, j}) W P s \<and> {a, i, j} \<inter> A = {})"

lemma uses_close_all [owned]: "uses A {} (close_all cs)"
  by (induction cs) (auto intro: owned)

lemma building_done:
  assumes new: "a \<notin> A \<union> B" "j \<notin> insert a A \<union> B" "i \<notin> insert j (insert a A) \<union> B"
  shows "triple (building B s0 (insert i (insert j (insert a A))) {} a (\<lambda>p. p = (Some i, Some j)))
    (co_then (close_all cs) (Ret (Some a))) (launched B s0 A)"
proof -
  have "triple (command a i j B s0 (A \<union> {a, i, j})) (co_then (close_all cs) (Ret (Some a))) (launched B s0 A)"
    unfolding co_then_def
  proof (rule triple_bind)
    show "triple (command a i j B s0 (A \<union> {a, i, j})) (close_all cs) (\<lambda>_. command a i j B s0 (A \<union> {a, i, j}))"
      using command_uses [OF uses_close_all, of a "A \<union> {a, i, j}" i j B s0 cs] by simp
  qed (rule triple_Ret, use new in \<open>auto simp: launched_def\<close>)
  then show ?thesis
    by (rule triple_pre) (use new in \<open>auto simp: building_def command_def piped_def hold_def\<close>)
qed

lemma building_stdin:
  assumes new: "a \<notin> A \<union> B" "j \<notin> insert a A \<union> B"
  shows "triple (building B s0 (insert j (insert a A)) {pw} a (\<lambda>p. snd p = Some j))
    (co_bind (or_exit (registerFD pw)) (\<lambda>tIn.
     co_then (set_command (Some a) (\<lambda>x. x\<lparr>mStdIn := tIn\<rparr>))
     (co_then (attachWriteOnly tIn)
     (co_then (close_all cs) (Ret (Some a)))))) (launched B s0 A)"
proof (rule building_register)
  fix i assume i: "i \<notin> insert j (insert a A) \<union> B"
  show "triple (building B s0 (insert i (insert j (insert a A))) {} a (\<lambda>p. snd p = Some j))
      (co_then (set_command (Some a) (\<lambda>x. x\<lparr>mStdIn := Some i\<rparr>))
      (co_then (attachWriteOnly (Some i)) (co_then (close_all cs) (Ret (Some a))))) (launched B s0 A)"
    by (rule triple_then, rule building_set [where R' = "\<lambda>p. p = (Some i, Some j)"], simp_all add: new [simplified],
        rule triple_then, rule building_attached, simp_all, rule building_done [OF new i])
qed simp_all

lemma building_stdout:
  assumes new: "a \<notin> A \<union> B" and fd: "pr \<noteq> pw"
  shows "triple (building B s0 (insert a A) {pr, pw} a (\<lambda>_. True))
    (co_bind (or_exit (registerFD pr)) (\<lambda>tOut.
     co_then (set_command (Some a) (\<lambda>x. x\<lparr>mStdOut := tOut\<rparr>))
     (co_then (attachReadonly tOut)
     (co_bind (or_exit (registerFD pw)) (\<lambda>tIn.
     co_then (set_command (Some a) (\<lambda>x. x\<lparr>mStdIn := tIn\<rparr>))
     (co_then (attachWriteOnly tIn)
     (co_then (close_all cs) (Ret (Some a))))))))) (launched B s0 A)"
proof (rule building_register)
  fix j assume j: "j \<notin> insert a A \<union> B"
  show "triple (building B s0 (insert j (insert a A)) {pw} a (\<lambda>_. True))
      (co_then (set_command (Some a) (\<lambda>x. x\<lparr>mStdOut := Some j\<rparr>))
      (co_then (attachReadonly (Some j)) (co_bind (or_exit (registerFD pw)) (\<lambda>tIn.
        co_then (set_command (Some a) (\<lambda>x. x\<lparr>mStdIn := tIn\<rparr>))
        (co_then (attachWriteOnly tIn)
        (co_then (close_all cs) (Ret (Some a)))))))) (launched B s0 A)"
    by (rule triple_then, rule building_set [where R' = "\<lambda>p. snd p = Some j"], simp_all add: new [simplified],
        rule triple_then, rule building_attached, simp_all, rule building_stdin [OF new j])
qed (use fd in simp_all)

lemma triple_opening_call:
  assumes "\<And>r. closed_by (q, r) = []"
    and "\<And>r. F \<inter> set (opened_by (q, r)) = {} \<Longrightarrow> distinct (opened_by (q, r)) \<Longrightarrow>
      triple (\<lambda>W P s. hold B s0 A W P s \<and> F \<union> set (opened_by (q, r)) \<subseteq> P) (f r) L"
  shows "triple (\<lambda>W P s. hold B s0 A W P s \<and> F \<subseteq> P) (co_bind (co_call q) f) L"
proof (rule triple_call, rule triple_fact)
  fix r
  let ?K = "\<lambda>W P s. \<exists>P0. (hold B s0 A W P0 s \<and> F \<subseteq> P0) \<and> plausible P0 s (q, r) \<and> P = loose P0 (q, r)"
  show "F \<inter> set (opened_by (q, r)) = {} \<and> distinct (opened_by (q, r))" if "?K W P s" for W P s
    using that by (auto simp: plausible_def)
  assume "F \<inter> set (opened_by (q, r)) = {} \<and> distinct (opened_by (q, r))"
  then show "triple ?K (f r) L"
    using assms(1) [of r] by (intro triple_pre [OF assms(2)]) (auto simp: loose_def hold_def)
qed

lemma launched_none:
  assumes "uses A {} c" and "always (\<lambda>r. r = None) c"
  shows "triple (\<lambda>W P s. hold B s0 A W P s \<and> F \<subseteq> P) c (launched B s0 A)"
  by (rule triple_conseq [OF triple_always [OF assms(2) uses_hold [OF assms(1)]]]) (auto simp: launched_def)

lemma launched_parent:
  assumes fd: "pr \<noteq> pw"
  shows "triple (\<lambda>W P s. hold B s0 A W P s \<and> {pr, pw} \<subseteq> P) (execute_parent pid cr cw pr pw) (launched B s0 A)"
  unfolding execute_parent_def
proof (rule triple_opening_call)
  fix wait :: sysret
  assume new: "{pr, pw} \<inter> set (opened_by (SysPidfdOpen pid, wait)) = {}"
  let ?build = "\<lambda>tPac. co_then (attach tPac)
     (co_then (set_command tPac (\<lambda>x. x\<lparr>mProcessId := pid\<rparr>))
     (co_bind (or_exit (registerFD pr)) (\<lambda>tOut.
      co_then (set_command tPac (\<lambda>x. x\<lparr>mStdOut := tOut\<rparr>))
      (co_then (attachReadonly tOut)
      (co_bind (or_exit (registerFD pw)) (\<lambda>tIn.
      co_then (set_command tPac (\<lambda>x. x\<lparr>mStdIn := tIn\<rparr>))
      (co_then (attachWriteOnly tIn)
      (co_then (close_all [cr, cw]) (Ret tPac)))))))))"
  have build: "triple (\<lambda>W P s. hold B s0 (insert a A) W P s \<and> {pr, pw} \<subseteq> P) (?build (Some a)) (launched B s0 A)"
    if a: "a \<notin> A \<union> B" for a
  proof -
    have "triple (building B s0 (insert a A) {pr, pw} a (\<lambda>_. True)) (attach (Some a))
        (\<lambda>_. building B s0 (insert a A) {pr, pw} a (\<lambda>_. True))" by (rule building_attached) simp_all
    moreover have "triple (building B s0 (insert a A) {pr, pw} a (\<lambda>_. True))
        (set_command (Some a) (\<lambda>x. x\<lparr>mProcessId := pid\<rparr>)) (\<lambda>_. building B s0 (insert a A) {pr, pw} a (\<lambda>_. True))"
      by (rule building_set) (use a in simp_all)
    ultimately have "triple (building B s0 (insert a A) {pr, pw} a (\<lambda>_. True)) (?build (Some a)) (launched B s0 A)"
      by (blast intro: triple_then building_stdout [OF a fd])
    then show ?thesis by (rule triple_pre) (simp add: building_def)
  qed
  have "triple (\<lambda>W P s. hold B s0 A W P s \<and> (0 \<le> s_ret wait \<longrightarrow> s_ret wait \<in> P \<and> s_ret wait \<notin> {pr, pw}) \<and> {pr, pw} \<subseteq> P)
      (co_bind (or_exit (registerFD (s_ret wait))) ?build) (launched B s0 A)"
    by (rule triple_created [OF triple_or_exit [OF triple_register] build])
      (simp_all add: attach_def attach_with_def co_then_def triple_Halt)
  note go = triple_pre [OF this]
  show "triple (\<lambda>W P s. hold B s0 A W P s \<and> {pr, pw} \<union> set (opened_by (SysPidfdOpen pid, wait)) \<subseteq> P)
      (if s_ret wait = -1 then
         co_then (close_all [cr, cw, pr, pw])
           (co_then (co_call (SysKillSigkill pid)) (co_fail (FromErrno (s_errno wait)) None))
       else co_bind (or_exit (registerFD (s_ret wait))) ?build) (launched B s0 A)"
    by (rule triple_if, intro launched_none owned always_then always_fail, simp, rule go)
      (use new in \<open>auto split: if_splits\<close>)
qed simp

lemma launched_child:
  "triple (\<lambda>W P s. hold B s0 A W P s \<and> F \<subseteq> P) (execute_child cmd cr cw pr pw) (launched B s0 A)"
  unfolding execute_child_def by (intro launched_none owned always_then always_bind) simp

lemma launched_fork:
  assumes "distinct [cr, pw, pr, cw]"
  shows "triple (\<lambda>W P s. hold B s0 A W P s \<and> {cr, pw, pr, cw} \<subseteq> P)
    (co_bind (co_call SysFork) (\<lambda>forkRetVal.
       if s_ret forkRetVal = -1 then
         co_then (close_all [cr, cw, pr, pw]) (co_fail (FromErrno (s_errno forkRetVal)) None)
       else if s_ret forkRetVal > 0 then execute_parent (s_ret forkRetVal) cr cw pr pw
       else if s_ret forkRetVal = 0 then execute_child cmd cr cw pr pw
       else Ret None)) (launched B s0 A)"
proof (rule triple_opening_call)
  fix r :: sysret
  have parent: "triple (\<lambda>W P s. hold B s0 A W P s \<and> {cr, pw, pr, cw} \<union> set (opened_by (SysFork, r)) \<subseteq> P)
      (execute_parent (s_ret r) cr cw pr pw) (launched B s0 A)"
    by (rule triple_pre [OF launched_parent]) (use assms in auto)
  show "triple (\<lambda>W P s. hold B s0 A W P s \<and> {cr, pw, pr, cw} \<union> set (opened_by (SysFork, r)) \<subseteq> P)
      (if s_ret r = -1 then co_then (close_all [cr, cw, pr, pw]) (co_fail (FromErrno (s_errno r)) None)
       else if s_ret r > 0 then execute_parent (s_ret r) cr cw pr pw
       else if s_ret r = 0 then execute_child cmd cr cw pr pw else Ret None) (launched B s0 A)"
    by (intro triple_if parent launched_child launched_none owned always_then always_fail) simp_all
qed simp

text \<open>A command that was started is three new objects of the coroutine; one that was not leaves nothing.\<close>

lemma launched_execute: "triple (hold B s0 A) (AsyncCommand_execute cmd) (launched B s0 A)"
proof -
  have "triple (\<lambda>W P s. hold B s0 A W P s \<and> {} \<subseteq> P) (AsyncCommand_execute cmd) (launched B s0 A)"
    unfolding AsyncCommand_execute_def
  proof (rule triple_opening_call, goal_cases)
    case (2 p)
    obtain cr pw where p: "s_fds p = (cr, pw)" by fastforce
    show ?case
      unfolding p prod.case
    proof (rule triple_if, intro launched_none owned always_fail, simp)
      assume "s_ret p \<noteq> -1"
      with 2 p show "triple (\<lambda>W P s. hold B s0 A W P s \<and> {} \<union> set (opened_by (SysPipe, p)) \<subseteq> P)
        (co_bind (co_call SysPipe) (\<lambda>childToParentPipe.
           if s_ret childToParentPipe = -1 then
             co_bind (co_call (SysClose pw)) (\<lambda>c1.
             co_bind (co_call (SysClose cr)) (\<lambda>c0.
               co_fail (FromErrno (errno_after (s_errno childToParentPipe) [c1, c0])) None))
           else case s_fds childToParentPipe of (pr, cw) \<Rightarrow>
             co_bind (co_call SysFork) (\<lambda>forkRetVal.
               if s_ret forkRetVal = -1 then
                 co_then (close_all [cr, cw, pr, pw]) (co_fail (FromErrno (s_errno forkRetVal)) None)
               else if s_ret forkRetVal > 0 then execute_parent (s_ret forkRetVal) cr cw pr pw
               else if s_ret forkRetVal = 0 then execute_child cmd cr cw pr pw
               else Ret None))) (launched B s0 A)"
      proof (intro triple_opening_call, goal_cases)
        case (2 q)
        obtain pr cw where q: "s_fds q = (pr, cw)" by fastforce
        show ?case
          unfolding q prod.case
          by (rule triple_if, intro launched_none owned always_bind always_fail, simp,
              rule triple_pre [OF launched_fork]) (use 2 p q in auto)
      qed simp
    qed
  qed simp
  then show ?thesis by simp
qed

end
