(* ===== verification/Serial.thy ===== *)
theory Serial
  imports Platform
begin

text \<open>
  The \<open>serial_process\<close> methods of the program's structures and the two conversions of
  \<open>NetworkMessage\<close> (\<open>src/sharedstate.cc\<close>). The library functions they call are fields of
  \<open>ext\<close>; the locale \<open>serializer\<close> states what the program relies on, and shows inside it that a
  state slice survives the trip through a message.
\<close>

definition StateEntry_serial_process :: "'j ext \<Rightarrow> ('j, 'j StateEntry) object_process" where
  "StateEntry_serial_process X j ctx e =
     (case x_serial_string X j ctx ''mAuthor'' (mAuthor e) of (ctx, tAuthor) \<Rightarrow>
      case x_serial_int64 X j ctx ''mTtl'' (mTtl e) of (ctx, tTtl) \<Rightarrow>
      case x_serial_json X j ctx ''mData'' (mData e) of (ctx, tData) \<Rightarrow>
        (ctx, e\<lparr>mAuthor := tAuthor, mTtl := tTtl, mData := tData\<rparr>))"

definition DataTypeConf_serial_process :: "'j ext \<Rightarrow> ('j, DataTypeConf) object_process" where
  "DataTypeConf_serial_process X j ctx c =
     (case x_serial_string X j ctx ''mName'' (mName c) of (ctx, tName) \<Rightarrow>
      case x_serial_string X j ctx ''mScope'' (mScope c) of (ctx, tScope) \<Rightarrow>
      case x_serial_int64 X j ctx ''mUpdateInterval'' (mUpdateInterval c) of (ctx, tUpdateInterval) \<Rightarrow>
      case x_serial_int64 X j ctx ''mBleachTTL'' (mBleachTTL c) of (ctx, tBleachTTL) \<Rightarrow>
        (ctx, c\<lparr>mName := tName, mScope := tScope, mUpdateInterval := tUpdateInterval,
                mBleachTTL := tBleachTTL\<rparr>))"

text \<open>The peer address is not serialised: it is the key the records are stored under.\<close>

definition NetworkStats_serial_process :: "'j ext \<Rightarrow> ('j, NetworkStats) object_process" where
  "NetworkStats_serial_process X j ctx st =
     (case x_serial_int64 X j ctx ''mTS'' (mTS st) of (ctx, tTS) \<Rightarrow>
      case x_serial_int64 X j ctx ''mRttExt'' (mRttExt st) of (ctx, tRTT) \<Rightarrow>
      case x_serial_uint32 X j ctx ''mUpBwMbsExt'' (mUpBwMbsExt st) of (ctx, tUp) \<Rightarrow>
      case x_serial_uint32 X j ctx ''mDownBwMbsExt'' (mDownBwMbsExt st) of (ctx, tDown) \<Rightarrow>
        (ctx, st\<lparr>mTS := tTS, mRttExt := tRTT, mUpBwMbsExt := tUp, mDownBwMbsExt := tDown\<rparr>))"

definition fromStateSlice :: "'j ext \<Rightarrow> 'j state_slice \<Rightarrow> NetworkMessage \<Rightarrow> NetworkMessage" where
  "fromStateSlice X stateSlice msg =
     (case x_serial_slice X (StateEntry_serial_process X) TO_JSON (x_ctx X) ''stateSlice'' stateSlice of
        (ctx, _) \<Rightarrow> msg\<lparr>mMsgData := x_print X (mJson ctx)\<rparr>)"

definition toStateSlice :: "'j ext \<Rightarrow> NetworkMessage \<Rightarrow> 'j state_slice \<Rightarrow> 'j state_slice" where
  "toStateSlice X msg stateSlice =
     snd (x_serial_slice X (StateEntry_serial_process X) FROM_JSON
       ((x_ctx X)\<lparr>mJson := x_parse X (mMsgData msg)\<rparr>) ''stateSlice'' stateSlice)"

subsection \<open>What the program relies on\<close>

text \<open>
  A member process adds one named member to the document, and reads it back from a document in
  which it is the only one of that name. A map is one member; its elements are documents of
  their own.
\<close>

definition only_member :: "'j ext \<Rightarrow> 'j \<Rightarrow> string \<Rightarrow> 'j \<Rightarrow> bool" where
  "only_member X d name v \<longleftrightarrow> filter (\<lambda>m. fst m = name) (x_get_object X d) = [(name, v)]"

definition member_codec :: "'j ext \<Rightarrow> ('j, 'v) member_process \<Rightarrow> ('v \<Rightarrow> 'j) \<Rightarrow> bool" where
  "member_codec X p enc \<longleftrightarrow>
     (\<forall>ctx name v. p TO_JSON ctx name v =
        (ctx\<lparr>mJson := x_add_member X (mJson ctx) name (enc v)\<rparr>, v)) \<and>
     (\<forall>ctx name v old. only_member X (mJson ctx) name (enc v) \<longrightarrow> p FROM_JSON ctx name old = (ctx, v))"

text \<open>The document an object process makes of an object, and the objects it reads back from it.\<close>

definition doc_of :: "'j ext \<Rightarrow> ('j, 'v) object_process \<Rightarrow> 'v \<Rightarrow> 'j" where
  "doc_of X p v = mJson (fst (p TO_JSON (x_ctx X) v))"

definition object_codec :: "'j ext \<Rightarrow> ('j, 'v) object_process \<Rightarrow> 'v \<Rightarrow> bool" where
  "object_codec X p v \<longleftrightarrow>
     (\<forall>old. p FROM_JSON ((x_ctx X)\<lparr>mJson := doc_of X p v\<rparr>) old =
        ((x_ctx X)\<lparr>mJson := doc_of X p v\<rparr>, v))"

text \<open>A \<open>std::map\<close> that the library fills is ordered, whatever the document.\<close>

definition ordered_maps :: "'j ext \<Rightarrow> bool" where
  "ordered_maps X \<longleftrightarrow>
     (\<forall>p ctx name. smap_wf (snd (x_serial_slice X p FROM_JSON ctx name []))) \<and>
     (\<forall>p ctx name. smap_wf (snd (x_serial_confs X p FROM_JSON ctx name []))) \<and>
     (\<forall>p ctx name. smap_wf (snd (x_serial_stats X p FROM_JSON ctx name [])))"

lemma toStateSlice_wf: "ordered_maps X \<Longrightarrow> smap_wf (toStateSlice X msg [])"
  by (simp add: ordered_maps_def toStateSlice_def)

locale serializer =
  fixes X :: "'j ext"
    and enc_string :: "string \<Rightarrow> 'j" and enc_int64 :: "int \<Rightarrow> 'j"
    and enc_uint32 :: "u32 \<Rightarrow> 'j" and enc_json :: "'j \<Rightarrow> 'j"
    and enc_slice :: "(string \<times> 'j) list \<Rightarrow> 'j" and enc_confs :: "(string \<times> 'j) list \<Rightarrow> 'j"
  assumes empty_ctx: "mOk (x_ctx X)" "x_get_object X (mJson (x_ctx X)) = []"
    and add_member: "x_get_object X (x_add_member X d name v) = x_get_object X d @ [(name, v)]"
    and parse_print: "x_parse X (x_print X d) = d" "\<not> x_parse_error X (x_print X d)"
    and parse_line: "x_parse X (x_print X d @ [10]) = d" "\<not> x_parse_error X (x_print X d @ [10])"
    and codec_string: "member_codec X (x_serial_string X) enc_string"
    and codec_int64: "member_codec X (x_serial_int64 X) enc_int64"
    and codec_uint32: "member_codec X (x_serial_uint32 X) enc_uint32"
    and codec_json: "member_codec X (x_serial_json X) enc_json"
    and slice_to: "x_serial_slice X p TO_JSON ctx name sl =
        (ctx\<lparr>mJson := x_add_member X (mJson ctx) name
          (enc_slice (map (\<lambda>(k, e). (k, doc_of X p e)) sl))\<rparr>, sl)"
    and slice_from: "smap_wf sl \<Longrightarrow> \<forall>(k, e) \<in> set sl. object_codec X p e \<Longrightarrow>
        only_member X (mJson ctx) name (enc_slice (map (\<lambda>(k, e). (k, doc_of X p e)) sl)) \<Longrightarrow>
        x_serial_slice X p FROM_JSON ctx name old = (ctx, sl)"
    and confs_to: "x_serial_confs X q TO_JSON ctx name cs =
        (ctx\<lparr>mJson := x_add_member X (mJson ctx) name
          (enc_confs (map (\<lambda>(k, c). (k, doc_of X q c)) cs))\<rparr>, cs)"
    and confs_from: "smap_wf cs \<Longrightarrow> \<forall>(k, c) \<in> set cs. object_codec X q c \<Longrightarrow>
        only_member X (mJson ctx) name (enc_confs (map (\<lambda>(k, c). (k, doc_of X q c)) cs)) \<Longrightarrow>
        x_serial_confs X q FROM_JSON ctx name cold = (ctx, cs)"
begin

lemmas codecs = codec_string codec_int64 codec_uint32 codec_json

lemma member_to:
  "x_serial_string X TO_JSON ctx n s = (ctx\<lparr>mJson := x_add_member X (mJson ctx) n (enc_string s)\<rparr>, s)"
  "x_serial_int64 X TO_JSON ctx n i = (ctx\<lparr>mJson := x_add_member X (mJson ctx) n (enc_int64 i)\<rparr>, i)"
  "x_serial_json X TO_JSON ctx n d = (ctx\<lparr>mJson := x_add_member X (mJson ctx) n (enc_json d)\<rparr>, d)"
  using codecs by (simp_all add: member_codec_def)

lemma member_from:
  "only_member X (mJson ctx) n (enc_string s) \<Longrightarrow> x_serial_string X FROM_JSON ctx n so = (ctx, s)"
  "only_member X (mJson ctx) n (enc_int64 i) \<Longrightarrow> x_serial_int64 X FROM_JSON ctx n io = (ctx, i)"
  "only_member X (mJson ctx) n (enc_json d) \<Longrightarrow> x_serial_json X FROM_JSON ctx n jo = (ctx, d)"
  using codecs by (simp_all add: member_codec_def)

lemma entry_codec: "object_codec X (StateEntry_serial_process X) e"
  unfolding object_codec_def doc_of_def StateEntry_serial_process_def
  by (simp add: member_to member_from only_member_def add_member empty_ctx)

lemma conf_codec: "object_codec X (DataTypeConf_serial_process X) c"
  unfolding object_codec_def doc_of_def DataTypeConf_serial_process_def
  by (simp add: member_to member_from only_member_def add_member empty_ctx)

lemma slice_roundtrip:
  assumes "smap_wf sl"
  shows "toStateSlice X (fromStateSlice X sl msg) old = sl"
  unfolding toStateSlice_def fromStateSlice_def
  using slice_from [OF assms, where p = "StateEntry_serial_process X"]
  by (simp add: slice_to parse_print entry_codec only_member_def add_member empty_ctx)

lemma confs_roundtrip:
  assumes "smap_wf cs"
  shows "x_serial_confs X (DataTypeConf_serial_process X) FROM_JSON
      ((x_ctx X)\<lparr>mJson := x_parse X (x_print X
        (mJson (fst (x_serial_confs X (DataTypeConf_serial_process X) TO_JSON (x_ctx X) name cs))) @ [10])\<rparr>)
      name cold =
    ((x_ctx X)\<lparr>mJson := mJson (fst (x_serial_confs X (DataTypeConf_serial_process X) TO_JSON
        (x_ctx X) name cs))\<rparr>, cs)"
  using confs_from [OF assms, where q = "DataTypeConf_serial_process X"]
  by (simp add: confs_to parse_line conf_codec only_member_def add_member empty_ctx)

end

end
