(* ===== verification/JsonText.thy ===== *)
theory JsonText
  imports Platform
begin

text \<open>
  JSON documents and their text, with a parser that reads back what the printer writes. The
  theory is not a model of rapidjson: it is the concrete document type at which the library
  parameters of \<open>Platform\<close> are instantiated, to show that what is assumed of them can hold.
\<close>

datatype json =
    JNull
  | JBool bool
  | JInt int
  | JStr string
  | JArr "json list"
  | JObj "(string \<times> json) list"

subsection \<open>Numbers\<close>

definition digit :: "nat \<Rightarrow> char" where
  "digit d = char_of (48 + d)"

definition digit_value :: "char \<Rightarrow> nat" where
  "digit_value c = of_char c - 48"

definition is_digit :: "char \<Rightarrow> bool" where
  "is_digit c \<longleftrightarrow> 48 \<le> (of_char c :: nat) \<and> (of_char c :: nat) \<le> 57"

fun show_nat :: "nat \<Rightarrow> string" where
  "show_nat n = (if n < 10 then [digit n] else show_nat (n div 10) @ [digit (n mod 10)])"

declare show_nat.simps [simp del]

definition read_nat :: "string \<Rightarrow> nat" where
  "read_nat s = foldl (\<lambda>n c. 10 * n + digit_value c) 0 s"

definition show_int :: "int \<Rightarrow> string" where
  "show_int i = (if i < 0 then CHR ''-'' # show_nat (nat (- i)) else show_nat (nat i))"

lemma digit_facts: "d < 10 \<Longrightarrow> is_digit (digit d) \<and> digit_value (digit d) = d"
  by (simp add: digit_def is_digit_def digit_value_def)

lemma read_show_nat: "read_nat (show_nat n) = n"
proof (induction n rule: show_nat.induct)
  case (1 n)
  show ?case
  proof (cases "n < 10")
    case True
    then show ?thesis by (subst show_nat.simps) (simp add: read_nat_def digit_facts)
  next
    case False
    with 1 have "read_nat (show_nat (n div 10)) = n div 10" by simp
    with False show ?thesis by (subst show_nat.simps) (simp add: read_nat_def digit_facts)
  qed
qed

lemma show_nat_digits: "list_all is_digit (show_nat n) \<and> show_nat n \<noteq> []"
proof (induction n rule: show_nat.induct)
  case (1 n)
  then show ?case by (subst (1 2) show_nat.simps) (simp add: digit_facts)
qed

definition read_int :: "string \<Rightarrow> int \<times> string" where
  "read_int s = (case s of
     [] \<Rightarrow> (0, [])
   | c # r \<Rightarrow>
       if c = CHR ''-'' then (- int (read_nat (takeWhile is_digit r)), dropWhile is_digit r)
       else (int (read_nat (takeWhile is_digit s)), dropWhile is_digit s))"

definition no_digit :: "string \<Rightarrow> bool" where
  "no_digit s \<longleftrightarrow> (case s of [] \<Rightarrow> True | c # _ \<Rightarrow> \<not> is_digit c)"

lemma span_digits:
  "list_all is_digit ds \<Longrightarrow> no_digit rest \<Longrightarrow>
   takeWhile is_digit (ds @ rest) = ds \<and> dropWhile is_digit (ds @ rest) = rest"
  by (induction ds) (auto simp: no_digit_def split: list.splits)

lemma read_show_int:
  assumes "no_digit rest"
  shows "read_int (show_int i @ rest) = (i, rest)"
proof (cases "i < 0")
  case True
  then show ?thesis
    using span_digits [OF _ assms, of "show_nat (nat (- i))"] show_nat_digits [of "nat (- i)"]
    by (simp add: show_int_def read_int_def read_show_nat)
next
  case False
  obtain c r where cr: "show_nat (nat i) = c # r" using show_nat_digits [of "nat i"]
    by (cases "show_nat (nat i)") auto
  then have "c \<noteq> CHR ''-''" using show_nat_digits [of "nat i"] by (auto simp: is_digit_def)
  with False cr show ?thesis
    using span_digits [OF _ assms, of "show_nat (nat i)"] show_nat_digits [of "nat i"]
    by (simp add: show_int_def read_int_def read_show_nat [of "nat i", unfolded cr])
qed

subsection \<open>Strings\<close>

abbreviation "quote_char \<equiv> CHR 0x22"
abbreviation "escape_char \<equiv> CHR 0x5C"

definition escape :: "char \<Rightarrow> string" where
  "escape c = (if c = quote_char \<or> c = escape_char then [escape_char, c] else [c])"

definition show_str :: "string \<Rightarrow> string" where
  "show_str s = quote_char # concat (map escape s) @ [quote_char]"

fun read_str :: "string \<Rightarrow> (string \<times> string) option" where
  "read_str [] = None"
| "read_str (c # r) =
     (if c = quote_char then Some ([], r)
      else if c = escape_char then
        (case r of [] \<Rightarrow> None | d # r' \<Rightarrow> map_option (apfst (Cons d)) (read_str r'))
      else map_option (apfst (Cons c)) (read_str r))"

lemma read_escaped: "read_str (concat (map escape s) @ quote_char # rest) = Some (s, rest)"
  by (induction s) (auto simp: escape_def)

subsection \<open>Documents\<close>

fun show_json :: "json \<Rightarrow> string" and show_elems :: "json list \<Rightarrow> string"
  and show_members :: "(string \<times> json) list \<Rightarrow> string" where
  "show_json JNull = ''null''"
| "show_json (JBool b) = (if b then ''true'' else ''false'')"
| "show_json (JInt i) = show_int i"
| "show_json (JStr s) = show_str s"
| "show_json (JArr xs) = CHR ''['' # show_elems xs"
| "show_json (JObj ms) = CHR ''{'' # show_members ms"
| "show_elems [] = '']''"
| "show_elems (x # xs) = show_json x @ (if xs = [] then '']'' else CHR '','' # show_elems xs)"
| "show_members [] = ''}''"
| "show_members ((k, x) # ms) =
     show_str k @ CHR '':'' # show_json x @ (if ms = [] then ''}'' else CHR '','' # show_members ms)"

fun read_json :: "nat \<Rightarrow> string \<Rightarrow> (json \<times> string) option"
  and read_elems :: "nat \<Rightarrow> string \<Rightarrow> (json list \<times> string) option"
  and read_members :: "nat \<Rightarrow> string \<Rightarrow> ((string \<times> json) list \<times> string) option" where
  "read_json 0 s = None"
| "read_json (Suc f) s = (case s of
     [] \<Rightarrow> None
   | c # r \<Rightarrow>
       if c = CHR ''n'' then Some (JNull, drop 3 r)
       else if c = CHR ''t'' then Some (JBool True, drop 3 r)
       else if c = CHR ''f'' then Some (JBool False, drop 4 r)
       else if c = quote_char then map_option (apfst JStr) (read_str r)
       else if c = CHR ''['' then
         if take 1 r = '']'' then Some (JArr [], drop 1 r)
         else map_option (apfst JArr) (read_elems f r)
       else if c = CHR ''{'' then
         if take 1 r = ''}'' then Some (JObj [], drop 1 r)
         else map_option (apfst JObj) (read_members f r)
       else if is_digit c \<or> c = CHR ''-'' then Some (apfst JInt (read_int s))
       else None)"
| "read_elems 0 s = None"
| "read_elems (Suc f) s = (case read_json f s of
     None \<Rightarrow> None
   | Some (x, r) \<Rightarrow>
       if take 1 r = '']'' then Some ([x], drop 1 r)
       else if take 1 r = '','' then map_option (apfst (Cons x)) (read_elems f (drop 1 r))
       else None)"
| "read_members 0 s = None"
| "read_members (Suc f) s =
     (if take 1 s \<noteq> [quote_char] then None
      else case read_str (drop 1 s) of
        None \<Rightarrow> None
      | Some (k, r) \<Rightarrow>
          if take 1 r \<noteq> '':'' then None
          else case read_json f (drop 1 r) of
            None \<Rightarrow> None
          | Some (x, r') \<Rightarrow>
              if take 1 r' = ''}'' then Some ([(k, x)], drop 1 r')
              else if take 1 r' = '','' then
                map_option (apfst (Cons (k, x))) (read_members f (drop 1 r'))
              else None)"

definition parse_json :: "string \<Rightarrow> json option" where
  "parse_json s = (case read_json (Suc (length s)) s of
     None \<Rightarrow> None
   | Some (j, rest) \<Rightarrow> if list_all is_blank rest then Some j else None)"

subsection \<open>Reading back what was written\<close>

lemma show_int_first: "\<exists>c r. show_int i = c # r \<and> (is_digit c \<or> c = CHR ''-'')"
proof (cases "i < 0")
  case False
  then show ?thesis using show_nat_digits [of "nat i"]
    by (cases "show_nat (nat i)") (auto simp: show_int_def)
qed (simp add: show_int_def)

lemma show_json_first: "\<exists>c r. show_json j = c # r \<and> c \<noteq> CHR '']''"
  using show_int_first by (cases j) (fastforce simp: show_str_def is_digit_def)+

lemma read_int_json:
  assumes "no_digit rest"
  shows "read_json (Suc f) (show_int i @ rest) = Some (JInt i, rest)"
proof -
  obtain c r where cr: "show_int i = c # r" "is_digit c \<or> c = CHR ''-''"
    using show_int_first by blast
  then have "c \<notin> {CHR ''n'', CHR ''t'', CHR ''f'', quote_char, CHR ''['', CHR ''{''}"
    by (auto simp: is_digit_def)
  with cr read_show_int [OF assms, of i] show ?thesis by simp
qed

lemma read_array_json:
  assumes "xs \<noteq> [] \<Longrightarrow> read_elems f (show_elems xs @ rest) = Some (xs, rest)"
  shows "read_json (Suc f) (show_json (JArr xs) @ rest) = Some (JArr xs, rest)"
proof (cases xs)
  case (Cons x ys)
  then obtain c r where "show_elems xs = c # r" "c \<noteq> CHR '']''"
    using show_json_first [of x] by auto
  moreover have "read_elems f (show_elems xs @ rest) = Some (xs, rest)" using assms Cons by blast
  ultimately show ?thesis by simp
qed simp

lemma read_object_json:
  assumes "ms \<noteq> [] \<Longrightarrow> read_members f (show_members ms @ rest) = Some (ms, rest)"
  shows "read_json (Suc f) (show_json (JObj ms) @ rest) = Some (JObj ms, rest)"
  using assms by (cases ms) (auto simp: show_str_def)

lemma read_elems_step:
  assumes "\<And>r. no_digit r \<Longrightarrow> read_json f (show_json x @ r) = Some (x, r)"
    and "xs \<noteq> [] \<Longrightarrow> read_elems f (show_elems xs @ rest) = Some (xs, rest)"
  shows "read_elems (Suc f) (show_elems (x # xs) @ rest) = Some (x # xs, rest)"
  using assms by (simp add: no_digit_def is_digit_def)

lemma read_members_step:
  assumes "\<And>r. no_digit r \<Longrightarrow> read_json f (show_json x @ r) = Some (x, r)"
    and "ms \<noteq> [] \<Longrightarrow> read_members f (show_members ms @ rest) = Some (ms, rest)"
  shows "read_members (Suc f) (show_members ((k, x) # ms) @ rest) = Some ((k, x) # ms, rest)"
  using assms by (simp add: no_digit_def is_digit_def show_str_def read_escaped)

lemma read_show:
  "length (show_json j) < f \<Longrightarrow> no_digit rest \<Longrightarrow> read_json f (show_json j @ rest) = Some (j, rest)"
  "xs \<noteq> [] \<Longrightarrow> length (show_elems xs) < f \<Longrightarrow> read_elems f (show_elems xs @ rest) = Some (xs, rest)"
  "ms \<noteq> [] \<Longrightarrow> length (show_members ms) < f \<Longrightarrow> read_members f (show_members ms @ rest) = Some (ms, rest)"
proof (induction j and xs and ms arbitrary: f rest and f rest and f rest
    rule: show_json_show_elems_show_members.induct)
  case (3 i)
  then obtain g where "f = Suc g" by (cases f) auto
  with 3 read_int_json show ?case by simp
next
  case (5 xs)
  then obtain g where f: "f = Suc g" by (cases f) auto
  show ?case unfolding f by (rule read_array_json) (use 5 f in simp)
next
  case (6 ms)
  then obtain g where f: "f = Suc g" by (cases f) auto
  show ?case unfolding f by (rule read_object_json) (use 6 f in simp)
next
  case (8 x xs)
  then obtain g where f: "f = Suc g" by (cases f) auto
  show ?case unfolding f
    by (rule read_elems_step) (use 8 f in \<open>auto split: if_splits\<close>)
next
  case (10 k x ms)
  then obtain g where f: "f = Suc g" by (cases f) auto
  show ?case unfolding f
    by (rule read_members_step) (use 10 f in \<open>auto simp: show_str_def split: if_splits\<close>)
qed (auto simp: show_str_def read_escaped gr0_conv_Suc dest!: less_imp_Suc_add)

lemma parse_show_blanks:
  assumes "list_all is_blank ws"
  shows "parse_json (show_json j @ ws) = Some j"
proof -
  have "no_digit ws"
    using assms by (cases ws) (auto simp: no_digit_def is_digit_def is_blank_def)
  then have "read_json (Suc (length (show_json j @ ws))) (show_json j @ ws) = Some (j, ws)"
    by (rule read_show(1) [rotated]) simp
  with assms show ?thesis by (simp add: parse_json_def)
qed

lemma parse_show [simp]: "parse_json (show_json j) = Some j"
  using parse_show_blanks [of "[]" j] by simp

end
