(* ===== verification/RefPlatform.thy ===== *)
theory RefPlatform
  imports Serial JsonText
begin

text \<open>
  A concrete platform: IPv4 and IPv6 addresses, and a serialiser that follows the encoding
  conventions recorded in \<open>doc/protocol-spec-DRAFT.md\<close> (a map is an array of key and value
  pairs, a 64 bit number is an object whose \<open>xint64\<close> member is read back). It interprets the
  locale \<open>serializer\<close>, so that what is assumed of the library holds somewhere, and it is the
  instance at which hypotheses about \<open>ext\<close> are witnessed.
\<close>

subsection \<open>Addresses\<close>

definition ipv4 :: "byte \<Rightarrow> byte \<Rightarrow> byte \<Rightarrow> byte \<Rightarrow> sockaddr_storage" where
  "ipv4 a b c d = \<lparr>ss_family = 2, ss_port = 0, ss_addr = [a, b, c, d]\<rparr>"

definition v4_mapped_prefix :: "byte list" where
  "v4_mapped_prefix = [0, 0, 0, 0, 0, 0, 0, 0, 0, 0, 255, 255]"

definition ref_to_ipv6 :: "sockaddr_storage \<Rightarrow> bool \<times> sockaddr_storage" where
  "ref_to_ipv6 a =
     (if ss_family a = 10 then (True, a)
      else if ss_family a = 2 then
        (True, a\<lparr>ss_family := 10, ss_addr := v4_mapped_prefix @ ss_addr a\<rparr>)
      else (False, a))"

definition ref_isLoopback :: "sockaddr_storage \<Rightarrow> bool" where
  "ref_isLoopback a \<longleftrightarrow>
     (let bs = ss_addr (snd (ref_to_ipv6 a)) in
      take 12 bs = v4_mapped_prefix \<and> take 1 (drop 12 bs) = [127])"

fun dotted :: "string \<Rightarrow> string list" where
  "dotted [] = [[]]"
| "dotted (c # s) =
     (if c = CHR ''.'' then [] # dotted s
      else case dotted s of [] \<Rightarrow> [[c]] | w # ws \<Rightarrow> (c # w) # ws)"

definition ref_pton :: "string \<Rightarrow> sockaddr_storage option" where
  "ref_pton s =
     (if length (dotted s) = 4 \<and> list_all (\<lambda>w. w \<noteq> [] \<and> list_all is_digit w \<and> read_nat w < 256) (dotted s)
      then Some \<lparr>ss_family = 2, ss_port = 0, ss_addr = map (\<lambda>w. of_nat (read_nat w)) (dotted s)\<rparr>
      else None)"

definition ref_ntop :: "sockaddr_storage \<Rightarrow> string" where
  "ref_ntop a = concat (map (\<lambda>b. show_nat (unat b) @ ''.'') (ss_addr a))"

subsection \<open>Documents\<close>

fun json_members :: "json \<Rightarrow> (string \<times> json) list" where
  "json_members (JObj ms) = ms"
| "json_members _ = []"

definition json_add :: "json \<Rightarrow> string \<Rightarrow> json \<Rightarrow> json" where
  "json_add d n v = JObj (json_members d @ [(n, v)])"

definition json_get :: "json \<Rightarrow> string \<Rightarrow> json" where
  "json_get d n = (case map_of (json_members d) n of None \<Rightarrow> JNull | Some v \<Rightarrow> v)"

definition ref_ctx :: "json SerializeContext" where
  "ref_ctx = \<lparr>mOk = True, mJson = JObj []\<rparr>"

definition ref_member :: "('v \<Rightarrow> json) \<Rightarrow> (json \<Rightarrow> 'v option) \<Rightarrow> (json, 'v) member_process" where
  "ref_member enc dec j ctx n v = (case j of
     TO_JSON \<Rightarrow> (ctx\<lparr>mJson := json_add (mJson ctx) n (enc v)\<rparr>, v)
   | FROM_JSON \<Rightarrow> (case map_of (json_members (mJson ctx)) n of
       None \<Rightarrow> (ctx\<lparr>mOk := False\<rparr>, v)
     | Some d \<Rightarrow> (case dec d of None \<Rightarrow> (ctx\<lparr>mOk := False\<rparr>, v) | Some w \<Rightarrow> (ctx, w))))"

fun json_str :: "json \<Rightarrow> string option" where
  "json_str (JStr s) = Some s"
| "json_str _ = None"

fun json_int :: "json \<Rightarrow> int option" where
  "json_int (JInt i) = Some i"
| "json_int _ = None"

definition enc_xint64 :: "int \<Rightarrow> json" where
  "enc_xint64 i = JObj [(''xint64'', JInt i), (''xstr64'', JStr (show_int i))]"

definition dec_xint64 :: "json \<Rightarrow> int option" where
  "dec_xint64 d = json_int (json_get d ''xint64'')"

definition enc_uint :: "u32 \<Rightarrow> json" where
  "enc_uint w = JInt (uint w)"

definition dec_uint :: "json \<Rightarrow> u32 option" where
  "dec_uint d = map_option word_of_int (json_int d)"

definition enc_map :: "(string \<times> json) list \<Rightarrow> json" where
  "enc_map ps = JArr (map (\<lambda>(k, d). JObj [(''key'', JStr k), (''value'', d)]) ps)"

fun json_elems :: "json \<Rightarrow> json list option" where
  "json_elems (JArr xs) = Some xs"
| "json_elems _ = None"

definition dec_entry :: "json \<Rightarrow> (string \<times> json) option" where
  "dec_entry d = (case json_str (json_get d ''key'') of
     None \<Rightarrow> None | Some k \<Rightarrow> Some (k, json_get d ''value''))"

definition ref_map :: "'v \<Rightarrow> (json, 'v) object_process \<Rightarrow> (json, (string, 'v) smap) member_process" where
  "ref_map dflt p j ctx n m = (case j of
     TO_JSON \<Rightarrow>
       (ctx\<lparr>mJson := json_add (mJson ctx) n
          (enc_map (map (\<lambda>(k, e). (k, mJson (fst (p TO_JSON ref_ctx e)))) m))\<rparr>, m)
   | FROM_JSON \<Rightarrow> (case json_elems (json_get (mJson ctx) n) of
       None \<Rightarrow> (ctx\<lparr>mOk := False\<rparr>, [])
     | Some xs \<Rightarrow>
         (ctx, fold (\<lambda>(k, e). smap_put k e)
            (map (\<lambda>(k, d). (k, snd (p FROM_JSON (ref_ctx\<lparr>mJson := d\<rparr>) dflt)))
              (List.map_filter dec_entry xs)) [])))"

text \<open>The element process of the statistics map works on one record; a record list is an array.\<close>

definition ref_list_process :: "'v \<Rightarrow> (json, 'v) object_process \<Rightarrow> (json, 'v list) object_process" where
  "ref_list_process dflt p j ctx vs = (case j of
     TO_JSON \<Rightarrow> (ctx\<lparr>mJson := JArr (map (\<lambda>v. mJson (fst (p TO_JSON ref_ctx v))) vs)\<rparr>, vs)
   | FROM_JSON \<Rightarrow> (case json_elems (mJson ctx) of
       None \<Rightarrow> (ctx\<lparr>mOk := False\<rparr>, vs)
     | Some xs \<Rightarrow> (ctx, map (\<lambda>d. snd (p FROM_JSON (ref_ctx\<lparr>mJson := d\<rparr>) dflt)) xs)))"

definition ref_entry_default :: "json StateEntry" where
  "ref_entry_default = \<lparr>mAuthor = [], mTtl = 0, mData = JNull\<rparr>"

definition ref_ext :: "string \<Rightarrow> json ext" where
  "ref_ext host = \<lparr>
     x_little_endian = True,
     x_stat_file_locking = False,
     x_hostname_file = host,
     x_isLoopbackNet = ref_isLoopback,
     x_isValidNet = (\<lambda>a. fst (ref_to_ipv6 a)),
     x_ipv4_to_ipv6 = ref_to_ipv6,
     x_inet_pton = ref_pton,
     x_ipv4_aton = (\<lambda>s. case ref_pton s of None \<Rightarrow> sockaddr_zero | Some a \<Rightarrow> a),
     x_setport = (\<lambda>a p. a\<lparr>ss_port := p\<rparr>),
     x_iptostring = ref_ntop,
     x_tostring = ref_ntop,
     x_errno_value = (\<lambda>n. n),
     x_data_ne = (\<noteq>),
     x_ctx = ref_ctx,
     x_parse = (\<lambda>bs. case parse_json (string_of_bytes bs) of None \<Rightarrow> JNull | Some d \<Rightarrow> d),
     x_parse_error = (\<lambda>bs. parse_json (string_of_bytes bs) = None),
     x_print = (\<lambda>d. bytes_of_string (show_json d)),
     x_print_pretty = (\<lambda>d. bytes_of_string (show_json d)),
     x_object = JObj [],
     x_add_member = json_add,
     x_get_object = json_members,
     x_member = json_get,
     x_serial_string = ref_member JStr json_str,
     x_serial_int64 = ref_member enc_xint64 dec_xint64,
     x_serial_uint32 = ref_member enc_uint dec_uint,
     x_serial_json = ref_member id Some,
     x_serial_slice = ref_map ref_entry_default,
     x_serial_confs = ref_map DataTypeConf_default,
     x_serial_stats = (\<lambda>p. ref_map [] (ref_list_process NetworkStats_default p))\<rparr>"

subsection \<open>It is a serialiser\<close>

lemma only_member_map_of:
  "filter (\<lambda>m. fst m = n) ms = [(n, v)] \<Longrightarrow> map_of ms n = Some v"
  by (induction ms) (auto split: if_splits)

lemma ref_member_codec:
  assumes "\<And>v. dec (enc v) = Some v"
  shows "member_codec (ref_ext host) (ref_member enc dec) enc"
  using assms by (auto simp: member_codec_def ref_member_def ref_ext_def only_member_def
      dest: only_member_map_of)

lemma fold_put_wf:
  fixes m :: "('k::linorder, 'v) smap"
  assumes "smap_wf m"
  shows "fold (\<lambda>(k, v). smap_put k v) m [] = m"
proof (rule smap_eqI)
  have keywise: "smap_wf (fold (\<lambda>(k, v). smap_put k v) m []) \<and>
      smap_find (fold (\<lambda>(k, v). smap_put k v) m []) k =
        (case map_of m k of None \<Rightarrow> smap_find [] k | Some v \<Rightarrow> Some v)" for k
    by (rule smap.fold_keywise [where step = smap_put and g = "\<lambda>k x _. Some x"])
      (auto simp: smap_wf_put smap_find_put smap_wf_distinct [OF assms])
  show "smap_wf (fold (\<lambda>(k, v). smap_put k v) m [])" using keywise by blast
  show "smap_find (fold (\<lambda>(k, v). smap_put k v) m []) k = smap_find m k" for k
    using keywise [of k] by (simp add: smap_find_def split: option.splits)
qed (rule assms)

lemma dec_enc_entries:
  "List.map_filter dec_entry (map (\<lambda>(k, d). JObj [(''key'', JStr k), (''value'', d)]) ps) = ps"
  by (induction ps) (auto simp: List.map_filter_simps dec_entry_def json_get_def)

lemma ref_map_from:
  assumes "smap_wf m" and "\<forall>(k, e) \<in> set m. snd (p FROM_JSON (ref_ctx\<lparr>mJson := mJson (fst (p TO_JSON ref_ctx e))\<rparr>) dflt) = e"
    and "map_of (json_members (mJson ctx)) n =
      Some (enc_map (map (\<lambda>(k, e). (k, mJson (fst (p TO_JSON ref_ctx e)))) m))"
  shows "ref_map dflt p FROM_JSON ctx n old = (ctx, m)"
proof -
  have "map (\<lambda>(k, d). (k, snd (p FROM_JSON (ref_ctx\<lparr>mJson := d\<rparr>) dflt)))
      (map (\<lambda>(k, e). (k, mJson (fst (p TO_JSON ref_ctx e)))) m) = m"
    using assms(2) by (induction m) auto
  then show ?thesis
    by (simp add: ref_map_def json_get_def assms(3) enc_map_def dec_enc_entries fold_put_wf [OF assms(1)] del: map_map)
qed

lemma ref_slice_from:
  assumes "smap_wf m" and "\<forall>(k, e) \<in> set m. object_codec (ref_ext host) p e"
    and "only_member (ref_ext host) (mJson ctx) n (enc_map (map (\<lambda>(k, e). (k, doc_of (ref_ext host) p e)) m))"
  shows "ref_map dflt p FROM_JSON ctx n old = (ctx, m)"
proof (rule ref_map_from [OF assms(1)])
  show "\<forall>(k, e) \<in> set m.
      snd (p FROM_JSON (ref_ctx\<lparr>mJson := mJson (fst (p TO_JSON ref_ctx e))\<rparr>) dflt) = e"
    using assms(2) by (auto simp: object_codec_def doc_of_def ref_ext_def)
  show "map_of (json_members (mJson ctx)) n =
      Some (enc_map (map (\<lambda>(k, e). (k, mJson (fst (p TO_JSON ref_ctx e)))) m))"
    using assms(3) by (auto simp: only_member_def doc_of_def ref_ext_def dest: only_member_map_of)
qed

lemma fold_put_ordered:
  fixes m :: "('k::linorder, 'v) smap"
  shows "smap_wf m \<Longrightarrow> smap_wf (fold (\<lambda>(k, v). smap_put k v) xs m)"
  by (induction xs arbitrary: m) (auto simp: smap_wf_put)

lemma ref_ordered: "ordered_maps (ref_ext host)"
  by (simp add: ordered_maps_def ref_ext_def ref_map_def fold_put_ordered split: option.split)

lemma char_of_byte_newline: "char_of_byte 10 = CHR 0x0A"
  by (simp add: char_of_byte_def char_of_def bit_0)

interpretation ref: serializer "ref_ext host" JStr enc_xint64 enc_uint id enc_map enc_map
proof unfold_locales
  show "mOk (x_ctx (ref_ext host))" "x_get_object (ref_ext host) (mJson (x_ctx (ref_ext host))) = []"
    by (simp_all add: ref_ext_def ref_ctx_def)
  show "x_get_object (ref_ext host) (x_add_member (ref_ext host) d n v) =
      x_get_object (ref_ext host) d @ [(n, v)]" for d n v
    by (simp add: ref_ext_def json_add_def)
  show "x_parse (ref_ext host) (x_print (ref_ext host) d) = d"
    "\<not> x_parse_error (ref_ext host) (x_print (ref_ext host) d)" for d
    by (simp_all add: ref_ext_def)
  show "x_parse (ref_ext host) (x_print (ref_ext host) d @ [10]) = d"
    "\<not> x_parse_error (ref_ext host) (x_print (ref_ext host) d @ [10])" for d
    using parse_show_blanks [of "[CHR 0x0A]" d]
    by (simp_all add: ref_ext_def char_of_byte_newline is_blank_def)
  show "member_codec (ref_ext host) (x_serial_string (ref_ext host)) JStr"
    using ref_member_codec [of json_str JStr host] by (simp add: ref_ext_def)
  show "member_codec (ref_ext host) (x_serial_int64 (ref_ext host)) enc_xint64"
    using ref_member_codec [of dec_xint64 enc_xint64 host]
    by (simp add: ref_ext_def dec_xint64_def enc_xint64_def json_get_def)
  show "member_codec (ref_ext host) (x_serial_uint32 (ref_ext host)) enc_uint"
    using ref_member_codec [of dec_uint enc_uint host]
    by (simp add: ref_ext_def dec_uint_def enc_uint_def)
  show "member_codec (ref_ext host) (x_serial_json (ref_ext host)) id"
    using ref_member_codec [of Some id host] by (simp add: ref_ext_def)
  show "x_serial_slice (ref_ext host) p TO_JSON ctx n sl =
      (ctx\<lparr>mJson := x_add_member (ref_ext host) (mJson ctx) n
        (enc_map (map (\<lambda>(k, e). (k, doc_of (ref_ext host) p e)) sl))\<rparr>, sl)" for p ctx n sl
    by (simp add: ref_ext_def ref_map_def doc_of_def)
  show "x_serial_confs (ref_ext host) q TO_JSON ctx n cs =
      (ctx\<lparr>mJson := x_add_member (ref_ext host) (mJson ctx) n
        (enc_map (map (\<lambda>(k, c). (k, doc_of (ref_ext host) q c)) cs))\<rparr>, cs)" for q ctx n cs
    by (simp add: ref_ext_def ref_map_def doc_of_def)
qed (simp_all add: ref_slice_from [of _ host, simplified ref_ext_def, folded ref_ext_def] ref_ext_def)

end
