(* ===== verification/NetStats.thy ===== *)
theory NetStats
  imports RefPlatform AwaitableSyscall "HOL-Library.Sublist"
begin

unbundle bit_operations_syntax

text \<open>
  Network statistics (\<open>SharedState::MbitPerSec\<close> in \<open>include/sharedstate.hh\<close>,
  \<open>SharedState::collectStat\<close> in \<open>src/sharedstate.cc\<close>).
\<close>

subsection \<open>Bandwidth\<close>

text \<open>
  \<open>None\<close> is the division by zero of the hardware. The number of bytes, a \<open>ssize_t\<close> shifted by three, is
  far from overflow for the message lengths that the protocol allows.
\<close>

definition MbitPerSec :: "int \<Rightarrow> int \<Rightarrow> int option" where
  "MbitPerSec bytes microseconds =
     (if microseconds = 0 then None else Some (max 1 (cdiv (bytes * 2 ^ 3) microseconds)))"

text \<open>
  The guarded update of a bandwidth field at the end of a transfer that began and ended at the
  given nanosecond ticks: the field's new value, or the old one when the clock did not advance.
\<close>

definition bandwidth :: "int \<Rightarrow> int \<Rightarrow> int \<Rightarrow> u32 \<Rightarrow> u32 option" where
  "bandwidth bytes begin_tp end_tp old =
     (if end_tp > begin_tp
      then map_option word_of_int (MbitPerSec bytes (cdiv (end_tp - begin_tp) 1000))
      else Some old)"

subsection \<open>Collecting\<close>

text \<open>
  Pruning the records of one peer. The difference is computed in \<open>std::size_t\<close>, wraps when there
  are less records than allowed, and is then narrowed to \<open>int\<close>.
\<close>

definition mSkip :: "nat \<Rightarrow> int" where
  "mSkip sz = max (sint (ucast (of_nat sz - ucast SHARED_STATE_NET_STAT_MAX_RECORDS :: u64) :: u32)) 0"

definition prune :: "int \<Rightarrow> NetworkStats list \<Rightarrow> NetworkStats list" where
  "prune tNow peerStats =
     dropWhile (\<lambda>st. tNow - mTS st > SHARED_STATE_NET_STAT_MAX_AGE)
       (drop (nat (mSkip (length peerStats))) peerStats)"

definition add_stat :: "string \<Rightarrow> NetworkStats \<Rightarrow> stat_map \<Rightarrow> stat_map" where
  "add_stat tPeerStr netStat stats =
     smap_put tPeerStr ((case smap_find stats tPeerStr of None \<Rightarrow> [] | Some l \<Rightarrow> l) @ [netStat]) stats"

definition read_stats :: "'j ext \<Rightarrow> sysret \<Rightarrow> stat_map" where
  "read_stats X file =
     (if s_ret file = -1 then []
      else snd (x_serial_stats X (NetworkStats_serial_process X) FROM_JSON
        ((x_ctx X)\<lparr>mJson := x_parse X (s_bytes file)\<rparr>) ''stats'' []))"

definition stats_text :: "'j ext \<Rightarrow> stat_map \<Rightarrow> byte list" where
  "stats_text X stats =
     (case x_serial_stats X (NetworkStats_serial_process X) TO_JSON (x_ctx X) ''stats'' stats of
        (ctx, _) \<Rightarrow> if mOk ctx then x_print X (mJson ctx) @ [10] else [])"

text \<open>
  The part between the locks. When the file cannot be opened for writing the error is reported,
  but the function goes on.
\<close>

definition update_stat_file ::
  "'j ext \<Rightarrow> int \<Rightarrow> string \<Rightarrow> NetworkStats \<Rightarrow> ('j, unit) task" where
  "update_stat_file X tNow tPeerStr netStat =
     co_bind (co_call (ReadFile SHARED_STATE_NET_STAT_FILE_PATH)) (\<lambda>file.
       let stats = smap_map (prune tNow) (add_stat tPeerStr netStat (read_stats X file)) in
       co_bind (co_call (WriteFile SHARED_STATE_NET_STAT_FILE_PATH (stats_text X stats))) (\<lambda>w.
         if s_ret w = -1 then co_fail errc_io_error () else Ret ()))"

definition collectStat :: "'j ext \<Rightarrow> NetworkStats \<Rightarrow> ('j, bool) task" where
  "collectStat X netStat0 =
     (let peer = snd (x_ipv4_to_ipv6 X (mPeer netStat0));
          tPeerStr = x_iptostring X peer
      in co_bind (co_call SteadyClockNow) (\<lambda>clock.
        let tNow = s_ret clock; netStat = netStat0\<lparr>mPeer := peer, mTS := tNow\<rparr> in
        if \<not> x_stat_file_locking X
        then co_then (update_stat_file X tNow tPeerStr netStat) (Ret True)
        else
          co_bind (co_call (SysOpenCreate SHARED_STATE_NET_STAT_FILE_PATH)) (\<lambda>openRet.
            if s_ret openRet = -1 then co_fail (FromErrno (s_errno openRet)) False
            else co_bind (co_call (SysFlockEx (s_ret openRet))) (\<lambda>lock.
              if s_ret lock = -1 then co_fail (FromErrno (s_errno lock)) False
              else co_then (update_stat_file X tNow tPeerStr netStat)
                (co_bind (co_call (SysFlockUn (s_ret openRet))) (\<lambda>unlock.
                  if s_ret unlock = -1 then co_fail (FromErrno (s_errno unlock)) False
                  else co_bind (co_call (SysClose (s_ret openRet))) (\<lambda>c.
                    if s_ret c = -1 then co_fail (FromErrno (s_errno c)) False
                    else Ret True)))))))"

subsection \<open>Pruning\<close>

lemma mSkip_small:
  assumes "n < 2 ^ 31"
  shows "nat (mSkip n) = n - 10"
proof -
  have "(of_nat n - ucast SHARED_STATE_NET_STAT_MAX_RECORDS :: u64) = of_int (int n - 10)"
    by (simp add: SHARED_STATE_NET_STAT_MAX_RECORDS_def)
  then have "sint (ucast (of_nat n - ucast SHARED_STATE_NET_STAT_MAX_RECORDS :: u64) :: u32) =
      sint (of_int (take_bit 64 (int n - 10)) :: u32)"
    by (simp only: unsigned_of_int) simp
  also have "\<dots> = signed_take_bit 31 (take_bit 64 (int n - 10))"
    by (simp only: signed_of_int) simp
  also have "\<dots> = int n - 10"
    using assms by (simp add: signed_take_bit_take_bit signed_take_bit_int_eq_self)
  finally show ?thesis by (simp add: mSkip_def)
qed

lemma prune_suffix: "suffix (prune tNow l) l"
  unfolding prune_def by (meson suffix_dropWhile suffix_drop suffix_order.trans)

lemma prune_length:
  assumes "length l < 2 ^ 31"
  shows "length (prune tNow l) \<le> 10"
  using length_dropWhile_le [of "\<lambda>st. tNow - mTS st > SHARED_STATE_NET_STAT_MAX_AGE" "drop (length l - 10) l"]
  by (simp add: prune_def mSkip_small [OF assms])

lemma prune_last:
  assumes "length l < 2 ^ 31 - 1" and "mTS st = tNow"
  shows "\<exists>l'. prune tNow (l @ [st]) = l' @ [st]"
proof -
  have "prune tNow (l @ [st]) = dropWhile (\<lambda>st. tNow - mTS st > SHARED_STATE_NET_STAT_MAX_AGE)
      (drop (Suc (length l) - 10) l @ [st])"
    using assms(1) by (simp add: prune_def mSkip_small)
  then show ?thesis
    using assms(2) by (auto simp: dropWhile_append SHARED_STATE_NET_STAT_MAX_AGE_def)
qed

text \<open>Records that were collected in order of time are pruned by age completely.\<close>

lemma sorted_dropWhile_young:
  assumes "sorted (map mTS l)" and "st \<in> set (dropWhile (\<lambda>st. tNow - mTS st > a) l)"
  shows "tNow - mTS st \<le> a"
  using assms by (induction l) (auto split: if_splits)

lemma prune_young:
  assumes "sorted (map mTS l)" and "st \<in> set (prune tNow l)"
  shows "tNow - mTS st \<le> SHARED_STATE_NET_STAT_MAX_AGE"
  using sorted_dropWhile_young [OF _ assms(2) [unfolded prune_def]] assms(1)
  by (simp add: sorted_wrt_drop drop_map [symmetric])

definition recorded :: "string \<Rightarrow> string \<Rightarrow> NetworkStats \<Rightarrow> stat_map \<Rightarrow> NetworkStats list" where
  "recorded p key st old = (case smap_find old p of None \<Rightarrow> [] | Some l \<Rightarrow> l) @ (if p = key then [st] else [])"

lemma find_new_stats:
  "smap_find (smap_map (prune tNow) (add_stat key st old)) p =
     (if p = key \<or> smap_find old p \<noteq> None then Some (prune tNow (recorded p key st old)) else None)"
  by (auto simp: smap_find_map add_stat_def smap_find_put recorded_def split: option.split)

lemma recorded_length:
  assumes "\<And>p l. smap_find old p = Some l \<Longrightarrow> length l < 2 ^ 31 - 1"
  shows "length (recorded p key st old) < 2 ^ 31"
  using assms [of p] by (cases "smap_find old p") (fastforce simp: recorded_def)+

subsection \<open>Properties\<close>

text \<open>
  C31. Collecting a record: the process state does not change, and the statistics file is
  rewritten with, for every peer of the old file and the peer of the record, at most ten
  records, the latest ones of what the file held followed by the new one. The new record is
  always there, last in the list of its peer; of records in order of time none older than
  thirty minutes is left.
\<close>

theorem collect_stat_file:
  assumes plain: "\<not> x_stat_file_locking X"
    and clock: "clock = e_call E n SteadyClockNow"
    and stored: "file = e_call E (Suc n) (ReadFile SHARED_STATE_NET_STAT_FILE_PATH)"
    and key: "key = x_iptostring X (snd (x_ipv4_to_ipv6 X (mPeer st)))"
    and st': "st' = st\<lparr>mPeer := snd (x_ipv4_to_ipv6 X (mPeer st)), mTS := s_ret clock\<rparr>"
    and old: "\<And>p l. smap_find (read_stats X file) p = Some l \<Longrightarrow> length l < 2 ^ 31 - 1"
  shows "\<exists>stats written. run E (collectStat X st) n s = (Done True, n + 3, s) \<and>
    trace E (collectStat X st) n s = [(SteadyClockNow, clock),
      (ReadFile SHARED_STATE_NET_STAT_FILE_PATH, file),
      (WriteFile SHARED_STATE_NET_STAT_FILE_PATH (stats_text X stats), written)] \<and>
    (\<forall>p. smap_find stats p \<noteq> None \<longleftrightarrow> p = key \<or> smap_find (read_stats X file) p \<noteq> None) \<and>
    (\<forall>p l. smap_find stats p = Some l \<longrightarrow>
       length l \<le> 10 \<and> suffix l (recorded p key st' (read_stats X file)) \<and>
       (sorted (map mTS (recorded p key st' (read_stats X file))) \<longrightarrow>
         (\<forall>r \<in> set l. s_ret clock - mTS r \<le> SHARED_STATE_NET_STAT_MAX_AGE))) \<and>
    (\<exists>l. smap_find stats key = Some (l @ [st']))"
proof -
  define stats where "stats = smap_map (prune (s_ret clock)) (add_stat key st' (read_stats X file))"
  have find: "smap_find stats p = (if p = key \<or> smap_find (read_stats X file) p \<noteq> None
      then Some (prune (s_ret clock) (recorded p key st' (read_stats X file))) else None)" for p
    unfolding stats_def by (rule find_new_stats)
  have bounds: "length l \<le> 10 \<and> suffix l (recorded p key st' (read_stats X file)) \<and>
      (sorted (map mTS (recorded p key st' (read_stats X file))) \<longrightarrow>
         (\<forall>r \<in> set l. s_ret clock - mTS r \<le> SHARED_STATE_NET_STAT_MAX_AGE))"
    if "smap_find stats p = Some l" for p l
    using that prune_length [OF recorded_length [OF old]] prune_young prune_suffix
    by (fastforce simp: find split: if_splits)
  have "length (case smap_find (read_stats X file) key of None \<Rightarrow> [] | Some l \<Rightarrow> l) < 2 ^ 31 - 1"
    using old [of key] by (auto split: option.split)
  from prune_last [OF this, of st' "s_ret clock"]
  have own: "\<exists>l. smap_find stats key = Some (l @ [st'])"
    by (simp add: find recorded_def st')
  have "run E (collectStat X st) n s = (Done True, n + 3, s) \<and>
      trace E (collectStat X st) n s = [(SteadyClockNow, clock),
        (ReadFile SHARED_STATE_NET_STAT_FILE_PATH, file),
        (WriteFile SHARED_STATE_NET_STAT_FILE_PATH (stats_text X stats),
          e_call E (Suc (Suc n)) (WriteFile SHARED_STATE_NET_STAT_FILE_PATH (stats_text X stats)))]"
    using plain clock stored
    by (simp add: collectStat_def update_stat_file_def Let_def co_simps stats_def key st')
  moreover have "\<forall>p. smap_find stats p \<noteq> None \<longleftrightarrow> p = key \<or> smap_find (read_stats X file) p \<noteq> None"
    by (simp add: find)
  ultimately show ?thesis using bounds own by blast
qed

text \<open>
  The bandwidth estimate of a transfer: eight times the bytes per microsecond, or 1 where that is
  less, narrowed to the 32 bits of the field; but a transfer that took less than a microsecond by the
  clock divides by zero, although the code guards against a clock that does not advance.
\<close>

lemma bandwidth_estimate:
  assumes "0 \<le> bytes"
  shows "bandwidth bytes t0 t1 old =
    (if t1 \<le> t0 then Some old
     else if t1 - t0 < 1000 then None
     else Some (word_of_int (max 1 (8 * bytes div ((t1 - t0) div 1000)))))"
proof (cases "t1 - t0 < 1000")
  case True
  then have "t0 < t1 \<Longrightarrow> cdiv (t1 - t0) 1000 = 0" by (simp add: cdiv_nonneg)
  with True show ?thesis by (simp add: bandwidth_def MbitPerSec_def)
next
  case False
  then have "cdiv (t1 - t0) 1000 = (t1 - t0) div 1000" "0 < (t1 - t0) div 1000"
    by (simp_all add: cdiv_nonneg)
  with False assms show ?thesis
    by (simp add: bandwidth_def MbitPerSec_def cdiv_nonneg mult.commute)
qed

subsection \<open>Witnesses\<close>

definition quiet_env :: "'s env" where
  "quiet_env = \<lparr>e_call = (\<lambda>_ q. case q of ReadFile _ \<Rightarrow> sys_error 2 | _ \<Rightarrow> sys_value 0),
     e_interfere = (\<lambda>_ s. s)\<rparr>"

theorem collect_stat_file_witness:
  "\<forall>s :: json process. \<exists>stats written l.
    run quiet_env (collectStat (ref_ext ''a'') NetworkStats_default) 0 s = (Done True, 3, s) \<and>
    trace quiet_env (collectStat (ref_ext ''a'') NetworkStats_default) 0 s =
      [(SteadyClockNow, sys_value 0), (ReadFile SHARED_STATE_NET_STAT_FILE_PATH, sys_error 2),
       (WriteFile SHARED_STATE_NET_STAT_FILE_PATH (stats_text (ref_ext ''a'') stats), written)] \<and>
    smap_find stats [] = Some (l @ [NetworkStats_default])"
proof
  fix s :: "json process"
  have "read_stats (ref_ext ''a'') (sys_error 2) = []"
    by (simp add: read_stats_def sys_error_def sys_value_def)
  then show "\<exists>stats written l.
    run quiet_env (collectStat (ref_ext ''a'') NetworkStats_default) 0 s = (Done True, 3, s) \<and>
    trace quiet_env (collectStat (ref_ext ''a'') NetworkStats_default) 0 s =
      [(SteadyClockNow, sys_value 0), (ReadFile SHARED_STATE_NET_STAT_FILE_PATH, sys_error 2),
       (WriteFile SHARED_STATE_NET_STAT_FILE_PATH (stats_text (ref_ext ''a'') stats), written)] \<and>
    smap_find stats [] = Some (l @ [NetworkStats_default])"
    using collect_stat_file [where X = "ref_ext ''a''" and st = NetworkStats_default and E = quiet_env
        and n = 0 and s = s, OF _ refl refl refl refl]
    by (fastforce simp: quiet_env_def ref_ext_def ref_ntop_def ref_to_ipv6_def NetworkStats_default_def
        sockaddr_zero_def sys_value_def)
qed

end
