(* ===== verification/WireProtocol.thy ===== *)
theory WireProtocol
  imports NetStats Operations
begin

text \<open>
  The wire protocol (\<open>src/sharedstate.cc\<close>): the version handshake of both sides and the framed
  messages. Variables that are received into are their bytes in memory: a read that ends early
  leaves the rest of the variable as it was, which \<open>fill\<close> says.
\<close>

subsection \<open>Handshake\<close>

definition serverHandShake ::
  "'j ext \<Rightarrow> nat \<Rightarrow> NetworkStats \<Rightarrow> ('j, bool \<times> NetworkStats) task" where
  "serverHandShake X pSocket netStats = (let le = x_little_endian X in
     co_bind (AsyncSocket_recv pSocket 4) (\<lambda>(recvRet, bs).
       if recvRet = -1 then Ret (False, netStats)
       else
         let wireProtoVer = htonl le (load32 le (fill (store32 le 0) bs)) in
         if WIRE_PROTO_VERSION \<noteq> wireProtoVer then co_fail errc_protocol_error (False, netStats)
         else
           co_bind (co_call SteadyClockNow) (\<lambda>verBTP.
           co_bind (AsyncSocket_send pSocket (store32 le (htonl le WIRE_PROTO_VERSION))) (\<lambda>sendRet.
             if sendRet = -1 then Ret (False, netStats)
             else
               co_bind (AsyncSocket_recv pSocket 4) (\<lambda>(recvRet, _).
                 if recvRet = -1 then Ret (False, netStats)
                 else
                   co_bind (co_call SteadyClockNow) (\<lambda>verETP.
                     Ret (True, netStats\<lparr>mRttExt := cdiv (s_ret verETP - s_ret verBTP) 1000\<rparr>)))))))"

definition clientHandShake ::
  "'j ext \<Rightarrow> nat \<Rightarrow> NetworkStats \<Rightarrow> ('j, bool \<times> NetworkStats) task" where
  "clientHandShake X pSocket netStats = (let le = x_little_endian X in
     co_bind (co_call SteadyClockNow) (\<lambda>verBTP.
       let wireProtoVer = store32 le (htonl le WIRE_PROTO_VERSION) in
       co_bind (AsyncSocket_send pSocket wireProtoVer) (\<lambda>sendRet.
         if sendRet = -1 then Ret (False, netStats)
         else
           co_bind (AsyncSocket_recv pSocket 4) (\<lambda>(recvRet, bs).
             if recvRet = -1 then Ret (False, netStats)
             else
               co_bind (co_call SteadyClockNow) (\<lambda>verETP.
                 let wireProtoVer = htonl le (load32 le (fill wireProtoVer bs)) in
                 if WIRE_PROTO_VERSION \<noteq> wireProtoVer
                 then co_fail errc_protocol_error (False, netStats)
                 else
                   co_bind (AsyncSocket_send pSocket (store32 le wireProtoVer)) (\<lambda>sendRet.
                     if sendRet = -1 then Ret (False, netStats)
                     else Ret (True,
                       netStats\<lparr>mRttExt := cdiv (s_ret verETP - s_ret verBTP) 1000\<rparr>)))))))"

subsection \<open>Messages\<close>

text \<open>The update of a bandwidth field; a transfer of less than a microsecond divides by zero.\<close>

definition with_bandwidth ::
  "int \<Rightarrow> int \<Rightarrow> int \<Rightarrow> u32 \<Rightarrow> (u32 \<Rightarrow> ('j, 'a) task) \<Rightarrow> ('j, 'a) task" where
  "with_bandwidth bytes begin_tp end_tp old k = (case bandwidth bytes begin_tp end_tp old of
     None \<Rightarrow> Halt (Trapped DivisionByZero)
   | Some bw \<Rightarrow> k bw)"

definition receiveNetworkMessage ::
  "'j ext \<Rightarrow> nat \<Rightarrow> NetworkStats \<Rightarrow> ('j, int \<times> NetworkMessage \<times> NetworkStats) task" where
  "receiveNetworkMessage X pSocket netStats =
     (let le = x_little_endian X; msg0 = \<lparr>mTypeName = [], mMsgData = []\<rparr> in
      co_bind (co_call SteadyClockNow) (\<lambda>recvBTP.
      co_bind (AsyncSocket_recv pSocket 1) (\<lambda>(ret1, bs1).
        if ret1 = -1 then Ret (-1, msg0, netStats)
        else let dataTypeNameLenght = unat (hd (fill [0] bs1)) in
        if dataTypeNameLenght < 1 \<or> dataTypeNameLenght > DATA_TYPE_NAME_MAX_LENGHT
        then co_fail errc_bad_message (-1, msg0, netStats)
        else
      co_bind (AsyncSocket_recv pSocket dataTypeNameLenght) (\<lambda>(ret2, bs2).
        let msg1 = msg0\<lparr>mTypeName := string_of_bytes (fill (replicate dataTypeNameLenght 0) bs2)\<rparr> in
        if ret2 = -1 then Ret (-1, msg1, netStats)
        else
      co_bind (AsyncSocket_recv pSocket 4) (\<lambda>(ret3, bs3).
        if ret3 = -1 then Ret (-1, msg1, netStats)
        else let dataLenght = unat (htonl le (load32 le (fill (store32 le 0) bs3))) in
        if dataLenght < 2 \<or> dataLenght > DATA_MAX_LENGHT
        then co_fail errc_bad_message (-1, msg1, netStats)
        else
      co_bind (AsyncSocket_recv pSocket dataLenght) (\<lambda>(ret4, bs4).
        let msg2 = msg1\<lparr>mMsgData := fill (replicate dataLenght 0) bs4\<rparr> in
        if ret4 = -1 then Ret (-1, msg2, netStats)
        else let totalReceivedBytes = ret1 + ret2 + ret3 + ret4 in
      co_bind (co_call SteadyClockNow) (\<lambda>recvETP.
      co_bind (AsyncSocket_send pSocket (store32 le (htonl le (word_of_int totalReceivedBytes)))) (\<lambda>sendRet.
        if sendRet = -1 then Ret (-1, msg2, netStats)
        else
          with_bandwidth totalReceivedBytes (s_ret recvBTP) (s_ret recvETP) (mDownBwMbsExt netStats) (\<lambda>bw.
            Ret (totalReceivedBytes, msg2, netStats\<lparr>mDownBwMbsExt := bw\<rparr>))))))))))"

text \<open>The length of the type name is narrowed to one byte, that of the data to four.\<close>

definition sendNetworkMessage ::
  "'j ext \<Rightarrow> nat \<Rightarrow> NetworkMessage \<Rightarrow> NetworkStats \<Rightarrow> ('j, int \<times> NetworkStats) task" where
  "sendNetworkMessage X pSocket netMsg netStats =
     (let le = x_little_endian X in
      co_bind (co_call SteadyClockNow) (\<lambda>sendBTP.
      let dataTypeLen = of_nat (length (mTypeName netMsg)) :: byte in
      co_bind (AsyncSocket_send pSocket [dataTypeLen]) (\<lambda>ret1.
        if ret1 = -1 then Ret (-1, netStats)
        else
      co_bind (AsyncSocket_send pSocket (take (unat dataTypeLen) (bytes_of_string (mTypeName netMsg)))) (\<lambda>ret2.
        if ret2 = -1 then Ret (-1, netStats)
        else
      co_bind (AsyncSocket_send pSocket (store32 le (htonl le (of_nat (length (mMsgData netMsg)))))) (\<lambda>ret3.
        if ret3 = -1 then Ret (-1, netStats)
        else
      co_bind (AsyncSocket_send pSocket (mMsgData netMsg)) (\<lambda>ret4.
        if ret4 = -1 then Ret (-1, netStats)
        else let totalSentBytes = ret1 + ret2 + ret3 + ret4 in
      co_bind (AsyncSocket_recv pSocket 4) (\<lambda>(recvRet, bs).
        if recvRet = -1 then Ret (-1, netStats)
        else
      co_bind (co_call SteadyClockNow) (\<lambda>ackETP.
        let totalAckBytes = htonl le (load32 le (fill (store32 le 0) bs)) in
        if uint totalAckBytes \<noteq> totalSentBytes
        then co_fail errc_message_size (-1, netStats)
        else
          with_bandwidth totalSentBytes (s_ret sendBTP) (s_ret ackETP) (mUpBwMbsExt netStats) (\<lambda>bw.
            Ret (totalSentBytes, netStats\<lparr>mUpBwMbsExt := bw\<rparr>))))))))))"

subsection \<open>What the protocol leaves alone\<close>

lemma keeps_collectStat [keeps]: "co_keeps I (collectStat X st)"
  unfolding collectStat_def update_stat_file_def by (intro keeps)

lemma keeps_with_bandwidth [keeps]:
  "(\<And>bw. co_keeps I (k bw)) \<Longrightarrow> co_keeps I (with_bandwidth b t0 t1 old k)"
  unfolding with_bandwidth_def by (intro keeps)

lemma keeps_protocol [keeps]:
  assumes "io_blind I"
  shows "co_keeps I (clientHandShake X a st)" "co_keeps I (serverHandShake X a st)"
    "co_keeps I (receiveNetworkMessage X a st)" "co_keeps I (sendNetworkMessage X a msg st)"
  unfolding clientHandShake_def serverHandShake_def receiveNetworkMessage_def sendNetworkMessage_def
  by (intro keeps assms)+

end
