(* ===== verification/StateCore.thy ===== *)
theory StateCore
  imports AwaitableSyscall RefPlatform
begin

text \<open>
  The replicated state (\<open>src/sharedstate.cc\<close>): \<open>SharedState::merge\<close> and \<open>SharedState::bleach\<close>,
  with the loop bodies as the code has them, the reference rule that says per key what a merge
  keeps, and the lemmas that the loops implement it.
\<close>

subsection \<open>Merge\<close>

text \<open>
  One iteration of the loop of \<open>merge\<close> over the state and the two counters. The minimum TTL that
  the code computes for an update, \<open>minUpdateTtl\<close>, is not what it compares with; nothing depends on it,
  so that it would overflow for an own entry with the largest 64 bit TTL is left out.
\<close>

definition merge_one ::
  "'j ext \<Rightarrow> bool \<Rightarrow> string \<times> 'j StateEntry \<Rightarrow> 'j state_slice \<times> int \<times> int \<Rightarrow> 'j state_slice \<times> int \<times> int"
where
  "merge_one X isRemote item acc = (case item of (stateKey, sliceEntry) \<Rightarrow>
     case acc of (tState, significantChanges, allChanges) \<Rightarrow>
     case smap_find tState stateKey of
       None \<Rightarrow> (smap_emplace stateKey sliceEntry tState, significantChanges + 1, allChanges + 1)
     | Some knownEntry \<Rightarrow>
         let ownAuthorship = (mAuthor knownEntry = authorPlaceOlder X)
         in if isRemote \<and> ownAuthorship \<and> mTtl sliceEntry > mTtl knownEntry
            then (tState, significantChanges, allChanges)
            else
              let minUpdateTtl =
                    (if isRemote \<and> ownAuthorship then mTtl knownEntry + 1 else mTtl knownEntry)
              in if mTtl sliceEntry \<ge> mTtl knownEntry
                 then
                   let significant = x_data_ne X (mData knownEntry) (mData sliceEntry)
                   in (smap_emplace stateKey sliceEntry (smap_erase stateKey tState),
                       if significant then significantChanges + 1 else significantChanges,
                       allChanges + 1)
                 else (tState, significantChanges, allChanges))"

definition merge_loop ::
  "'j ext \<Rightarrow> bool \<Rightarrow> 'j state_slice \<Rightarrow> 'j state_slice \<Rightarrow> 'j state_slice \<times> int \<times> int" where
  "merge_loop X isRemote stateSlice tState = fold (merge_one X isRemote) stateSlice (tState, 0, 0)"

text \<open>
  \<open>merge\<close> of a slice into the state of a type. A type with a state but without a configuration, which
  \<open>ss_wf\<close> excludes, makes \<open>mTypeConf.at\<close> throw; the model stops there.
\<close>

definition merge ::
  "'j ext \<Rightarrow> string \<Rightarrow> 'j state_slice \<Rightarrow> sockaddr_storage \<Rightarrow> ('j, int) task" where
  "merge X dataTypeName stateSlice peerAddr =
     co_bind co_get (\<lambda>s. case smap_find (mStates s) dataTypeName of
       None \<Rightarrow> co_fail (make_error_condition UNKOWN_DATA_TYPE) (-1)
     | Some tState \<Rightarrow> (case smap_find (mTypeConf s) dataTypeName of
         None \<Rightarrow> Halt (Trapped OutOfRange)
       | Some conf \<Rightarrow>
           let isRemote = (\<not> x_isLoopbackNet X peerAddr)
           in case merge_loop X isRemote stateSlice tState of
                (tState', significantChanges, allChanges) \<Rightarrow>
                  co_then (co_update (\<lambda>s. s\<lparr>mStates := smap_put dataTypeName tState' (mStates s)\<rparr>))
                    (Ret significantChanges)))"

subsection \<open>Bleach\<close>

definition bleach_state :: "int \<Rightarrow> 'j state_slice \<Rightarrow> 'j state_slice" where
  "bleach_state secs tState =
     smap_map (\<lambda>e. e\<lparr>mTtl := mTtl e - secs\<rparr>)
       (smap_erase_if (\<lambda>item. mTtl (snd item) \<le> secs) tState)"

definition bleach_count :: "int \<Rightarrow> 'j state_slice \<Rightarrow> int" where
  "bleach_count secs tState =
     int (length tState) - int (length (smap_erase_if (\<lambda>item. mTtl (snd item) \<le> secs) tState))"

definition bleach :: "string \<Rightarrow> int \<Rightarrow> ('j, int) task" where
  "bleach dataTypeName secs =
     (if secs < 1 then co_fail errc_invalid_argument (-1)
      else co_bind co_get (\<lambda>s. case smap_find (mStates s) dataTypeName of
        None \<Rightarrow> co_fail (make_error_condition UNKOWN_DATA_TYPE) (-1)
      | Some tState \<Rightarrow>
          co_then
            (co_update (\<lambda>s. s\<lparr>mStates := smap_put dataTypeName (bleach_state secs tState) (mStates s)\<rparr>))
            (Ret (bleach_count secs tState))))"

subsection \<open>The reference rule of a merge\<close>

text \<open>
  Whether the received entry replaces the known one, and whether the guard against a remote
  copy of an own entry rejects it.
\<close>

definition echo_rejected :: "'j ext \<Rightarrow> bool \<Rightarrow> 'j StateEntry \<Rightarrow> 'j StateEntry \<Rightarrow> bool" where
  "echo_rejected X isRemote known new \<longleftrightarrow>
     isRemote \<and> mAuthor known = authorPlaceOlder X \<and> mTtl known < mTtl new"

definition accepts :: "'j ext \<Rightarrow> bool \<Rightarrow> 'j StateEntry \<Rightarrow> 'j StateEntry \<Rightarrow> bool" where
  "accepts X isRemote known new \<longleftrightarrow>
     mTtl known \<le> mTtl new \<and> \<not> echo_rejected X isRemote known new"

definition merge_rule ::
  "'j ext \<Rightarrow> bool \<Rightarrow> 'j StateEntry \<Rightarrow> 'j StateEntry option \<Rightarrow> 'j StateEntry option" where
  "merge_rule X isRemote new known = (case known of
     None \<Rightarrow> Some new
   | Some old \<Rightarrow> Some (if accepts X isRemote old new then new else old))"

definition significant :: "'j ext \<Rightarrow> bool \<Rightarrow> 'j StateEntry \<Rightarrow> 'j StateEntry option \<Rightarrow> bool" where
  "significant X isRemote new known = (case known of
     None \<Rightarrow> True
   | Some old \<Rightarrow> accepts X isRemote old new \<and> x_data_ne X (mData old) (mData new))"

text \<open>The state a merge leaves, and the state as a function of keys.\<close>

definition merged :: "'j ext \<Rightarrow> bool \<Rightarrow> 'j state_slice \<Rightarrow> 'j state_slice \<Rightarrow> 'j state_slice" where
  "merged X isRemote sl tState = fst (merge_loop X isRemote sl tState)"

definition merge_put :: "'j ext \<Rightarrow> bool \<Rightarrow> string \<Rightarrow> 'j StateEntry \<Rightarrow> 'j state_slice \<Rightarrow> 'j state_slice"
where
  "merge_put X isRemote k new t = fst (merge_one X isRemote (k, new) (t, 0, 0))"

lemma merge_one_counts:
  "merge_one X isRemote (k, new) (t, m, n) =
    (merge_put X isRemote k new t,
     m + (if significant X isRemote new (smap_find t k) then 1 else 0),
     n + (case smap_find t k of None \<Rightarrow> 1
          | Some old \<Rightarrow> if accepts X isRemote old new then 1 else 0))"
proof (cases "smap_find t k")
  case None
  then show ?thesis by (simp add: merge_put_def merge_one_def significant_def)
next
  case (Some old)
  then show ?thesis
    by (simp add: merge_put_def merge_one_def significant_def accepts_def echo_rejected_def Let_def)
qed

lemma merge_put_spec:
  assumes "smap_wf t"
  shows "smap_wf (merge_put X isRemote k new t) \<and>
    smap_find (merge_put X isRemote k new t) =
      (smap_find t)(k := merge_rule X isRemote new (smap_find t k))"
  unfolding merge_put_def merge_one_def accepts_def echo_rejected_def merge_rule_def
  using assms
  by (auto simp: Let_def smap_erase_emplace smap_find_put smap_find_emplace smap_wf_put
      smap_wf_emplace fun_eq_iff split: option.split)

lemma fold_merge_one:
  assumes "smap_wf t"
  shows "fst (fold (merge_one X isRemote) xs (t, m, n)) =
    fold (\<lambda>(k, e). merge_put X isRemote k e) xs t"
  using assms
proof (induction xs arbitrary: t m n)
  case (Cons p xs)
  obtain k e where p: "p = (k, e)" by (cases p)
  show ?case
    using Cons.IH merge_put_spec [OF Cons.prems, of X isRemote k e]
    by (simp add: p merge_one_counts)
qed simp

text \<open>The loop acts key by key, by the rule.\<close>

lemma merged_spec:
  assumes "smap_wf sl" and "smap_wf t"
  shows "smap_wf (merged X isRemote sl t) \<and>
    smap_find (merged X isRemote sl t) k =
      (case smap_find sl k of
         None \<Rightarrow> smap_find t k
       | Some new \<Rightarrow> merge_rule X isRemote new (smap_find t k))"
  using smap.fold_keywise [where step = "merge_put X isRemote"
      and g = "\<lambda>k new known. merge_rule X isRemote new known", OF merge_put_spec
      smap_wf_distinct [OF assms(1)] assms(2)]
  by (simp add: merged_def merge_loop_def fold_merge_one assms smap_find_def)

lemma merged_wf: "smap_wf sl \<Longrightarrow> smap_wf t \<Longrightarrow> smap_wf (merged X isRemote sl t)"
  by (simp add: merged_spec)

lemma find_merged [map_simps]:
  "smap_wf sl \<Longrightarrow> smap_wf t \<Longrightarrow>
   smap_find (merged X isRemote sl t) k =
     (case smap_find sl k of
        None \<Rightarrow> smap_find t k
      | Some new \<Rightarrow> merge_rule X isRemote new (smap_find t k))"
  by (simp add: merged_spec)

text \<open>The counter the code returns: the received entries that were new or changed the data.\<close>

definition merge_changes :: "'j ext \<Rightarrow> bool \<Rightarrow> 'j state_slice \<Rightarrow> 'j state_slice \<Rightarrow> int" where
  "merge_changes X isRemote sl t =
     int (length (filter (\<lambda>(k, e). significant X isRemote e (smap_find t k)) sl))"

lemma fold_merge_count:
  assumes "smap_wf t" and "distinct (map fst xs)"
  shows "fst (snd (fold (merge_one X isRemote) xs (t, m, n))) =
    m + int (length (filter (\<lambda>(k, e). significant X isRemote e (smap_find t k)) xs))"
  using assms
proof (induction xs arbitrary: t m n)
  case (Cons p xs)
  obtain k e where p: "p = (k, e)" by (cases p)
  let ?t = "merge_put X isRemote k e t"
  have t: "smap_wf ?t" "smap_find ?t = (smap_find t)(k := merge_rule X isRemote e (smap_find t k))"
    using merge_put_spec [OF Cons.prems(1)] by auto
  have "filter (\<lambda>(k, e). significant X isRemote e (smap_find ?t k)) xs =
        filter (\<lambda>(k, e). significant X isRemote e (smap_find t k)) xs"
  proof (rule filter_cong [OF refl])
    fix x assume x: "x \<in> set xs"
    obtain a b where ab: "x = (a, b)" by (cases x)
    with x Cons.prems(2) p have "a \<noteq> k" by force
    with ab show "(case x of (k, e) \<Rightarrow> significant X isRemote e (smap_find ?t k)) =
        (case x of (k, e) \<Rightarrow> significant X isRemote e (smap_find t k))"
      by (simp add: t(2))
  qed
  with Cons.IH [OF t(1)] Cons.prems(2) show ?case
    by (simp add: p merge_one_counts)
qed simp

lemma merge_loop_eq:
  assumes "smap_wf sl" and "smap_wf t"
  obtains n where "merge_loop X isRemote sl t = (merged X isRemote sl t, merge_changes X isRemote sl t, n)"
proof -
  have "fst (snd (merge_loop X isRemote sl t)) = merge_changes X isRemote sl t"
    unfolding merge_loop_def merge_changes_def
    by (simp add: fold_merge_count [OF assms(2) smap_wf_distinct [OF assms(1)]])
  then show ?thesis
    using that by (metis merged_def prod.collapse)
qed

subsection \<open>The rule, key by key\<close>

lemma merge_rule_keeps: "merge_rule X isRemote new known \<noteq> None"
  by (simp add: merge_rule_def split: option.split)

lemma merge_rule_ttl:
  "known = Some old \<Longrightarrow> merge_rule X isRemote new known = Some e \<Longrightarrow> mTtl old \<le> mTtl e"
  by (auto simp: merge_rule_def accepts_def split: if_splits)

lemma merge_rule_own:
  "mAuthor old = authorPlaceOlder X \<Longrightarrow> merge_rule X True new (Some old) = Some e \<Longrightarrow> mTtl e = mTtl old"
  by (auto simp: merge_rule_def accepts_def echo_rejected_def split: if_splits)


subsection \<open>Bleaching, key by key\<close>

definition bleach_rule :: "int \<Rightarrow> 'j StateEntry option \<Rightarrow> 'j StateEntry option" where
  "bleach_rule secs known = (case known of
     None \<Rightarrow> None
   | Some e \<Rightarrow> if mTtl e \<le> secs then None else Some (e\<lparr>mTtl := mTtl e - secs\<rparr>))"

lemma bleach_wf: "smap_wf t \<Longrightarrow> smap_wf (bleach_state secs t)"
  by (simp add: bleach_state_def smap_wf_erase_if)

lemma find_bleach [map_simps]:
  "smap_wf t \<Longrightarrow> smap_find (bleach_state secs t) k = bleach_rule secs (smap_find t k)"
  by (simp add: bleach_state_def bleach_rule_def smap_find_map smap_find_erase_if split: option.split)

lemma bleach_rule_add:
  "0 \<le> a \<Longrightarrow> 0 \<le> b \<Longrightarrow> bleach_rule b (bleach_rule a known) = bleach_rule (a + b) known"
  by (auto simp: bleach_rule_def split: option.split)

lemma bleach_merge_rule:
  "bleach_rule t (merge_rule X False new known) =
     (case bleach_rule t (Some new) of
        None \<Rightarrow> bleach_rule t known
      | Some new' \<Rightarrow> merge_rule X False new' (bleach_rule t known))"
  by (auto simp: bleach_rule_def merge_rule_def accepts_def echo_rejected_def split: option.split)

subsection \<open>The invariant of the state\<close>

text \<open>
  Every map is ordered, and every type that has a state has a configuration, which \<open>merge\<close>
  relies on when it calls \<open>mTypeConf.at\<close>.
\<close>

definition ss_wf :: "'j process \<Rightarrow> bool" where
  "ss_wf s \<longleftrightarrow> smap_wf (mStates s) \<and> smap_wf (mTypeConf s) \<and>
     (\<forall>ty t. smap_find (mStates s) ty = Some t \<longrightarrow>
        smap_wf t \<and> smap_find (mTypeConf s) ty \<noteq> None)"

lemma ss_wf_state: "ss_wf s \<Longrightarrow> smap_find (mStates s) ty = Some t \<Longrightarrow> smap_wf t"
  by (auto simp: ss_wf_def)

lemma ss_wf_conf:
  "ss_wf s \<Longrightarrow> smap_find (mStates s) ty = Some t \<Longrightarrow> \<exists>c. smap_find (mTypeConf s) ty = Some c"
  by (auto simp: ss_wf_def)

lemma ss_wf_put_state:
  "ss_wf s \<Longrightarrow> smap_find (mStates s) ty = Some t \<Longrightarrow> smap_wf t' \<Longrightarrow>
   ss_wf (s\<lparr>mStates := smap_put ty t' (mStates s)\<rparr>)"
  unfolding ss_wf_def by (auto simp: smap_wf_put smap_find_put)

lemma merge_run:
  assumes "ss_wf s" and "smap_wf sl" and "smap_find (mStates s) ty = Some t"
  shows "run E (merge X ty sl peer) n s =
    (Done (merge_changes X (\<not> x_isLoopbackNet X peer) sl t), n,
     s\<lparr>mStates := smap_put ty (merged X (\<not> x_isLoopbackNet X peer) sl t) (mStates s)\<rparr>)"
proof -
  obtain c where "smap_find (mTypeConf s) ty = Some c" using ss_wf_conf assms by blast
  moreover obtain m where "merge_loop X (\<not> x_isLoopbackNet X peer) sl t =
      (merged X (\<not> x_isLoopbackNet X peer) sl t, merge_changes X (\<not> x_isLoopbackNet X peer) sl t, m)"
    using merge_loop_eq assms ss_wf_state by blast
  ultimately show ?thesis using assms(3) by (simp add: merge_def co_simps)
qed

lemma keeps_merge [keeps]: "smap_wf sl \<Longrightarrow> co_keeps (\<lambda>_. ss_wf) (merge X ty sl peer)"
  unfolding co_keeps_def merge_def
  by (auto simp: co_defs merged_wf ss_wf_state split: option.split prod.split
      intro!: ss_wf_put_state dest!: arg_cong [where f = fst] simp flip: merged_def)

lemma keeps_bleach [keeps]: "co_keeps (\<lambda>_. ss_wf) (bleach ty secs)"
  unfolding co_keeps_def bleach_def
  by (auto simp: co_defs bleach_wf ss_wf_state split: option.split intro!: ss_wf_put_state)

subsection \<open>Properties\<close>

text \<open>
  C9. A merge of a received slice into the state of a registered type: it runs to completion
  without waiting, leaves every other type and every other member alone, and key by key keeps
  the known entry, or takes the received one when the key is new or the received TTL is at
  least the known one and the entry is not a remote copy of an own entry with a higher TTL.
  It returns the number of received entries that were new or were accepted with other data.
\<close>

theorem merge_keywise:
  assumes "ss_wf s" and "smap_wf sl" and "smap_find (mStates s) ty = Some t"
  shows "\<exists>t'. run E (merge X ty sl peer) n s =
      (Done (int (length (filter
          (\<lambda>(k, e). significant X (\<not> x_isLoopbackNet X peer) e (smap_find t k)) sl))), n,
       s\<lparr>mStates := smap_put ty t' (mStates s)\<rparr>) \<and>
    smap_wf t' \<and>
    (\<forall>k. smap_find t' k =
       (case smap_find sl k of
          None \<Rightarrow> smap_find t k
        | Some new \<Rightarrow> merge_rule X (\<not> x_isLoopbackNet X peer) new (smap_find t k)))"
  using merge_run [OF assms, of E X peer n] assms
  by (auto simp: merge_changes_def merged_wf find_merged ss_wf_state
      intro!: exI [of _ "merged X (\<not> x_isLoopbackNet X peer) sl t"])

text \<open>
  C12. Two replicas in one synchronisation round: the server merges the client's state, the
  client merges what the server holds then. For each key the two agree afterwards exactly when
  neither side rejected the other's entry as an echo of its own with a higher TTL.
\<close>

theorem sync_round_agreement:
  assumes "smap_wf A" and "smap_wf B" and "B' = fst (merge_loop XB remoteB A B)"
    and "A' = fst (merge_loop XA remoteA B' A)"
  shows "smap_find A' k = smap_find B' k \<longleftrightarrow>
    \<not> (\<exists>a b. smap_find A k = Some a \<and> smap_find B k = Some b \<and>
        (echo_rejected XB remoteB b a \<or> echo_rejected XA remoteA a b))"
proof -
  have B': "B' = merged XB remoteB A B" and A': "A' = merged XA remoteA B' A"
    by (simp_all add: assms(3,4) merged_def)
  have wfB': "smap_wf B'" using assms(1,2) by (simp add: B' merged_wf)
  have "smap_find B' k = (case smap_find A k of None \<Rightarrow> smap_find B k
      | Some new \<Rightarrow> merge_rule XB remoteB new (smap_find B k))"
    by (simp add: B' find_merged assms(1,2))
  moreover have "smap_find A' k = (case smap_find B' k of None \<Rightarrow> smap_find A k
      | Some new \<Rightarrow> merge_rule XA remoteA new (smap_find A k))"
    by (simp add: A' find_merged assms(1) wfB')
  ultimately show ?thesis
    by (cases "smap_find A k"; cases "smap_find B k")
      (auto simp: merge_rule_def accepts_def echo_rejected_def)
qed

text \<open>
  C16. Nothing a remote peer sends changes the TTL of an entry this node authored and holds.
\<close>

theorem remote_merge_own_ttl:
  assumes "smap_wf sl" and "smap_wf t" and "smap_find t k = Some old"
    and "mAuthor old = authorPlaceOlder X"
  shows "\<exists>e. smap_find (fst (merge_loop X True sl t)) k = Some e \<and> mTtl e = mTtl old"
proof -
  have *: "smap_find (merged X True sl t) k =
      (case smap_find sl k of None \<Rightarrow> Some old | Some new \<Rightarrow> merge_rule X True new (Some old))"
    by (simp add: find_merged assms(1-3) split: option.split)
  show ?thesis
  proof (cases "smap_find sl k")
    case None
    with * show ?thesis by (simp add: merged_def)
  next
    case (Some new)
    obtain e where "merge_rule X True new (Some old) = Some e"
      using merge_rule_keeps [of X True new "Some old"] by blast
    with * Some merge_rule_own [OF assms(4) this] show ?thesis by (simp add: merged_def)
  qed
qed

text \<open>
  C17. A merge removes no key and lowers no TTL, whoever sends it.
\<close>

theorem merge_monotone:
  assumes "smap_wf sl" and "smap_wf t" and "smap_find t k = Some old"
  shows "\<exists>e. smap_find (fst (merge_loop X isRemote sl t)) k = Some e \<and> mTtl old \<le> mTtl e"
proof -
  have *: "smap_find (merged X isRemote sl t) k =
      (case smap_find sl k of None \<Rightarrow> Some old | Some new \<Rightarrow> merge_rule X isRemote new (Some old))"
    by (simp add: find_merged assms(1-3) split: option.split)
  show ?thesis
  proof (cases "smap_find sl k")
    case None
    with * show ?thesis by (simp add: merged_def)
  next
    case (Some new)
    obtain e where "merge_rule X isRemote new (Some old) = Some e"
      using merge_rule_keeps [of X isRemote new "Some old"] by blast
    with * Some merge_rule_ttl [OF refl this] show ?thesis by (simp add: merged_def)
  qed
qed


lemma bleach_run:
  assumes "1 \<le> secs" and "smap_find (mStates s) ty = Some t"
  shows "run E (bleach ty secs) n s =
    (Done (bleach_count secs t), n, s\<lparr>mStates := smap_put ty (bleach_state secs t) (mStates s)\<rparr>)"
  using assms by (simp add: bleach_def co_simps)

lemma bleach_count_expired:
  "bleach_count secs t = int (length (filter (\<lambda>(k, e). mTtl e \<le> secs) t))"
  using sum_length_filter_compl [of "\<lambda>(k, e). mTtl e \<le> secs" t]
  by (simp add: bleach_count_def smap_erase_if_def case_prod_beta)

lemma fold_bleach:
  "smap_wf t \<Longrightarrow> xs \<noteq> [] \<Longrightarrow> \<forall>x \<in> set xs. 1 \<le> x \<Longrightarrow>
   smap_wf (fold bleach_state xs t) \<and>
   smap_find (fold bleach_state xs t) k = bleach_rule (sum_list xs) (smap_find t k)"
proof (induction xs arbitrary: t)
  case (Cons x xs)
  show ?case
  proof (cases "xs = []")
    case True
    with Cons.prems show ?thesis by (simp add: bleach_wf find_bleach)
  next
    case False
    moreover from Cons.prems False have "0 \<le> sum_list xs"
      by (intro sum_list_nonneg) auto
    ultimately show ?thesis
      using Cons.IH [OF bleach_wf [OF Cons.prems(1), of x]] Cons.prems
      by (simp add: find_bleach bleach_rule_add)
  qed
qed simp

text \<open>
  C19. Bleaching a type: it returns the number of entries whose TTL is used up and removes
  exactly those; every other entry keeps its author and data, and its TTL goes down by the
  elapsed seconds, stays positive and never leaves the range of a 64 bit integer.
\<close>

theorem bleach_keywise:
  assumes "ss_wf s" and "smap_find (mStates s) ty = Some t" and "1 \<le> secs"
    and "\<forall>(k, e) \<in> set t. int64_range (mTtl e)"
  shows "\<exists>t'. run E (bleach ty secs) n s =
      (Done (int (length (filter (\<lambda>(k, e). mTtl e \<le> secs) t))), n,
       s\<lparr>mStates := smap_put ty t' (mStates s)\<rparr>) \<and>
    smap_wf t' \<and>
    (\<forall>k. smap_find t' k =
       (case smap_find t k of
          None \<Rightarrow> None
        | Some e \<Rightarrow> if mTtl e \<le> secs then None else Some (e\<lparr>mTtl := mTtl e - secs\<rparr>))) \<and>
    (\<forall>k e. smap_find t' k = Some e \<longrightarrow> 1 \<le> mTtl e \<and> int64_range (mTtl e))"
proof (intro exI conjI allI impI)
  have t: "smap_wf t" using ss_wf_state assms by blast
  show "run E (bleach ty secs) n s =
      (Done (int (length (filter (\<lambda>(k, e). mTtl e \<le> secs) t))), n,
       s\<lparr>mStates := smap_put ty (bleach_state secs t) (mStates s)\<rparr>)"
    by (simp add: bleach_run assms bleach_count_expired)
  show "smap_wf (bleach_state secs t)" by (rule bleach_wf [OF t])
  show "smap_find (bleach_state secs t) k = (case smap_find t k of None \<Rightarrow> None
      | Some e \<Rightarrow> if mTtl e \<le> secs then None else Some (e\<lparr>mTtl := mTtl e - secs\<rparr>))" for k
    by (simp add: find_bleach t bleach_rule_def)
  fix k e assume "smap_find (bleach_state secs t) k = Some e"
  then obtain e0 where "smap_find t k = Some e0" "secs < mTtl e0" "e = e0\<lparr>mTtl := mTtl e0 - secs\<rparr>"
    by (auto simp: find_bleach t bleach_rule_def split: option.splits if_splits)
  moreover from this assms(4) have "int64_range (mTtl e0)" by (auto dest: smap_find_Some_in)
  ultimately show "1 \<le> mTtl e" "int64_range (mTtl e)"
    using assms(3) by (auto simp: int64_range_def)
qed

text \<open>
  How often the bleach loop gets to run does not matter: bleaching for a number of periods,
  one after the other, leaves for every key what one bleach for their sum leaves. In particular
  an entry is gone exactly when the elapsed seconds reach its TTL.
\<close>

lemma bleach_sequence:
  assumes "smap_wf t" and "xs \<noteq> []" and "\<forall>x \<in> set xs. 1 \<le> x"
  shows "fold bleach_state xs t = bleach_state (sum_list xs) t \<and>
    (\<forall>k e. smap_find t k = Some e \<longrightarrow>
       (smap_find (fold bleach_state xs t) k = None \<longleftrightarrow> mTtl e \<le> sum_list xs))"
proof -
  have "fold bleach_state xs t = bleach_state (sum_list xs) t"
    by (rule smap_eqI) (simp_all add: fold_bleach assms bleach_wf find_bleach)
  then show ?thesis by (auto simp: find_bleach assms(1) bleach_rule_def)
qed

text \<open>
  C20. Time and gossip commute: two nodes that let the same time pass and then merge hold the
  same state as if they had merged first, as long as no entry is rejected as an echo of an own
  one (a client on the local host, or a state without own entries).
\<close>

theorem bleach_merge_commute:
  assumes "smap_wf sl" and "smap_wf t"
    and "\<And>k e. isRemote \<Longrightarrow> smap_find t k = Some e \<Longrightarrow> mAuthor e \<noteq> authorPlaceOlder X"
  shows "bleach_state secs (fst (merge_loop X isRemote sl t)) =
    fst (merge_loop X isRemote (bleach_state secs sl) (bleach_state secs t))"
proof -
  let ?sl = "bleach_state secs sl" and ?t = "bleach_state secs t"
  have rule: "merge_rule X isRemote new (smap_find t k) = merge_rule X False new (smap_find t k)"
      "merge_rule X isRemote new (bleach_rule secs (smap_find t k)) =
       merge_rule X False new (bleach_rule secs (smap_find t k))" for new k
    using assms(3) [of k]
    by (auto simp: merge_rule_def accepts_def echo_rejected_def bleach_rule_def split: option.split)
  have "bleach_state secs (merged X isRemote sl t) = merged X isRemote ?sl ?t"
  proof (rule smap_eqI)
    show "smap_find (bleach_state secs (merged X isRemote sl t)) k = smap_find (merged X isRemote ?sl ?t) k" for k
    proof (cases "smap_find sl k")
      case None
      then show ?thesis
        by (simp add: find_bleach find_merged merged_wf bleach_wf assms(1,2) bleach_rule_def)
    next
      case (Some new)
      then show ?thesis
        by (simp add: find_bleach find_merged merged_wf bleach_wf assms(1,2) rule bleach_merge_rule
            split: option.split)
    qed
  qed (simp_all add: merged_wf bleach_wf assms(1,2))
  then show ?thesis by (simp add: merged_def)
qed

text \<open>
  C36. The comment in \<open>merge\<close> says that own entries are not overwritten by remote peers when the
  TTL is equal. The code does overwrite them: the own entry is replaced by whatever data the
  remote copy carries.
\<close>

theorem equal_ttl_echo_overwrites:
  assumes "smap_wf sl" and "smap_wf t"
    and "smap_find t k = Some own" and "mAuthor own = authorPlaceOlder X"
    and "smap_find sl k = Some echo" and "mTtl echo = mTtl own"
  shows "smap_find (fst (merge_loop X True sl t)) k = Some echo"
proof -
  have "smap_find (merged X True sl t) k = merge_rule X True echo (Some own)"
    using assms by (simp add: find_merged)
  with assms(6) show ?thesis
    by (simp add: merged_def merge_rule_def accepts_def echo_rejected_def)
qed

text \<open>
  A data type that is not registered: \<open>merge\<close> and \<open>bleach\<close> report the condition of the
  program's own category, return \<open>-1\<close> and change nothing; so does \<open>bleach\<close> for less than one
  second, with \<open>invalid_argument\<close>.
\<close>

lemma unknown_type_errors:
  assumes "smap_find (mStates s) ty = None" and "1 \<le> secs" and "early < 1"
  shows "run E (with_errc (merge X ty sl peer) None) n s =
      (Done (-1, Some (SharedStateCond 2000)), n, s) \<and>
    run E (with_errc (bleach ty secs) None) n s = (Done (-1, Some (SharedStateCond 2000)), n, s) \<and>
    run E (with_errc (bleach ty' early) None) n s = (Done (-1, Some (Errc 22)), n, s)"
  using assms by (simp add: merge_def bleach_def co_simps make_error_condition_def)

subsection \<open>Witnesses\<close>

definition demo_entry :: "string \<Rightarrow> int \<Rightarrow> int \<Rightarrow> json StateEntry" where
  "demo_entry author ttl n = \<lparr>mAuthor = author, mTtl = ttl, mData = JInt n\<rparr>"

definition demo_conf :: DataTypeConf where
  "demo_conf = \<lparr>mName = ''T'', mScope = ''community'', mUpdateInterval = 30, mBleachTTL = 300\<rparr>"

definition idle_io :: iocontext where
  "idle_io = \<lparr>mEpollFD = 3, mManagedFD = [], aheap = (\<lambda>_. None), next_address = 0\<rparr>"

definition demo_process :: "json state_slice \<Rightarrow> json process" where
  "demo_process t = \<lparr>mStates = [(''T'', t)], mTypeConf = [(''T'', demo_conf)], isPeer = True,
     mIoContext = idle_io, sigpipe_ignored = True, running = 0\<rparr>"

definition demo_env :: "'s env" where
  "demo_env = \<lparr>e_call = (\<lambda>_ _. sys_value 0), e_interfere = (\<lambda>_ s. s)\<rparr>"

lemma demo_env_answer: "e_call demo_env i q = sys_value 0"
  by (simp add: demo_env_def)

abbreviation "demo_mine \<equiv> [(''k'', demo_entry ''a'' 5 1), (''m'', demo_entry ''b'' 9 2)]"
abbreviation "demo_theirs \<equiv> [(''k'', demo_entry ''a'' 5 7), (''n'', demo_entry ''c'' 3 4)]"

lemma demo_host: "authorPlaceOlder (ref_ext ''a'') = ''a''" "authorPlaceOlder (ref_ext ''b'') = ''b''"
  by (simp_all add: authorPlaceOlder_def ref_ext_def is_blank_def)

lemma demo_wf: "smap_wf demo_mine" "smap_wf demo_theirs"
  by (simp_all add: smap_wf_def less_char_def)

lemma demo_process_wf: "smap_wf t \<Longrightarrow> ss_wf (demo_process t)"
  by (auto simp: ss_wf_def demo_process_def smap_wf_def smap_find_def)

lemma demo_process_find: "smap_find (mStates (demo_process t)) ''T'' = Some t"
  by (simp add: demo_process_def smap_find_def)

lemma demo_loopback: "\<not> x_isLoopbackNet (ref_ext ''a'') (ipv4 10 0 0 1)"
  by (simp add: ref_ext_def ref_isLoopback_def ref_to_ipv6_def ipv4_def v4_mapped_prefix_def)

theorem merge_keywise_witness:
  "\<exists>t'. run demo_env (merge (ref_ext ''a'') ''T'' demo_theirs (ipv4 10 0 0 1)) 0 (demo_process demo_mine) =
      (Done 2, 0, (demo_process demo_mine)\<lparr>mStates := smap_put ''T'' t' [(''T'', demo_mine)]\<rparr>) \<and>
    smap_find t' ''k'' = Some (demo_entry ''a'' 5 7) \<and> smap_find t' ''m'' = Some (demo_entry ''b'' 9 2)"
proof -
  have "length (filter (\<lambda>(k, e). significant (ref_ext ''a'') True e (smap_find demo_mine k)) demo_theirs) = 2"
    by (simp add: significant_def smap_find_def accepts_def echo_rejected_def demo_entry_def ref_ext_def)
  moreover have "mStates (demo_process demo_mine) = [(''T'', demo_mine)]"
    by (simp add: demo_process_def)
  ultimately show ?thesis
    using merge_keywise [OF demo_process_wf [OF demo_wf(1)] demo_wf(2) demo_process_find,
        of demo_env "ref_ext ''a''" "ipv4 10 0 0 1" 0]
    by (auto simp: demo_loopback smap_find_def merge_rule_def accepts_def echo_rejected_def
        demo_entry_def)
qed

theorem sync_round_agreement_witness:
  "smap_find (fst (merge_loop (ref_ext ''b'') True
      (fst (merge_loop (ref_ext ''a'') True demo_mine demo_theirs)) demo_mine)) ''k'' =
   smap_find (fst (merge_loop (ref_ext ''a'') True demo_mine demo_theirs)) ''k''"
  unfolding sync_round_agreement [OF demo_wf refl refl]
  by (simp add: smap_find_def echo_rejected_def demo_entry_def)

theorem remote_merge_own_ttl_witness:
  "\<exists>e. smap_find (fst (merge_loop (ref_ext ''a'') True [(''k'', demo_entry ''a'' 50 7)] demo_mine)) ''k'' =
     Some e \<and> mTtl e = 5"
  using remote_merge_own_ttl [of "[(''k'', demo_entry ''a'' 50 7)]" demo_mine "''k''"
      "demo_entry ''a'' 5 1" "ref_ext ''a''"] demo_wf(1)
  by (simp add: smap_wf_def smap_find_def demo_entry_def demo_host)

theorem merge_monotone_witness:
  "\<exists>e. smap_find (fst (merge_loop (ref_ext ''a'') True demo_theirs demo_mine)) ''m'' = Some e \<and> 9 \<le> mTtl e"
  using merge_monotone [OF demo_wf(2,1), of "''m''" "demo_entry ''b'' 9 2" "ref_ext ''a''" True]
  by (simp add: smap_find_def demo_entry_def)


theorem bleach_keywise_witness:
  "\<exists>t'. run demo_env (bleach ''T'' 5) 0 (demo_process demo_mine) =
      (Done 1, 0, (demo_process demo_mine)\<lparr>mStates := smap_put ''T'' t' (mStates (demo_process demo_mine))\<rparr>) \<and>
    smap_find t' ''k'' = None \<and> smap_find t' ''m'' = Some (demo_entry ''b'' 4 2)"
proof -
  have range: "\<forall>(k, e) \<in> set demo_mine. int64_range (mTtl e)"
    by (simp add: demo_entry_def int64_range_def)
  have "length (filter (\<lambda>(k, e). mTtl e \<le> 5) demo_mine) = 1" by (simp add: demo_entry_def)
  then show ?thesis
    using bleach_keywise [where E = demo_env and n = 0 and secs = 5,
        OF demo_process_wf [OF demo_wf(1)] demo_process_find _ range]
    by (auto simp: smap_find_def demo_entry_def)
qed

theorem bleach_merge_commute_witness:
  "bleach_state 4 (fst (merge_loop (ref_ext ''z'') True demo_theirs demo_mine)) =
   fst (merge_loop (ref_ext ''z'') True (bleach_state 4 demo_theirs) (bleach_state 4 demo_mine))"
  by (rule bleach_merge_commute [OF demo_wf(2,1)])
    (auto simp: smap_find_def demo_entry_def authorPlaceOlder_def ref_ext_def is_blank_def split: if_splits)

theorem equal_ttl_echo_overwrites_witness:
  "smap_find (fst (merge_loop (ref_ext ''a'') True demo_theirs demo_mine)) ''k'' = Some (demo_entry ''a'' 5 7)"
  by (rule equal_ttl_echo_overwrites [OF demo_wf(2,1), of _ "demo_entry ''a'' 5 1"])
    (simp_all add: smap_find_def demo_entry_def demo_host)

end
