(* ===== verification/TypeConf.thy ===== *)
theory TypeConf
  imports StateCore Operations
begin

text \<open>
  The registry of data types (\<open>src/sharedstate.cc\<close>): \<open>registerDataType\<close> writes the configuration
  file, \<open>loadRegisteredTypes\<close> reads it and brings the set of states in line with it.
\<close>

definition tConfigPath :: string where
  "tConfigPath = SHARED_STATE_CONFIG_DIR @ SHARED_STATE_CONFIG_FILE_NAME"

text \<open>The two loops of \<open>loadRegisteredTypes\<close>: empty states for new types, and no state for types
  that are not registered any more.\<close>

definition create_states ::
  "(string, DataTypeConf) smap \<Rightarrow> (string, 'j state_slice) smap \<Rightarrow> (string, 'j state_slice) smap" where
  "create_states confs states = fold (\<lambda>(typeName, _). smap_touch [] typeName) confs states"

definition drop_states ::
  "(string, DataTypeConf) smap \<Rightarrow> (string, 'j state_slice) smap \<Rightarrow> (string, 'j state_slice) smap" where
  "drop_states confs states = smap_erase_if (\<lambda>(typeName, _). smap_find confs typeName = None) states"

definition loadRegisteredTypes :: "'j ext \<Rightarrow> ('j, bool) task" where
  "loadRegisteredTypes X =
     co_bind (co_call (ReadFile tConfigPath)) (\<lambda>confFile.
       if s_ret confFile = -1 then co_fail (FromErrno (s_errno confFile)) False
       else if x_parse_error X (s_bytes confFile)
       then co_fail (FromErrno (s_errno confFile)) False
       else case x_serial_confs X (DataTypeConf_serial_process X) FROM_JSON
           ((x_ctx X)\<lparr>mJson := x_parse X (s_bytes confFile)\<rparr>) ''mTypeConf'' [] of
         (ctx, confs) \<Rightarrow>
           co_then (co_update (\<lambda>s. s\<lparr>mTypeConf := confs,
               mStates := drop_states confs (create_states confs (mStates s))\<rparr>))
             (Ret (mOk ctx)))"

definition registerDataType ::
  "'j ext \<Rightarrow> string \<Rightarrow> string \<Rightarrow> int \<Rightarrow> int \<Rightarrow> ('j, bool) task" where
  "registerDataType X typeName typeScope updateInterval TTL =
     (if typeName = [] then co_fail errc_invalid_argument False
      else if length typeName > DATA_TYPE_NAME_MAX_LENGHT
      then co_fail errc_invalid_argument False
      else
        co_bind (with_errc (loadRegisteredTypes X) None) (\<lambda>(loaded, loadErr).
        co_bind (if loaded then Ret None
                 else co_bind (co_call (CreateDirectory SHARED_STATE_CONFIG_DIR)) (\<lambda>dir.
                   Ret (if s_ret dir = -1 then Some (Errc (s_errno dir)) else None)))
          (\<lambda>confDirErr. case confDirErr of
             Some e \<Rightarrow> co_fail e False
           | None \<Rightarrow>
               co_then (co_update (\<lambda>s. s\<lparr>mTypeConf := smap_put typeName
                   \<lparr>mName = typeName, mScope = typeScope, mUpdateInterval = updateInterval,
                    mBleachTTL = TTL\<rparr> (mTypeConf s)\<rparr>))
               (co_bind co_get (\<lambda>s.
                  case x_serial_confs X (DataTypeConf_serial_process X) TO_JSON (x_ctx X)
                      ''mTypeConf'' (mTypeConf s) of
                    (ctx, _) \<Rightarrow>
                      co_bind (co_call (WriteFile tConfigPath (x_print X (mJson ctx) @ [10]))) (\<lambda>w.
                        if s_ret w = -1 then co_fail errc_io_error False
                        else Ret (mOk ctx)))))))"

subsection \<open>States follow the registry\<close>

lemma create_states_spec:
  assumes "smap_wf confs" and "smap_wf states"
  shows "smap_wf (create_states confs states) \<and>
    smap_find (create_states confs states) ty =
      (case smap_find confs ty of
         None \<Rightarrow> smap_find states ty
       | Some _ \<Rightarrow> Some (case smap_find states ty of None \<Rightarrow> [] | Some t \<Rightarrow> t))"
proof -
  have "smap_wf m \<Longrightarrow> smap_wf (smap_touch [] k m) \<and> smap_find (smap_touch [] k m) =
      (smap_find m)(k := Some (case smap_find m k of None \<Rightarrow> [] | Some t \<Rightarrow> t))"
    for k and m :: "(string, 'a state_slice) smap"
    by (auto simp: smap_wf_touch smap_find_touch fun_eq_iff split: option.split)
  from smap.fold_keywise [where step = "\<lambda>k (_ :: DataTypeConf). smap_touch []  k"
      and g = "\<lambda>_ _ old. Some (case old of None \<Rightarrow> [] | Some t \<Rightarrow> t)", OF this
      smap_wf_distinct [OF assms(1)] assms(2)]
  show ?thesis by (simp add: create_states_def smap_find_def)
qed

lemma drop_states_find:
  "smap_wf states \<Longrightarrow> smap_find (drop_states confs states) ty =
     (if smap_find confs ty = None then None else smap_find states ty)"
  by (auto simp: drop_states_def smap_find_erase_if split: option.split)

lemma drop_states_wf: "smap_wf states \<Longrightarrow> smap_wf (drop_states confs states)"
  by (simp add: drop_states_def smap_wf_erase_if)

lemma synced_states_find:
  assumes "smap_wf confs" and "smap_wf states"
  shows "smap_find (drop_states confs (create_states confs states)) ty =
    (case smap_find confs ty of
       None \<Rightarrow> None
     | Some _ \<Rightarrow> Some (case smap_find states ty of None \<Rightarrow> [] | Some t \<Rightarrow> t))"
  using create_states_spec [OF assms] by (simp add: drop_states_find split: option.split)

lemma ss_wf_synced:
  assumes "ss_wf s" and "smap_wf confs"
  shows "ss_wf (s\<lparr>mTypeConf := confs, mStates := drop_states confs (create_states confs (mStates s))\<rparr>)"
proof -
  have states: "smap_wf (mStates s)" using assms by (simp add: ss_wf_def)
  have "smap_wf t \<and> smap_find confs ty \<noteq> None"
    if "smap_find (drop_states confs (create_states confs (mStates s))) ty = Some t" for ty t
    using that ss_wf_state [OF assms(1), of ty]
    by (auto simp: synced_states_find [OF assms(2) states] split: option.splits)
  then show ?thesis
    using create_states_spec [OF assms(2) states] assms(2) by (auto simp: ss_wf_def drop_states_wf)
qed

lemma keeps_loadRegisteredTypes [keeps]:
  assumes "ordered_maps X"
  shows "co_keeps (\<lambda>_. ss_wf) (loadRegisteredTypes X)"
  unfolding loadRegisteredTypes_def
proof (intro keeps co_keeps_update)
  fix r ctx confs and s :: "'a process"
  assume "x_serial_confs X (DataTypeConf_serial_process X) FROM_JSON
      ((x_ctx X)\<lparr>mJson := x_parse X (s_bytes r)\<rparr>) ''mTypeConf'' [] = (ctx, confs)" and "ss_wf s"
  then show "ss_wf (s\<lparr>mTypeConf := confs, mStates := drop_states confs (create_states confs (mStates s))\<rparr>)"
    using assms unfolding ordered_maps_def by (metis snd_conv ss_wf_synced)
qed

lemma ss_wf_register:
  "ss_wf s \<Longrightarrow> ss_wf (s\<lparr>mTypeConf := smap_put ty c (mTypeConf s)\<rparr>)"
  by (auto simp: ss_wf_def smap_wf_put smap_find_put)

lemma keeps_registerDataType [keeps]:
  "ordered_maps X \<Longrightarrow> co_keeps (\<lambda>_. ss_wf) (registerDataType X ty sc ui ttl)"
  unfolding registerDataType_def by (intro keeps co_keeps_update ss_wf_register)

lemma load_run_parsed:
  assumes "r = e_call E n (ReadFile tConfigPath)" and "s_ret r \<noteq> -1" and "\<not> x_parse_error X (s_bytes r)"
    and "x_serial_confs X (DataTypeConf_serial_process X) FROM_JSON
      ((x_ctx X)\<lparr>mJson := x_parse X (s_bytes r)\<rparr>) ''mTypeConf'' [] = (ctx, confs)"
  shows "run E (with_errc (loadRegisteredTypes X) None) n s = (Done (mOk ctx, None), Suc n,
      s\<lparr>mTypeConf := confs, mStates := drop_states confs (create_states confs (mStates s))\<rparr>)"
    and "run E (loadRegisteredTypes X) n s = (Done (mOk ctx), Suc n,
      s\<lparr>mTypeConf := confs, mStates := drop_states confs (create_states confs (mStates s))\<rparr>)"
  using assms by (simp_all add: loadRegisteredTypes_def co_simps)

lemma load_run_failed:
  assumes "r = e_call E n (ReadFile tConfigPath)" and "s_ret r = -1 \<or> x_parse_error X (s_bytes r)"
  shows "run E (with_errc (loadRegisteredTypes X) None) n s =
      (Done (False, Some (FromErrno (s_errno r))), Suc n, s)"
  using assms by (auto simp: loadRegisteredTypes_def co_simps)

text \<open>The types a file declares; and those a process knows after it has tried to load a file.\<close>

definition file_confs :: "'j ext \<Rightarrow> byte list \<Rightarrow> (string, DataTypeConf) smap" where
  "file_confs X text = snd (x_serial_confs X (DataTypeConf_serial_process X) FROM_JSON
     ((x_ctx X)\<lparr>mJson := x_parse X text\<rparr>) ''mTypeConf'' [])"

definition known_confs :: "'j ext \<Rightarrow> sysret \<Rightarrow> 'j process \<Rightarrow> (string, DataTypeConf) smap" where
  "known_confs X confFile s = (if s_ret confFile = -1 \<or> x_parse_error X (s_bytes confFile)
     then mTypeConf s else file_confs X (s_bytes confFile))"

lemma load_run_total:
  assumes "ordered_maps X" and "ss_wf s"
  obtains ok e s1 where "run E (with_errc (loadRegisteredTypes X) None) n s = (Done (ok, e), Suc n, s1)"
    and "ss_wf s1" and "mTypeConf s1 = known_confs X (e_call E n (ReadFile tConfigPath)) s"
proof (cases "s_ret (e_call E n (ReadFile tConfigPath)) = -1 \<or>
    x_parse_error X (s_bytes (e_call E n (ReadFile tConfigPath)))")
  case True
  then show thesis
    by (intro that [OF load_run_failed [OF refl]]) (simp_all add: assms(2) known_confs_def)
next
  case False
  obtain ctx confs where p: "x_serial_confs X (DataTypeConf_serial_process X) FROM_JSON
      ((x_ctx X)\<lparr>mJson := x_parse X (s_bytes (e_call E n (ReadFile tConfigPath)))\<rparr>) ''mTypeConf'' []
      = (ctx, confs)" by fastforce
  then have "smap_wf confs" using assms(1) unfolding ordered_maps_def by (metis snd_conv)
  with that [OF load_run_parsed(1) [OF refl _ _ p]] False assms(2) show thesis
    by (simp add: ss_wf_synced known_confs_def file_confs_def p)
qed

subsection \<open>Properties\<close>

text \<open>
  C21. Loading the registry: an unreadable or malformed file is reported and nothing changes;
  otherwise the configuration becomes the one of the file and the states follow it: a new type
  gets an empty state, a known type keeps its state, a type that is gone loses it. The invariant
  of the process holds afterwards.
\<close>

theorem load_registered_types:
  assumes "ordered_maps X" and "ss_wf s" and "file = e_call E n (ReadFile tConfigPath)"
  shows "if s_ret file = -1 \<or> x_parse_error X (s_bytes file)
    then run E (with_errc (loadRegisteredTypes X) None) n s =
      (Done (False, Some (FromErrno (s_errno file))), Suc n, s)
    else \<exists>ok s'. run E (with_errc (loadRegisteredTypes X) None) n s = (Done (ok, None), Suc n, s') \<and>
      ss_wf s' \<and> mIoContext s' = mIoContext s \<and> isPeer s' = isPeer s \<and>
      mTypeConf s' = snd (x_serial_confs X (DataTypeConf_serial_process X) FROM_JSON
        ((x_ctx X)\<lparr>mJson := x_parse X (s_bytes file)\<rparr>) ''mTypeConf'' []) \<and>
      (\<forall>ty. smap_find (mStates s') ty = (case smap_find (mTypeConf s') ty of
          None \<Rightarrow> None
        | Some _ \<Rightarrow> Some (case smap_find (mStates s) ty of None \<Rightarrow> [] | Some t \<Rightarrow> t)))"
proof (cases "s_ret file = -1 \<or> x_parse_error X (s_bytes file)")
  case True
  then show ?thesis by (simp add: load_run_failed [OF assms(3)])
next
  case False
  obtain ctx confs where p: "x_serial_confs X (DataTypeConf_serial_process X) FROM_JSON
      ((x_ctx X)\<lparr>mJson := x_parse X (s_bytes file)\<rparr>) ''mTypeConf'' [] = (ctx, confs)"
    by fastforce
  then have "smap_wf confs" using assms(1) unfolding ordered_maps_def by (metis snd_conv)
  moreover have "smap_wf (mStates s)" using assms(2) by (simp add: ss_wf_def)
  ultimately show ?thesis
    using False load_run_parsed(1) [OF assms(3) _ _ p] assms(2)
    by (simp add: p ss_wf_synced synced_states_find)
qed

text \<open>
  C22. A type that is registered under a valid name is in the file that is written, with its
  parameters, and every other type of the file is in it as before; when there was no readable file,
  the types the process knew take its place. Every process that loads the file afterwards has
  exactly that configuration and has a state for the type.
\<close>

theorem register_then_load:
  assumes lib: "serializer X enc_string enc_int64 enc_uint32 enc_json enc_slice enc_confs" "ordered_maps X"
    and s: "ss_wf s" and name: "ty \<noteq> []" "length ty \<le> DATA_TYPE_NAME_MAX_LENGHT"
    and dir: "\<And>i. s_ret (e_call E i (CreateDirectory SHARED_STATE_CONFIG_DIR)) \<noteq> -1"
    and out: "\<And>i w. s_ret (e_call E i (WriteFile tConfigPath w)) \<noteq> -1"
  shows "\<exists>n' s' w ret. run E (registerDataType X ty sc ui ttl) n s = (Done True, n', s') \<and>
    (WriteFile tConfigPath w, ret) \<in> set (trace E (registerDataType X ty sc ui ttl) n s) \<and>
    smap_find (mTypeConf s') ty = Some \<lparr>mName = ty, mScope = sc, mUpdateInterval = ui, mBleachTTL = ttl\<rparr> \<and>
    (\<forall>ty'. ty' \<noteq> ty \<longrightarrow> smap_find (mTypeConf s') ty' = smap_find (known_confs X (e_call E n (ReadFile tConfigPath)) s) ty') \<and>
    (\<forall>E2 n2 s2. ss_wf s2 \<and> s_ret (e_call E2 n2 (ReadFile tConfigPath)) \<noteq> -1 \<and>
        s_bytes (e_call E2 n2 (ReadFile tConfigPath)) = w \<longrightarrow>
      (\<exists>s2'. run E2 (loadRegisteredTypes X) n2 s2 = (Done True, Suc n2, s2') \<and>
        mTypeConf s2' = mTypeConf s' \<and> smap_find (mStates s2') ty \<noteq> None))"
proof -
  define conf where "conf = \<lparr>mName = ty, mScope = sc, mUpdateInterval = ui, mBleachTTL = ttl\<rparr>"
  obtain ok e s1 where load: "run E (with_errc (loadRegisteredTypes X) None) n s = (Done (ok, e), Suc n, s1)"
    and s1: "ss_wf s1" and known: "mTypeConf s1 = known_confs X (e_call E n (ReadFile tConfigPath)) s"
    by (rule load_run_total [OF lib(2) s])
  define s' where "s' = s1\<lparr>mTypeConf := smap_put ty conf (mTypeConf s1)\<rparr>"
  define ctx where "ctx = fst (x_serial_confs X (DataTypeConf_serial_process X) TO_JSON (x_ctx X)
      ''mTypeConf'' (mTypeConf s'))"
  define w where "w = x_print X (mJson ctx) @ [10]"
  have wf: "smap_wf (mTypeConf s')" using s1 by (simp add: s'_def ss_wf_def smap_wf_put)
  have ok_ctx: "mOk ctx" "mOk (x_ctx X)"
    using serializer.confs_to [OF lib(1)] serializer.empty_ctx [OF lib(1)] by (simp_all add: ctx_def)
  have reg: "run E (registerDataType X ty sc ui ttl) n s = (Done True, if ok then Suc (Suc n) else Suc (Suc (Suc n)), s')"
    using load name dir out ok_ctx
    by (simp add: registerDataType_def co_simps case_prod_unfold DATA_TYPE_NAME_MAX_LENGHT_def
        ctx_def s'_def flip: conf_def)
  have tr: "\<exists>ret. (WriteFile tConfigPath w, ret) \<in> set (trace E (registerDataType X ty sc ui ttl) n s)"
    using load name dir out
    by (auto simp: registerDataType_def co_simps case_prod_unfold w_def ctx_def s'_def
        simp flip: conf_def)
  have reload: "\<exists>s2'. run E2 (loadRegisteredTypes X) n2 s2 = (Done True, Suc n2, s2') \<and>
      mTypeConf s2' = mTypeConf s' \<and> smap_find (mStates s2') ty \<noteq> None"
    if "ss_wf s2" "s_ret (e_call E2 n2 (ReadFile tConfigPath)) \<noteq> -1"
      "s_bytes (e_call E2 n2 (ReadFile tConfigPath)) = w" for E2 n2 and s2 :: "'a process"
  proof -
    have "x_serial_confs X (DataTypeConf_serial_process X) FROM_JSON
        ((x_ctx X)\<lparr>mJson := x_parse X w\<rparr>) ''mTypeConf'' [] = ((x_ctx X)\<lparr>mJson := mJson ctx\<rparr>, mTypeConf s')"
      unfolding w_def ctx_def by (rule serializer.confs_roundtrip [OF lib(1) wf])
    from load_run_parsed(2) [OF refl, of E2 n2 X, unfolded that(3), OF that(2) _ this, of s2]
    show ?thesis
      using serializer.parse_line(2) [OF lib(1)] ok_ctx wf that(1)
      by (auto simp: w_def synced_states_find ss_wf_def s'_def smap_find_put)
  qed
  have "smap_find (mTypeConf s') ty = Some conf"
    "\<forall>ty'. ty' \<noteq> ty \<longrightarrow> smap_find (mTypeConf s') ty' = smap_find (known_confs X (e_call E n (ReadFile tConfigPath)) s) ty'"
    by (simp_all add: s'_def smap_find_put known)
  with reg tr reload show ?thesis unfolding conf_def by blast
qed

subsection \<open>Witnesses\<close>

text \<open>A configuration file with one type, and an environment that serves it.\<close>

definition demo_confs :: "(string, DataTypeConf) smap" where
  "demo_confs = [(''T'', demo_conf), (''U'', demo_conf)]"

definition demo_conf_file :: "byte list" where
  "demo_conf_file = x_print (ref_ext ''a'') (mJson (fst (x_serial_confs (ref_ext ''a'')
     (DataTypeConf_serial_process (ref_ext ''a'')) TO_JSON (x_ctx (ref_ext ''a'')) ''mTypeConf'' demo_confs))) @ [10]"

definition demo_conf_env :: "'s env" where
  "demo_conf_env = \<lparr>e_call = (\<lambda>_ _. (sys_value 0)\<lparr>s_bytes := demo_conf_file\<rparr>), e_interfere = (\<lambda>_ s. s)\<rparr>"

lemma demo_confs_wf: "smap_wf demo_confs"
  by (simp add: demo_confs_def smap_wf_def)

lemma demo_conf_parsed:
  "snd (x_serial_confs (ref_ext ''a'') (DataTypeConf_serial_process (ref_ext ''a'')) FROM_JSON
     ((x_ctx (ref_ext ''a''))\<lparr>mJson := x_parse (ref_ext ''a'') demo_conf_file\<rparr>) ''mTypeConf'' []) = demo_confs"
  unfolding demo_conf_file_def by (subst ref.confs_roundtrip [OF demo_confs_wf]) simp

theorem load_registered_types_witness:
  "\<exists>ok s'. run demo_conf_env (with_errc (loadRegisteredTypes (ref_ext ''a'')) None) 0 (demo_process demo_mine) =
      (Done (ok, None), 1, s') \<and> mTypeConf s' = demo_confs \<and>
    smap_find (mStates s') ''T'' = Some demo_mine \<and> smap_find (mStates s') ''U'' = Some []"
proof -
  have "\<not> x_parse_error (ref_ext ''a'') demo_conf_file"
    unfolding demo_conf_file_def by (rule ref.parse_line(2))
  then show ?thesis
    using load_registered_types [OF ref_ordered [of "''a''"] demo_process_wf [OF demo_wf(1)] refl, of demo_conf_env 0]
    by (auto simp: demo_conf_env_def sys_value_def demo_conf_parsed demo_process_find)
      (auto simp: demo_confs_def demo_process_def smap_find_def)
qed

theorem register_then_load_witness:
  "\<exists>n' s'. run demo_conf_env (registerDataType (ref_ext ''a'') ''V'' ''public'' 60 600) 0 (demo_process demo_mine) =
      (Done True, n', s') \<and>
    smap_find (mTypeConf s') ''V'' =
      Some \<lparr>mName = ''V'', mScope = ''public'', mUpdateInterval = 60, mBleachTTL = 600\<rparr> \<and>
    smap_find (mTypeConf s') ''T'' = Some demo_conf"
proof -
  have "known_confs (ref_ext ''a'') (e_call demo_conf_env 0 (ReadFile tConfigPath)) (demo_process demo_mine) = demo_confs"
    using ref.parse_line(2) [of "''a''"]
    by (simp add: known_confs_def file_confs_def demo_conf_env_def sys_value_def demo_conf_parsed)
      (simp add: demo_conf_file_def)
  moreover have "smap_find demo_confs ''T'' = Some demo_conf" by (simp add: demo_confs_def smap_find_def)
  ultimately show ?thesis
    using register_then_load [OF ref.serializer_axioms [of "''a''"] ref_ordered demo_process_wf [OF demo_wf(1)],
        where ty = "''V''" and E = demo_conf_env and sc = "''public''" and ui = 60 and ttl = 600 and n = 0]
    by (fastforce simp: demo_conf_env_def sys_value_def DATA_TYPE_NAME_MAX_LENGHT_def)
qed

end
