(* ===== verification/Hooks.thy ===== *)
theory Hooks
  imports StateCore AsyncCommand
begin

text \<open>
  The child processes of the daemon (\<open>src/sharedstate.cc\<close>): \<open>notifyHooks\<close> runs the hooks of a
  data type, \<open>getCandidatesNeighbours\<close> runs the discovery command and parses the addresses it
  prints.
\<close>

subsection \<open>Hooks\<close>

text \<open>The bare data of a state as one JSON object.\<close>

definition clean_json :: "'j ext \<Rightarrow> 'j state_slice \<Rightarrow> 'j" where
  "clean_json X tState =
     fold (\<lambda>(key, stateEntry) d. x_add_member X d key (mData stateEntry)) tState (x_object X)"

definition run_hook :: "byte list \<Rightarrow> string \<Rightarrow> ('j, unit) task" where
  "run_hook tDataStr hookPath =
     co_bind (with_errc (AsyncCommand_execute hookPath) None) (\<lambda>(hookCmd, hookErr).
       case hookCmd of
         None \<Rightarrow> Ret ()
       | Some cmd \<Rightarrow>
           co_bind (with_errc (writeStdIn cmd tDataStr) hookErr) (\<lambda>(_, hookErr).
           co_bind (with_errc (closeStdIn cmd) hookErr) (\<lambda>(_, hookErr).
           co_bind (with_errc (waitTermination cmd) hookErr) (\<lambda>_. Ret ()))))"

primrec run_hooks :: "byte list \<Rightarrow> dir_entry list \<Rightarrow> ('j, unit) task" where
  "run_hooks tDataStr [] = Ret ()"
| "run_hooks tDataStr (dirEntry # rest) =
     co_then
       (if de_status_failed dirEntry then Ret ()
        else if \<not> de_owner_exec dirEntry then Ret ()
        else run_hook tDataStr (de_path dirEntry))
       (run_hooks tDataStr rest)"

text \<open>
  An exception of the directory iterator is swallowed by \<open>unhandled_exception\<close> of the promise,
  and the value of the task is then indeterminate: whatever the environment's answer holds.
\<close>

definition notifyHooks :: "'j ext \<Rightarrow> string \<Rightarrow> ('j, bool) task" where
  "notifyHooks X typeName =
     co_bind co_get (\<lambda>s. case smap_find (mStates s) typeName of
       None \<Rightarrow> co_fail (make_error_condition UNKOWN_DATA_TYPE) False
     | Some tState \<Rightarrow>
         let hooksDirStr = SHARED_STATE_HOOKS_DIR @ typeName @ ''/'' in
         co_bind (co_call (IsDirectory hooksDirStr)) (\<lambda>isDir.
           if s_ret isDir \<noteq> 1 then Ret False
           else
             let tDataStr = x_print X (clean_json X tState) in
             co_bind (co_call (DirectoryIterator hooksDirStr)) (\<lambda>dir.
               if s_ret dir = -1 then Ret (s_bytes dir \<noteq> [])
               else co_then (run_hooks tDataStr (s_entries dir)) (Ret True))))"

subsection \<open>Discovery\<close>

text \<open>\<open>std::getline\<close> until the stream ends: a final newline does not start another line.\<close>

function getlines :: "string \<Rightarrow> string list" where
  "getlines s = (if s = [] then []
     else takeWhile (\<lambda>c. c \<noteq> CHR 0x0A) s # getlines (drop 1 (dropWhile (\<lambda>c. c \<noteq> CHR 0x0A) s)))"
  by pat_completeness auto
termination
proof (relation "measure length")
  fix s :: string assume "s \<noteq> []"
  then have "length (dropWhile (\<lambda>c. c \<noteq> CHR 0x0A) s) - 1 < length s"
    using length_dropWhile_le [of "\<lambda>c. c \<noteq> CHR 0x0A" s] by (cases s) (simp_all del: dropWhile.simps)
  then show "(drop 1 (dropWhile (\<lambda>c. c \<noteq> CHR 0x0A) s), s) \<in> measure length" by simp
qed simp

declare getlines.simps [simp del]

definition maxRecv :: nat where "maxRecv = 1000"

text \<open>The reading loop, for at most \<open>fuel\<close> rounds.\<close>

primrec read_candidates :: "nat \<Rightarrow> nat \<Rightarrow> byte list \<Rightarrow> ('j, byte list) task" where
  "read_candidates 0 cmd neigStrStream = Halt Unfinished"
| "read_candidates (Suc fuel) cmd neigStrStream =
     co_bind (or_exit (readStdOut cmd maxRecv)) (\<lambda>(numReadBytes, justRecv).
       if numReadBytes = 0 then Ret neigStrStream
       else read_candidates fuel cmd (neigStrStream @ justRecv))"

primrec parse_candidates ::
  "'j ext \<Rightarrow> string list \<Rightarrow> sockaddr_storage list \<Rightarrow> ('j, bool \<times> sockaddr_storage list) task" where
  "parse_candidates X [] peerAddresses = Ret (True, peerAddresses)"
| "parse_candidates X (candLine # rest) peerAddresses = (case x_inet_pton X candLine of
     None \<Rightarrow> co_fail errc_bad_address (False, peerAddresses)
   | Some peerAddr \<Rightarrow>
       parse_candidates X rest (peerAddresses @ [x_setport X peerAddr TCP_PORT]))"

definition getCandidatesNeighbours ::
  "'j ext \<Rightarrow> nat \<Rightarrow> ('j, bool \<times> sockaddr_storage list) task" where
  "getCandidatesNeighbours X fuel =
     co_bind (or_exit (AsyncCommand_execute SHARED_STATE_GET_CANDIDATES_CMD)) (\<lambda>getCandidatesCmd.
       case getCandidatesCmd of
         None \<Rightarrow> Halt (Trapped NullPointer)
       | Some cmd \<Rightarrow>
           co_bind (read_candidates fuel cmd []) (\<lambda>neigStrStream.
           co_bind (waitTermination cmd) (\<lambda>terminated.
             if \<not> terminated then Ret (False, [])
             else parse_candidates X (getlines (string_of_bytes neigStrStream)) [])))"

subsection \<open>What they leave alone\<close>

lemma keeps_run_hook [keeps]: "io_safe I \<Longrightarrow> co_keeps I (run_hook d p)"
  unfolding run_hook_def by (intro keeps)

lemma keeps_run_hooks [keeps]: "io_safe I \<Longrightarrow> co_keeps I (run_hooks d ps)"
  by (induction ps) (auto intro!: keeps)

lemma keeps_notifyHooks [keeps]: "io_safe I \<Longrightarrow> co_keeps I (notifyHooks X ty)"
  unfolding notifyHooks_def by (intro keeps)

lemma keeps_read_candidates [keeps]: "io_safe I \<Longrightarrow> co_keeps I (read_candidates fuel cmd acc)"
  by (induction fuel arbitrary: acc) (auto intro!: keeps)

lemma keeps_parse_candidates [keeps]: "co_keeps I (parse_candidates X ls acc)"
  by (induction ls arbitrary: acc) (auto intro!: keeps)

lemma keeps_getCandidatesNeighbours [keeps]: "io_safe I \<Longrightarrow> co_keeps I (getCandidatesNeighbours X fuel)"
  unfolding getCandidatesNeighbours_def by (intro keeps)

end
