(* ===== verification/SyncSession.thy ===== *)
theory SyncSession
  imports WireProtocol TypeConf Hooks
begin

text \<open>
  A synchronisation session (\<open>src/sharedstate.cc\<close>): \<open>syncWithPeer\<close> on the side that connects,
  \<open>handleReqSyncConnection\<close> on the side that accepts. The cleanup macros close the socket without
  an error pointer, so that a failure there ends the process.
\<close>

definition localInstanceAddr :: "'j ext \<Rightarrow> sockaddr_storage" where
  "localInstanceAddr X = x_setport X (x_ipv4_aton X ''127.0.0.1'') TCP_PORT"

definition clean_socket :: "nat \<Rightarrow> ('j, unit) task" where
  "clean_socket tSocket = co_bind (or_exit (closeAFD (Some tSocket))) (\<lambda>_. Ret ())"

text \<open>
  \<open>syncWithPeer\<close> takes a reference to the state of the type before it connects and reads through
  it after the handshake; if the type was dropped meanwhile the reference dangles. Here the state is
  looked up again by its name, so that a type dropped and registered again in between is found.
\<close>

definition syncWithPeer :: "'j ext \<Rightarrow> string \<Rightarrow> sockaddr_storage \<Rightarrow> ('j, bool) task" where
  "syncWithPeer X dataTypeName peerAddr =
     co_bind co_get (\<lambda>s. case smap_find (mStates s) dataTypeName of
       None \<Rightarrow> co_fail (make_error_condition UNKOWN_DATA_TYPE) False
     | Some _ \<Rightarrow>
     co_bind (ConnectingSocket_connect X peerAddr) (\<lambda>sock. case sock of
       None \<Rightarrow> Ret False
     | Some tSocket \<Rightarrow>
     co_bind (clientHandShake X tSocket (NetworkStats_default\<lparr>mPeer := peerAddr\<rparr>)) (\<lambda>(shaken, netStats).
       if \<not> shaken then co_then (clean_socket tSocket) (Ret False)
       else
     co_bind co_get (\<lambda>s. case smap_find (mStates s) dataTypeName of
       None \<Rightarrow> Halt (Trapped DanglingReference)
     | Some tState \<Rightarrow>
     co_bind (sendNetworkMessage X tSocket
         (fromStateSlice X tState \<lparr>mTypeName = dataTypeName, mMsgData = []\<rparr>) netStats) (\<lambda>(totalSent, netStats).
       if totalSent = -1 then co_then (clean_socket tSocket) (Ret False)
       else
     co_bind (receiveNetworkMessage X tSocket netStats) (\<lambda>(totalReceived, netMessage, netStats).
       if totalReceived = -1 then co_then (clean_socket tSocket) (Ret False)
       else
     co_bind (co_call SteadyClockNow) (\<lambda>mergeBTP.
     co_bind (merge X (mTypeName netMessage) (toStateSlice X netMessage []) peerAddr) (\<lambda>changes.
       if changes = -1 then co_then (clean_socket tSocket) (Ret False)
       else
     co_bind (co_call SteadyClockNow) (\<lambda>mergeETP.
     co_then (clean_socket tSocket)
     (co_bind (collectStat X netStats) (\<lambda>collected.
       if \<not> collected then Ret False
       else
     co_bind co_get (\<lambda>s.
       if isPeer s \<and> changes > 0 then notifyHooks X (mTypeName netMessage)
       else Ret True))))))))))))"

definition handleReqSyncConnection :: "'j ext \<Rightarrow> nat \<Rightarrow> ('j, bool) task" where
  "handleReqSyncConnection X pSocket =
     co_bind (or_exit (getPeerAddr pSocket (mPeer NetworkStats_default))) (\<lambda>(_, peer).
     co_bind (serverHandShake X pSocket (NetworkStats_default\<lparr>mPeer := peer\<rparr>)) (\<lambda>(shaken, netStats).
       if \<not> shaken then co_then (clean_socket pSocket) (Ret False)
       else
     co_bind (with_errc (receiveNetworkMessage X pSocket netStats) None)
         (\<lambda>((totalReceived, networkMessage, netStats), recvErrc).
       if totalReceived < 0 then co_then (clean_socket pSocket) (Ret False)
       else
     co_bind (co_call SteadyClockNow) (\<lambda>mergeBTP.
     co_bind (merge X (mTypeName networkMessage) (toStateSlice X networkMessage []) (mPeer netStats)) (\<lambda>changes.
       if changes = -1 then co_then (clean_socket pSocket) (Ret False)
       else
     co_bind (co_call SteadyClockNow) (\<lambda>mergeETP.
     co_then (co_update (\<lambda>s. s\<lparr>mStates := smap_touch [] (mTypeName networkMessage) (mStates s)\<rparr>))
     (co_bind co_get (\<lambda>s.
     co_bind (sendNetworkMessage X pSocket (fromStateSlice X
         (case smap_find (mStates s) (mTypeName networkMessage) of None \<Rightarrow> [] | Some t \<Rightarrow> t) networkMessage)
         netStats) (\<lambda>(totalSent, netStats).
       if totalSent = -1 then co_then (clean_socket pSocket) (Ret False)
       else
     co_then (clean_socket pSocket)
     (co_bind (collectStat X netStats) (\<lambda>collected.
       if \<not> collected then Ret False
       else
     co_bind co_get (\<lambda>s.
       if isPeer s \<and> changes > 0 then notifyHooks X (mTypeName networkMessage)
       else Ret True))))))))))))"

subsection \<open>Invariants of the process\<close>

lemma ss_wf_io_free: "io_free (\<lambda>_. ss_wf)"
  by (simp add: io_free_def ss_wf_def)

lemma keeps_clean_socket [keeps]: "io_safe I \<Longrightarrow> co_keeps I (clean_socket a)"
  unfolding clean_socket_def by (intro keeps)

text \<open>
  What a session asks of an invariant: the operations on the replicated state keep it, and so
  does \<open>mStates[...]\<close> between the merge and the answer of \<open>handleReqSyncConnection\<close>, which would
  create a state without a configuration if the merge had not found one.
\<close>

locale session_invariant =
  fixes I :: "'i \<Rightarrow> 'j process \<Rightarrow> bool"
  assumes safe: "io_safe I"
    and flag: "I i s \<Longrightarrow> I i (s\<lparr>isPeer := p\<rparr>)"
    and merge_keeps: "smap_wf sl \<Longrightarrow> co_keeps I (merge X ty sl peer)"
    and bleach_keeps: "co_keeps I (bleach ty secs)"
    and load_keeps: "ordered_maps X \<Longrightarrow> co_keeps I (loadRegisteredTypes X)"
    and reply_keeps: "smap_wf sl \<Longrightarrow> (\<And>n. co_keeps I (k n)) \<Longrightarrow> (\<And>n. co_keeps I (fl n)) \<Longrightarrow>
      co_keeps I (co_bind (merge X ty sl peer) (\<lambda>changes.
        if changes = -1 then fl changes
        else co_bind (co_call SteadyClockNow) (\<lambda>now.
          co_then (co_update (\<lambda>s. s\<lparr>mStates := smap_touch [] ty (mStates s)\<rparr>))
            (k changes :: ('j, bool) task))))"
begin

lemma keeps_syncWithPeer: "ordered_maps X \<Longrightarrow> co_keeps I (syncWithPeer X ty peer)"
  unfolding syncWithPeer_def
  by (intro merge_keeps keeps safe io_safe_blind toStateSlice_wf)

lemma keeps_handleReqSyncConnection:
  "ordered_maps X \<Longrightarrow> co_keeps I (handleReqSyncConnection X a)"
  unfolding handleReqSyncConnection_def
  by (intro reply_keeps keeps safe io_safe_blind toStateSlice_wf)

lemmas session_keeps = keeps_syncWithPeer keeps_handleReqSyncConnection load_keeps bleach_keeps
  merge_keeps

end

lemma ss_wf_reply:
  assumes sl: "smap_wf sl" and k: "\<And>changes. co_keeps (\<lambda>_::'i. ss_wf) (k changes)"
    and f: "\<And>changes. co_keeps (\<lambda>_::'i. ss_wf) (fl changes)"
  shows "co_keeps (\<lambda>_::'i. ss_wf) (co_bind (merge X ty sl peer) (\<lambda>changes.
      if changes = -1 then fl changes
      else co_bind (co_call SteadyClockNow) (\<lambda>now.
        co_then (co_update (\<lambda>s. s\<lparr>mStates := smap_touch [] ty (mStates s)\<rparr>)) (k changes))))"
  unfolding co_keeps_def
proof (intro allI impI)
  fix i :: 'i and s :: "'a process" assume s: "ss_wf s"
  let ?remote = "\<not> x_isLoopbackNet X peer"
  show "guarantee (\<lambda>_::'i. ss_wf) (co_bind (merge X ty sl peer) (\<lambda>changes.
      if changes = -1 then fl changes
      else co_bind (co_call SteadyClockNow) (\<lambda>now.
        co_then (co_update (\<lambda>s. s\<lparr>mStates := smap_touch [] ty (mStates s)\<rparr>)) (k changes)))) i s"
  proof (cases "smap_find (mStates s) ty")
    case None
    with s f show ?thesis by (simp add: merge_def co_simps co_keeps_def)
  next
    case (Some t)
    obtain c where c: "smap_find (mTypeConf s) ty = Some c" using ss_wf_conf [OF s Some] by blast
    obtain m where m: "merge_loop X ?remote sl t = (merged X ?remote sl t, merge_changes X ?remote sl t, m)"
      using merge_loop_eq [OF sl ss_wf_state [OF s Some]] by blast
    let ?s = "s\<lparr>mStates := smap_put ty (merged X ?remote sl t) (mStates s)\<rparr>"
    have "ss_wf ?s"
      by (rule ss_wf_put_state [OF s Some merged_wf [OF sl ss_wf_state [OF s Some]]])
    moreover have "?s\<lparr>mStates := smap_touch [] ty (mStates ?s)\<rparr> = ?s"
      by (simp add: smap_touch_def smap_emplace_def smap_find_put)
    moreover have "merge_changes X ?remote sl t \<noteq> -1" by (simp add: merge_changes_def)
    ultimately show ?thesis
      using Some c m k [of "merge_changes X ?remote sl t"] by (simp add: merge_def co_simps co_keeps_def)
  qed
qed

interpretation ss: session_invariant "\<lambda>_::unit. ss_wf"
proof
  show "ss_wf s \<Longrightarrow> ss_wf (s\<lparr>isPeer := p\<rparr>)" for s :: "'j process" and p by (simp add: ss_wf_def)
qed (simp_all add: io_free_safe ss_wf_io_free keeps ss_wf_reply)

text \<open>
  The other family: invariants of the descriptors, which do not look at the replicated state.
\<close>

definition app_free :: "('i \<Rightarrow> 'j process \<Rightarrow> bool) \<Rightarrow> bool" where
  "app_free I \<longleftrightarrow> (\<forall>i s st tc p. I i s \<longrightarrow> I i (s\<lparr>mTypeConf := tc, mStates := st, isPeer := p\<rparr>))"

lemma app_freeD:
  assumes "app_free I" and "I i s"
  shows "I i (s\<lparr>mStates := st\<rparr>)" "I i (s\<lparr>isPeer := p\<rparr>)" "I i (s\<lparr>mTypeConf := tc, mStates := st\<rparr>)"
proof -
  have all: "I i (s\<lparr>mTypeConf := tc, mStates := st, isPeer := p\<rparr>)" for st tc p
    using assms by (simp add: app_free_def)
  show "I i (s\<lparr>mStates := st\<rparr>)" using all [where tc = "mTypeConf s" and p = "isPeer s"] by simp
  show "I i (s\<lparr>isPeer := p\<rparr>)" using all [where tc = "mTypeConf s" and st = "mStates s"] by simp
  show "I i (s\<lparr>mTypeConf := tc, mStates := st\<rparr>)" using all [where p = "isPeer s"] by simp
qed

lemma app_free_merge: "app_free I \<Longrightarrow> co_keeps I (merge X ty sl peer)"
  unfolding merge_def by (intro keeps co_keeps_update) (rule app_freeD)

lemma app_free_session_invariant:
  fixes I :: "'i \<Rightarrow> 'j process \<Rightarrow> bool"
  assumes app: "app_free I" and "io_safe I"
  shows "session_invariant I"
proof
  show "co_keeps I (bleach ty secs)" for ty secs
    unfolding bleach_def by (intro keeps co_keeps_update) (rule app_freeD [OF app])
  show "co_keeps I (loadRegisteredTypes X)" for X
    unfolding loadRegisteredTypes_def
    by (intro keeps co_keeps_update) (rule app_freeD(3) [OF app])
  fix sl :: "'j state_slice" and k fl :: "int \<Rightarrow> ('j, bool) task" and X ty peer
  assume "\<And>n. co_keeps I (k n)" and "\<And>n. co_keeps I (fl n)"
  then show "co_keeps I (co_bind (merge X ty sl peer) (\<lambda>changes.
        if changes = -1 then fl changes
        else co_bind (co_call SteadyClockNow) (\<lambda>now.
          co_then (co_update (\<lambda>s. s\<lparr>mStates := smap_touch [] ty (mStates s)\<rparr>)) (k changes))))"
    by (intro app_free_merge keeps co_keeps_update app_freeD(1) [OF app] app)
qed (simp_all add: assms app_free_merge app_freeD(2) [OF app])

interpretation fds: session_invariant "\<lambda>_::unit. \<lambda>s. io_wf (mIoContext s)"
  by (rule app_free_session_invariant) (simp_all add: app_free_def io_wf_safe)

end
