(* ===== verification/Scheduler.thy ===== *)
theory Scheduler
  imports Operations
begin

unbundle bit_operations_syntax

text \<open>
  The event loop: \<open>IOContext::run\<close> (\<open>src/io_context.cc\<close>) and
  \<open>AsyncFileDescriptor::resumePendingOps\<close> (\<open>include/async_file_descriptor.hh\<close>). A coroutine handle
  is a number; the machine keeps for each suspended coroutine the descriptor object it waits on
  and the rest of its tree. A machine step answers system calls from an environment, so the
  whole loop is executable; nothing but a suspension lets another coroutine run.
\<close>

datatype ('s, 'a) progress = Finished 'a | Paused nat "('s, 'a) co" | Ended halt

text \<open>Runs a coroutine up to its next suspension.\<close>

primrec advance :: "'s env \<Rightarrow> ('s, 'a) co \<Rightarrow> nat \<Rightarrow> 's \<Rightarrow> ('s, 'a) progress \<times> nat \<times> 's" where
  "advance E (Ret a) n s = (Finished a, n, s)"
| "advance E (Halt h) n s = (Ended h, n, s)"
| "advance E (Bubble e c) n s = advance E c n s"
| "advance E (Act u k) n s = advance E (k s) n (u s)"
| "advance E (Call q k) n s = advance E (k (e_call E n q)) (Suc n) s"
| "advance E (Suspend a c) n s = (Paused a c, n, s)"

lemma advance_bind:
  "advance E (co_bind c f) n s = (case advance E c n s of
     (Finished a, n', s') \<Rightarrow> advance E (f a) n' s'
   | (Paused a c', n', s') \<Rightarrow> (Paused a (co_bind c' f), n', s')
   | (Ended h, n', s') \<Rightarrow> (Ended h, n', s'))"
  by (induction c arbitrary: n s) auto

record 'j machine =
  m_process :: "'j process"
  m_pool :: "nat \<Rightarrow> (nat \<times> ('j, unit) task) option"
  m_calls :: nat

text \<open>
  A coroutine runs under its handle up to its next suspension. Operations hold a reference to the
  object they wait on; one that no object is at dangles.
\<close>

definition start ::
  "'j process env \<Rightarrow> nat \<Rightarrow> ('j, unit) task \<Rightarrow> 'j machine \<Rightarrow> halt + 'j machine" where
  "start E h c m =
     (case advance E c (m_calls m) ((m_process m)\<lparr>running := h\<rparr>) of
        (Finished _, n, s) \<Rightarrow>
          Inr (m\<lparr>m_process := s, m_calls := n, m_pool := (m_pool m)(h := None)\<rparr>)
      | (Paused a c', n, s) \<Rightarrow>
          if get_afd s a = None then Inl (Trapped DanglingReference)
          else Inr (m\<lparr>m_process := s, m_calls := n, m_pool := (m_pool m)(h \<mapsto> (a, c'))\<rparr>)
      | (Ended e, n, s) \<Rightarrow> Inl e)"

text \<open>
  \<open>coroutine_handle::resume\<close> on a handle found in the queue of object \<open>r\<close>. A handle that is not
  suspended there any more belongs to a frame that moved on or was destroyed.
\<close>

definition resume_handle ::
  "'j process env \<Rightarrow> nat \<Rightarrow> nat \<Rightarrow> 'j machine \<Rightarrow> halt + 'j machine" where
  "resume_handle E r h m = (case m_pool m h of
     None \<Rightarrow> Inl (Trapped DanglingReference)
   | Some (a, c) \<Rightarrow> if a \<noteq> r then Inl (Trapped DanglingReference) else start E h c m)"

definition on_process :: "('j process \<Rightarrow> 'j process) \<Rightarrow> 'j machine \<Rightarrow> 'j machine" where
  "on_process f m = m\<lparr>m_process := f (m_process m)\<rparr>"

text \<open>The loop of \<open>resumePendingOps\<close>: as many rounds as the queue was long at the start, each
  resuming the front and popping it afterwards.\<close>

primrec resume_loop ::
  "'j process env \<Rightarrow> nat \<Rightarrow> nat \<Rightarrow> 'j machine \<Rightarrow> halt + 'j machine" where
  "resume_loop E r 0 m = Inr m"
| "resume_loop E r (Suc numPending) m =
     (case pending_ops r (m_process m) of
        [] \<Rightarrow> Inl (Trapped DanglingReference)
      | h # _ \<Rightarrow> (case resume_handle E r h m of
          Inl e \<Rightarrow> Inl e
        | Inr m' \<Rightarrow> resume_loop E r numPending (on_process (pop_pending_op r) m')))"

definition resumePendingOps ::
  "'j process env \<Rightarrow> nat \<Rightarrow> 'j machine \<Rightarrow> halt + (bool \<times> 'j machine)" where
  "resumePendingOps E r m =
     (let numPending = length (pending_ops r (m_process m)) in
      if numPending = 0 then Inr (False, m)
      else map_sum id (Pair True) (resume_loop E r numPending m))"

subsection \<open>One turn of \<open>IOContext::run\<close>\<close>

definition DEFAULT_MAX_EVENTS :: nat where "DEFAULT_MAX_EVENTS = 20"

text \<open>An event on a descriptor that is not managed any more is skipped.\<close>

primrec dispatch_events ::
  "'j process env \<Rightarrow> (int \<times> u32) list \<Rightarrow> 'j machine \<Rightarrow> halt + 'j machine" where
  "dispatch_events E [] m = Inr m"
| "dispatch_events E (ev # evs) m =
     (case smap_find (mManagedFD (mIoContext (m_process m))) (fst ev) of
        None \<Rightarrow> dispatch_events E evs m
      | Some aFD \<Rightarrow> (case resumePendingOps E aFD m of
          Inl e \<Rightarrow> Inl e
        | Inr (_, m') \<Rightarrow> dispatch_events E evs m'))"

text \<open>The second loop: tell epoll about every descriptor whose wanted events changed.\<close>

primrec update_interest :: "(int \<times> nat) list \<Rightarrow> ('j, unit) task" where
  "update_interest [] = Ret ()"
| "update_interest (mEl # rest) =
     co_bind (io_of (\<lambda>s. (mEpollFD (mIoContext s), get_afd s (snd mEl)))) (\<lambda>(ep, obj).
       case obj of
         None \<Rightarrow> Halt (Trapped NullPointer)
       | Some aFD \<Rightarrow>
           let io_state = mNextIOState aFD OR EPOLLET in
           co_then
             (if mIoState aFD = io_state then Ret ()
              else co_then (co_call (SysEpollMod ep (mFD aFD) io_state))
                (co_update (update_afd (snd mEl) (\<lambda>a. a\<lparr>mIoState := io_state\<rparr>))))
             (update_interest rest))"

text \<open>Code of the loop itself, which never suspends.\<close>

definition run_task :: "'j process env \<Rightarrow> ('j, unit) task \<Rightarrow> 'j machine \<Rightarrow> halt + 'j machine" where
  "run_task E c m = (case advance E c (m_calls m) (m_process m) of
     (Finished _, n, s) \<Rightarrow> Inr (m\<lparr>m_process := s, m_calls := n\<rparr>)
   | (Paused a c', n, s) \<Rightarrow> Inl Unfinished
   | (Ended h, n, s) \<Rightarrow> Inl h)"

definition IOContext_run_once :: "'j process env \<Rightarrow> 'j machine \<Rightarrow> halt + 'j machine" where
  "IOContext_run_once E m =
     (let nfds = e_call E (m_calls m)
            (SysEpollWait (mEpollFD (mIoContext (m_process m))) DEFAULT_MAX_EVENTS);
          m1 = m\<lparr>m_calls := Suc (m_calls m)\<rparr>
      in if s_ret nfds = -1
         then if s_errno nfds = EINTR then Inr m1 else Inl (Aborted (FromErrno (s_errno nfds)))
         else (case dispatch_events E (take (nat (s_ret nfds)) (s_events nfds)) m1 of
             Inl e \<Rightarrow> Inl e
           | Inr m2 \<Rightarrow>
               run_task E (update_interest (mManagedFD (mIoContext (m_process m2)))) m2))"

text \<open>The endless loop, observed for some number of turns.\<close>

primrec IOContext_run :: "'j process env \<Rightarrow> nat \<Rightarrow> 'j machine \<Rightarrow> halt + 'j machine" where
  "IOContext_run E 0 m = Inr m"
| "IOContext_run E (Suc turns) m = (case IOContext_run_once E m of
     Inl e \<Rightarrow> Inl e
   | Inr m' \<Rightarrow> IOContext_run E turns m')"

subsection \<open>Invariants over all interleavings\<close>

lemma keeps_update_interest [keeps]:
  assumes "io_blind I"
  shows "co_keeps I (update_interest els)"
proof (induction els)
  case (Cons el els)
  have interest: "co_keeps I (co_update (update_afd r (\<lambda>a. a\<lparr>mIoState := st\<rparr>)))" for r st
    by (rule co_keeps_update) (auto intro: io_blindD [OF assms] simp: queue_grows_def)
  show ?case
    unfolding update_interest.simps by (intro interest keeps Cons)
qed (simp add: keeps)

text \<open>
  What is kept by resuming the coroutines of a queue and by the loop's own bookkeeping is an
  invariant of the machine, whichever events arrive and in whatever order.
\<close>

locale machine_invariant =
  fixes M :: "'j machine \<Rightarrow> bool"
  assumes resumed: "M m \<Longrightarrow> resume_loop E r k m = Inr m' \<Longrightarrow> M m'"
    and interest: "M m \<Longrightarrow> run_task E (update_interest els) m = Inr m' \<Longrightarrow> M m'"
    and counted: "M m \<Longrightarrow> M (m\<lparr>m_calls := k\<rparr>)"
begin

lemma dispatch_keeps: "M m \<Longrightarrow> dispatch_events E evs m = Inr m' \<Longrightarrow> M m'"
proof (induction evs arbitrary: m)
  case (Cons ev evs)
  have "M m1" if "resumePendingOps E r m = Inr (b, m1)" for r b m1
    using that Cons.prems(1) resumed
    by (cases "resume_loop E r (length (pending_ops r (m_process m))) m")
      (auto simp: resumePendingOps_def Let_def split: if_splits)
  then show ?case
    using Cons by (auto split: option.splits sum.splits)
qed simp

lemma turn_keeps:
  assumes "M m" and "IOContext_run_once E m = Inr m'"
  shows "M m'"
  using assms(2) counted [OF assms(1)]
  by (auto simp: IOContext_run_once_def Let_def split: if_splits sum.splits
      dest!: dispatch_keeps [rotated] intro: interest)

lemma loop_keeps: "M m \<Longrightarrow> IOContext_run E turns m = Inr m' \<Longrightarrow> M m'"
  by (induction turns arbitrary: m) (auto split: sum.splits dest: turn_keeps)

end

text \<open>
  An invariant of the process that every coroutine keeps between its suspensions gives one of the
  machine. The locale is what the loop asks of it: it must not depend on subscriptions, on which
  coroutine runs, and survive what the loop does to queues.
\<close>

locale process_invariant =
  fixes I :: "'j process \<Rightarrow> bool"
  assumes blind: "io_blind (\<lambda>_::unit. I)"
    and popped: "I s \<Longrightarrow> I (pop_pending_op r s)"
    and handle: "I s \<Longrightarrow> I (s\<lparr>running := h\<rparr>)"
begin

definition machine_ok :: "'j machine \<Rightarrow> bool" where
  "machine_ok m \<longleftrightarrow> I (m_process m) \<and>
     (\<forall>h a c. m_pool m h = Some (a, c) \<longrightarrow> co_keeps (\<lambda>_::unit. I) c)"

lemma advance_keeps:
  assumes "guarantee (\<lambda>_::unit. I) c () s"
  shows "case advance E c n s of
      (Finished _, _, s') \<Rightarrow> I s'
    | (Paused _ c', _, s') \<Rightarrow> I s' \<and> co_keeps (\<lambda>_::unit. I) c'
    | (Ended h, _, s') \<Rightarrow> h = Killed SIGPIPE \<longrightarrow> I s' \<and> \<not> sigpipe_ignored s'"
  using assms by (induction c arbitrary: n s) (auto simp: co_keeps_def)

lemma start_keeps:
  assumes "machine_ok m" and "co_keeps (\<lambda>_::unit. I) c" and "start E h c m = Inr m'"
  shows "machine_ok m'"
proof -
  have "guarantee (\<lambda>_::unit. I) c () ((m_process m)\<lparr>running := h\<rparr>)"
    using assms(1,2) handle by (simp add: machine_ok_def co_keeps_def)
  from advance_keeps [OF this, of E "m_calls m"] assms show ?thesis
    by (auto simp: start_def machine_ok_def split: prod.splits progress.splits if_splits)
qed

lemma resume_handle_keeps:
  assumes "machine_ok m" and "resume_handle E r h m = Inr m'"
  shows "machine_ok m'"
proof -
  from assms(2) obtain c where "m_pool m h = Some (r, c)" "start E h c m = Inr m'"
    by (auto simp: resume_handle_def split: option.splits if_splits)
  moreover from this have "co_keeps (\<lambda>_::unit. I) c" using assms(1) unfolding machine_ok_def by blast
  ultimately show ?thesis using start_keeps assms(1) by blast
qed

lemma pop_keeps: "machine_ok m \<Longrightarrow> machine_ok (on_process (pop_pending_op r) m)"
  by (simp add: machine_ok_def on_process_def popped)

lemma resume_loop_keeps:
  "machine_ok m \<Longrightarrow> resume_loop E r k m = Inr m' \<Longrightarrow> machine_ok m'"
proof (induction k arbitrary: m)
  case (Suc k)
  then show ?case
    by (auto split: list.splits sum.splits dest!: resume_handle_keeps [OF Suc.prems(1)] intro: pop_keeps)
qed simp

lemma interest_keeps:
  assumes "machine_ok m" and "run_task E (update_interest els) m = Inr m'"
  shows "machine_ok m'"
proof -
  have "guarantee (\<lambda>_::unit. I) (update_interest els) () (m_process m)"
    using assms(1) keeps_update_interest [OF blind] by (simp add: machine_ok_def co_keeps_def)
  from advance_keeps [OF this, of E "m_calls m"] assms show ?thesis
    by (auto simp: run_task_def machine_ok_def split: prod.splits progress.splits)
qed

end

sublocale process_invariant \<subseteq> machine_invariant machine_ok
proof
  show "machine_ok (m\<lparr>m_calls := k\<rparr>)" if "machine_ok m" for m :: "'j machine" and k
    using that by (simp add: machine_ok_def)
qed (fact resume_loop_keeps interest_keeps)+

text \<open>
  A process in which \<open>SIGPIPE\<close> stays ignored is not killed by it, whatever its coroutines write to and
  whenever the other ends are closed.
\<close>

locale broken_pipe_safe = process_invariant +
  assumes ignored: "I s \<Longrightarrow> sigpipe_ignored s"
begin

lemma advance_survives:
  assumes "guarantee (\<lambda>_::unit. I) c () s"
  shows "advance E c n s \<noteq> (Ended (Killed SIGPIPE), n', s')"
  using advance_keeps [OF assms, of E n] ignored by auto

lemma start_survives:
  assumes "machine_ok m" and "co_keeps (\<lambda>_::unit. I) c"
  shows "start E h c m \<noteq> Inl (Killed SIGPIPE)"
proof -
  have "guarantee (\<lambda>_::unit. I) c () ((m_process m)\<lparr>running := h\<rparr>)"
    using assms handle by (simp add: machine_ok_def co_keeps_def)
  from advance_survives [OF this, of E "m_calls m"] show ?thesis
    by (auto simp: start_def split: prod.splits progress.splits if_splits)
qed

lemma resume_loop_survives: "machine_ok m \<Longrightarrow> resume_loop E r k m \<noteq> Inl (Killed SIGPIPE)"
proof (induction k arbitrary: m)
  case (Suc k)
  have "co_keeps (\<lambda>_::unit. I) c" if "m_pool m h = Some (a, c)" for h a c
    using Suc.prems that unfolding machine_ok_def by blast
  then have "resume_handle E r h m \<noteq> Inl (Killed SIGPIPE)" for h
    using start_survives [OF Suc.prems] by (auto simp: resume_handle_def split: option.split)
  moreover have "machine_ok (on_process (pop_pending_op r) m')" if "resume_handle E r h m = Inr m'" for h m'
    by (rule pop_keeps [OF resume_handle_keeps [OF Suc.prems that]])
  ultimately show ?case using Suc.IH by (auto split: list.split sum.split)
qed simp

lemma dispatch_survives: "machine_ok m \<Longrightarrow> dispatch_events E evs m \<noteq> Inl (Killed SIGPIPE)"
proof (induction evs arbitrary: m)
  case (Cons ev evs)
  have "resumePendingOps E r m \<noteq> Inl (Killed SIGPIPE)" for r
    using resume_loop_survives [OF Cons.prems, of E r "length (pending_ops r (m_process m))"]
    by (cases "resume_loop E r (length (pending_ops r (m_process m))) m")
      (auto simp: resumePendingOps_def Let_def)
  moreover have "machine_ok m'" if "resumePendingOps E r m = Inr (b, m')" for r b m'
    using that Cons.prems resume_loop_keeps
    by (cases "resume_loop E r (length (pending_ops r (m_process m))) m")
      (auto simp: resumePendingOps_def Let_def split: if_splits)
  ultimately show ?case using Cons.IH Cons.prems by (auto split: option.split sum.split)
qed simp

lemma turn_survives: "machine_ok m \<Longrightarrow> IOContext_run_once E m \<noteq> Inl (Killed SIGPIPE)"
proof -
  assume m: "machine_ok m"
  have "run_task E (update_interest els) m' \<noteq> Inl (Killed SIGPIPE)" if m': "machine_ok m'" for els m'
  proof -
    have "guarantee (\<lambda>_::unit. I) (update_interest els) () (m_process m')"
      using m' keeps_update_interest [OF blind] by (simp add: machine_ok_def co_keeps_def)
    from advance_survives [OF this, of E "m_calls m'"] show ?thesis
      by (auto simp: run_task_def split: prod.splits progress.splits)
  qed
  moreover have "machine_ok m2" if "dispatch_events E evs (m\<lparr>m_calls := k\<rparr>) = Inr m2" for evs k m2
    by (rule dispatch_keeps [OF counted [OF m] that])
  ultimately show ?thesis
    using dispatch_survives [OF counted [OF m]]
    by (auto simp: IOContext_run_once_def Let_def split: sum.split)
qed

lemma loop_survives: "machine_ok m \<Longrightarrow> IOContext_run E turns m \<noteq> Inl (Killed SIGPIPE)"
  by (induction turns arbitrary: m) (auto split: sum.split dest: turn_keeps simp: turn_survives)

end

end
