(* ===== verification/Cli.thy ===== *)
theory Cli
  imports SyncSession Scheduler
begin

text \<open>
  The program (\<open>app/shared_state_cli.hh\<close>, \<open>app/shared_state_cli.cc\<close>, \<open>app/shared-state-async.cc\<close>):
  the operations of the command line, the loops of the daemon and \<open>main\<close>. Every operation ends
  the process. A loop without end takes the number of rounds for which it is observed.
\<close>

subsection \<open>Reading and writing the state\<close>

text \<open>\<open>member.name.GetString()\<close> is a C string: the key ends at its first null character.\<close>

definition c_string :: "string \<Rightarrow> string" where
  "c_string s = takeWhile (\<lambda>c. c \<noteq> CHR 0x00) s"

text \<open>
  Durations are signed 64 bit numbers, and nothing keeps \<open>register\<close> from storing some whose sum is
  none: the addition is then undefined.
\<close>

definition int64_add :: "int \<Rightarrow> int \<Rightarrow> int option" where
  "int64_add a b = (if - (2 ^ 63) \<le> a + b \<and> a + b < 2 ^ 63 then Some (a + b) else None)"

definition insert_ttl :: "DataTypeConf \<Rightarrow> int option" where
  "insert_ttl conf = Option.bind (int64_add (mBleachTTL conf) (mUpdateInterval conf)) (\<lambda>t. int64_add t 1)"

definition insert_one :: "'j ext \<Rightarrow> string \<Rightarrow> string \<times> 'j \<Rightarrow> ('j, unit) task" where
  "insert_one X typeName member = co_bind co_get (\<lambda>s.
     let confs = smap_touch DataTypeConf_default typeName (mTypeConf s) in
     case insert_ttl (the (smap_find confs typeName)) of
       None \<Rightarrow> Halt (Trapped SignedOverflow)
     | Some ttl \<Rightarrow> (case smap_find (mStates s) typeName of
         None \<Rightarrow> Halt (Trapped DanglingReference)
       | Some tState \<Rightarrow>
           let entry = \<lparr>mAuthor = authorPlaceOlder X, mTtl = ttl, mData = snd member\<rparr> in
           co_update (\<lambda>s. s\<lparr>mTypeConf := confs,
             mStates := smap_put typeName (smap_put (c_string (fst member)) entry tState) (mStates s)\<rparr>)))"

primrec insert_members :: "'j ext \<Rightarrow> string \<Rightarrow> (string \<times> 'j) list \<Rightarrow> ('j, unit) task" where
  "insert_members X typeName [] = Ret ()"
| "insert_members X typeName (member # rest) =
     co_then (insert_one X typeName member) (insert_members X typeName rest)"

definition cli_insert :: "'j ext \<Rightarrow> string \<Rightarrow> ('j, unit) task" where
  "cli_insert X typeName =
     co_bind co_get (\<lambda>s. case smap_find (mStates s) typeName of
       None \<Rightarrow> Halt (Aborted (make_error_condition UNKOWN_DATA_TYPE))
     | Some _ \<Rightarrow>
         co_bind (co_call ReadStdin) (\<lambda>inp.
           if x_parse_error X (s_bytes inp) then Halt (Exited EINVAL)
           else
             co_then (insert_members X typeName (x_get_object X (x_parse X (s_bytes inp))))
             (co_then (or_exit (syncWithPeer X typeName (localInstanceAddr X)))
             (Halt (Exited 0)))))"

text \<open>\<open>dump\<close> and \<open>get\<close> differ in what they print of the state they fetched.\<close>

definition fetch_and_print ::
  "'j ext \<Rightarrow> ('j state_slice \<Rightarrow> byte list) \<Rightarrow> string \<Rightarrow> ('j, unit) task" where
  "fetch_and_print X text typeName =
     co_bind co_get (\<lambda>s. case smap_find (mStates s) typeName of
       None \<Rightarrow> Halt (Aborted (make_error_condition UNKOWN_DATA_TYPE))
     | Some _ \<Rightarrow>
         co_then (or_exit (syncWithPeer X typeName (localInstanceAddr X)))
         (co_bind co_get (\<lambda>s. case smap_find (mStates s) typeName of
            None \<Rightarrow> Halt (Trapped DanglingReference)
          | Some tState \<Rightarrow>
              co_then
                (if tState = [] then co_call (WriteStdout (bytes_of_string ''{}'' @ [10]))
                 else co_call (WriteStdout (text tState @ [10])))
                (Halt (Exited 0)))))"

definition dump_text :: "'j ext \<Rightarrow> 'j state_slice \<Rightarrow> byte list" where
  "dump_text X tState =
     (case x_serial_slice X (StateEntry_serial_process X) TO_JSON (x_ctx X) ''tState'' tState of
        (ctx, _) \<Rightarrow> x_print X (x_member X (mJson ctx) ''tState''))"

definition dump :: "'j ext \<Rightarrow> string \<Rightarrow> ('j, unit) task" where
  "dump X = fetch_and_print X (dump_text X)"

definition get :: "'j ext \<Rightarrow> string \<Rightarrow> ('j, unit) task" where
  "get X = fetch_and_print X (\<lambda>tState. x_print_pretty X (clean_json X tState))"

subsection \<open>The daemon\<close>

primrec acceptReqSyncConnectionsLoop :: "'j ext \<Rightarrow> nat \<Rightarrow> nat \<Rightarrow> ('j, unit) task" where
  "acceptReqSyncConnectionsLoop X 0 listener = Halt Unfinished"
| "acceptReqSyncConnectionsLoop X (Suc fuel) listener =
     co_bind (ListeningSocket_accept listener) (\<lambda>socket. case socket of
       None \<Rightarrow> Halt (Trapped NullPointer)
     | Some a \<Rightarrow>
         co_bind (with_errc (handleReqSyncConnection X a) None) (\<lambda>(tSuccess, reqSyncErr).
           acceptReqSyncConnectionsLoop X fuel listener))"

text \<open>A second in steady clock ticks, and the time bleached in one round.\<close>

definition SECOND :: int where "SECOND = 1000000000"

definition bleachTimes :: "int \<Rightarrow> int" where
  "bleachTimes elapsed = cdiv (if elapsed > SECOND then elapsed else SECOND) SECOND"

primrec bleach_types :: "int \<Rightarrow> (string \<times> DataTypeConf) list \<Rightarrow> ('j, unit) task" where
  "bleach_types secs [] = Ret ()"
| "bleach_types secs (conf # rest) =
     co_then (or_exit (bleach (fst conf) secs)) (bleach_types secs rest)"

definition bleach_round :: "'j ext \<Rightarrow> int \<Rightarrow> ('j, int) task" where
  "bleach_round X lastBleachCompletedTS =
     co_then (or_exit (loadRegisteredTypes X))
     (co_bind (co_call SteadyClockNow) (\<lambda>now.
      co_bind co_get (\<lambda>s.
      co_then (bleach_types (bleachTimes (s_ret now - lastBleachCompletedTS)) (mTypeConf s))
      (co_bind (co_call SteadyClockNow) (\<lambda>completed. Ret (s_ret completed))))))"

definition errc_of :: "error_condition option \<Rightarrow> error_condition" where
  "errc_of tErr = (case tErr of None \<Rightarrow> Errc 0 | Some e \<Rightarrow> e)"

text \<open>The loop condition: the timer exists, no error so far, and the wait of 999 ms succeeds.\<close>

definition timer_tick ::
  "nat option \<Rightarrow> error_condition option \<Rightarrow> ('j, bool \<times> error_condition option) task" where
  "timer_tick asyncTimer tErr = (case asyncTimer of
     None \<Rightarrow> Ret (False, tErr)
   | Some a \<Rightarrow>
       if tErr \<noteq> None then Ret (False, tErr)
       else with_errc (AsyncTimer_wait a 0 999000000) tErr)"

primrec bleach_loop ::
  "'j ext \<Rightarrow> nat \<Rightarrow> nat option \<Rightarrow> error_condition option \<Rightarrow> int \<Rightarrow> ('j, unit) task" where
  "bleach_loop X 0 asyncTimer tErr lastBleachCompletedTS = Halt Unfinished"
| "bleach_loop X (Suc fuel) asyncTimer tErr lastBleachCompletedTS =
     co_bind (timer_tick asyncTimer tErr) (\<lambda>(go, tErr).
       if \<not> go then Halt (Aborted (errc_of tErr))
       else co_bind (bleach_round X lastBleachCompletedTS) (\<lambda>completed.
         bleach_loop X fuel asyncTimer tErr completed))"

definition bleachDataLoop :: "'j ext \<Rightarrow> nat \<Rightarrow> ('j, unit) task" where
  "bleachDataLoop X fuel =
     co_bind (co_call SteadyClockNow) (\<lambda>now.
     co_bind (with_errc AsyncTimer_create None) (\<lambda>(asyncTimer, tErr).
       bleach_loop X fuel asyncTimer tErr (s_ret now)))"

text \<open>The types to synchronise at this second; \<open>None\<close> is the division by zero of the hardware.\<close>

fun shouldSyncTypes :: "int \<Rightarrow> (string \<times> DataTypeConf) list \<Rightarrow> string list option" where
  "shouldSyncTypes tNow [] = Some []"
| "shouldSyncTypes tNow ((typeName, typeConf) # rest) =
     (if mUpdateInterval typeConf = 0 then None
      else map_option
        (\<lambda>ts. if cmod tNow (mUpdateInterval typeConf) \<noteq> 0 then ts else typeName # ts)
        (shouldSyncTypes tNow rest))"

primrec sync_peers :: "'j ext \<Rightarrow> string \<Rightarrow> sockaddr_storage list \<Rightarrow> ('j, unit) task" where
  "sync_peers X typeName [] = Ret ()"
| "sync_peers X typeName (peerAddress # rest) =
     co_bind (with_errc (syncWithPeer X typeName peerAddress) None) (\<lambda>(peerSynced, errInfo).
       sync_peers X typeName rest)"

primrec sync_types :: "'j ext \<Rightarrow> string list \<Rightarrow> sockaddr_storage list \<Rightarrow> ('j, unit) task" where
  "sync_types X [] peersAddresses = Ret ()"
| "sync_types X (typeName # rest) peersAddresses =
     co_then (sync_peers X typeName peersAddresses) (sync_types X rest peersAddresses)"

definition peer_round :: "'j ext \<Rightarrow> nat \<Rightarrow> ('j, unit) task" where
  "peer_round X fuel =
     co_then (or_exit (loadRegisteredTypes X))
     (co_bind (co_call SteadyClockNow) (\<lambda>now.
      co_bind co_get (\<lambda>s. case shouldSyncTypes (cdiv (s_ret now) SECOND) (mTypeConf s) of
        None \<Rightarrow> Halt (Trapped DivisionByZero)
      | Some types \<Rightarrow>
          if types = [] then Ret ()
          else co_bind (or_exit (getCandidatesNeighbours X fuel)) (\<lambda>(_, peersAddresses).
            sync_types X types peersAddresses))))"

primrec peer_loop ::
  "'j ext \<Rightarrow> nat \<Rightarrow> nat \<Rightarrow> nat option \<Rightarrow> error_condition option \<Rightarrow> ('j, unit) task" where
  "peer_loop X 0 candFuel asyncTimer tErr = Halt Unfinished"
| "peer_loop X (Suc fuel) candFuel asyncTimer tErr =
     co_bind (timer_tick asyncTimer tErr) (\<lambda>(go, tErr).
       if \<not> go then Halt (Exited (error_condition_value X (errc_of tErr)))
       else co_then (peer_round X candFuel) (peer_loop X fuel candFuel asyncTimer tErr))"

text \<open>
  \<open>peer\<close> up to the two tasks it starts, and from there on. \<open>acceptConnectionsTask.resume()\<close> and
  \<open>bleachDataTask.resume()\<close> run these tasks up to their first suspension.
\<close>

definition peer_setup :: "'j ext \<Rightarrow> ('j, nat option) task" where
  "peer_setup X =
     co_then (co_update (\<lambda>s. s\<lparr>isPeer := True\<rparr>))
     (co_then (or_exit (loadRegisteredTypes X))
     (or_exit (setupListener TCP_PORT)))"

definition peer_main :: "'j ext \<Rightarrow> nat \<Rightarrow> ('j, unit) task" where
  "peer_main X fuel =
     co_bind (with_errc AsyncTimer_create None) (\<lambda>(asyncTimer, tErr).
       peer_loop X fuel fuel asyncTimer tErr)"

definition peer ::
  "'j process env \<Rightarrow> 'j ext \<Rightarrow> nat \<Rightarrow> 'j machine \<Rightarrow> halt + 'j machine" where
  "peer E X fuel m =
     (case advance E (peer_setup X) (m_calls m) ((m_process m)\<lparr>running := 0\<rparr>) of
        (Ended e, n, s) \<Rightarrow> Inl e
      | (Paused a c, n, s) \<Rightarrow> Inl Unfinished
      | (Finished None, n, s) \<Rightarrow> Inl (Trapped NullPointer)
      | (Finished (Some listener), n, s) \<Rightarrow>
          (case start E 1 (acceptReqSyncConnectionsLoop X fuel listener)
              (m\<lparr>m_process := s, m_calls := n\<rparr>) of
             Inl e \<Rightarrow> Inl e
           | Inr m1 \<Rightarrow> (case start E 2 (bleachDataLoop X fuel) m1 of
               Inl e \<Rightarrow> Inl e
             | Inr m2 \<Rightarrow> start E 0 (peer_main X fuel) m2)))"

subsection \<open>Other operations\<close>

primrec print_addresses :: "'j ext \<Rightarrow> sockaddr_storage list \<Rightarrow> ('j, unit) task" where
  "print_addresses X [] = Ret ()"
| "print_addresses X (a # rest) =
     co_then (co_call (WriteStdout (bytes_of_string (x_tostring X a) @ [10]))) (print_addresses X rest)"

text \<open>Discovery without a given list, shared by \<open>discover\<close> and \<open>sync\<close>.\<close>

definition discover_or_exit :: "'j ext \<Rightarrow> nat \<Rightarrow> ('j, sockaddr_storage list) task" where
  "discover_or_exit X fuel =
     co_bind (with_errc (getCandidatesNeighbours X fuel) None) (\<lambda>((found, addrs), mErr).
       if \<not> found then Halt (Exited (error_condition_value X (errc_of mErr))) else Ret addrs)"

definition discover :: "'j ext \<Rightarrow> nat \<Rightarrow> ('j, unit) task" where
  "discover X fuel =
     co_bind (discover_or_exit X fuel) (\<lambda>addrs.
       co_then (print_addresses X addrs) (Halt (Exited 0)))"

primrec sync_all ::
  "'j ext \<Rightarrow> string \<Rightarrow> sockaddr_storage list \<Rightarrow> int \<Rightarrow> ('j, int) task" where
  "sync_all X dataTypeName [] retval = Ret retval"
| "sync_all X dataTypeName (peerAddress # rest) retval =
     co_bind (with_errc (syncWithPeer X dataTypeName peerAddress) None) (\<lambda>(peerSynced, errInfo).
       sync_all X dataTypeName rest
         (if peerSynced then retval else error_condition_value X (errc_of errInfo)))"

definition sync :: "'j ext \<Rightarrow> nat \<Rightarrow> string \<Rightarrow> sockaddr_storage list \<Rightarrow> ('j, unit) task" where
  "sync X fuel dataTypeName pPeerAddresses =
     co_bind (if pPeerAddresses = [] then discover_or_exit X fuel else Ret pPeerAddresses) (\<lambda>found.
     co_bind (sync_all X dataTypeName
         ([localInstanceAddr X] @ found @ [localInstanceAddr X]) 0) (\<lambda>retval.
       Halt (Exited retval)))"

definition cli_registerDataType ::
  "'j ext \<Rightarrow> string \<Rightarrow> string \<Rightarrow> int \<Rightarrow> int \<Rightarrow> ('j, unit) task" where
  "cli_registerDataType X typeName typeScope updateInterval TTL =
     co_then (or_exit (registerDataType X typeName typeScope updateInterval TTL)) (Halt (Exited 0))"

subsection \<open>main\<close>

text \<open>
  \<open>std::stoul\<close>: blanks, a sign, digits. The value is an \<open>unsigned long\<close>, a minus sign negates it
  modulo \<open>2 ^ 64\<close>, and \<open>std::chrono::seconds\<close> keeps it as a signed number.
\<close>

definition stoul :: "string \<Rightarrow> trap + u64" where
  "stoul s =
     (let t = dropWhile is_blank s;
          neg = (take 1 t = ''-'');
          ds = takeWhile is_digit (if take 1 t = ''-'' \<or> take 1 t = ''+'' then drop 1 t else t)
      in if ds = [] then Inl InvalidNumber
         else if read_nat ds \<ge> 2 ^ 64 then Inl OutOfRange
         else Inr (if neg then - of_nat (read_nat ds) else of_nat (read_nat ds)))"

datatype 'j main_result = MainReturn int | MainRun "('j, unit) task" | MainPeer

fun parse_addresses :: "'j ext \<Rightarrow> string list \<Rightarrow> sockaddr_storage list option" where
  "parse_addresses X [] = Some []"
| "parse_addresses X (a # rest) = (case x_inet_pton X a of
     None \<Rightarrow> None
   | Some addr \<Rightarrow>
       map_option (Cons (x_setport X addr TCP_PORT)) (parse_addresses X rest))"

text \<open>\<open>signal(SIGPIPE, SIG_IGN)\<close>, for \<open>peer\<close> and \<open>sync\<close> only.\<close>

definition ignore_sigpipe :: "('j, unit) task" where
  "ignore_sigpipe = co_update (\<lambda>s. s\<lparr>sigpipe_ignored := True\<rparr>)"

definition main_dispatch ::
  "'j ext \<Rightarrow> nat \<Rightarrow> string list \<Rightarrow> ('j, 'j main_result) task" where
  "main_dispatch X fuel argv = (let operationName = argv ! 1; argc = length argv in
     if operationName = ''discover'' then Ret (MainRun (discover X fuel))
     else if operationName = ''peer'' then co_then ignore_sigpipe (Ret MainPeer)
     else if argc < 3 then Ret (MainReturn (- EINVAL))
     else let dataTypeName = argv ! 2 in
       if operationName = ''dump'' then Ret (MainRun (dump X dataTypeName))
       else if operationName = ''get'' then Ret (MainRun (get X dataTypeName))
       else if operationName = ''insert'' then Ret (MainRun (cli_insert X dataTypeName))
       else if operationName = ''sync'' then (case parse_addresses X (drop 3 argv) of
           None \<Rightarrow> Ret (MainReturn (-14))
         | Some peerAddresses \<Rightarrow>
             co_then ignore_sigpipe (Ret (MainRun (sync X fuel dataTypeName peerAddresses))))
       else if operationName = ''register'' then
         if argc \<noteq> 6 then Ret (MainReturn (- EINVAL))
         else (case stoul (argv ! 4) of
             Inl e \<Rightarrow> Halt (Trapped e)
           | Inr updateInterval \<Rightarrow> (case stoul (argv ! 5) of
               Inl e \<Rightarrow> Halt (Trapped e)
             | Inr bleachTTL \<Rightarrow>
                 Ret (MainRun (cli_registerDataType X dataTypeName (argv ! 3)
                   (sint updateInterval) (sint bleachTTL)))))
       else Ret (MainReturn (- EINVAL)))"

text \<open>The constructor of \<open>SharedStateCli\<close> loads the registry, without an error pointer.\<close>

definition SharedStateCli :: "'j ext \<Rightarrow> ('j, bool) task" where
  "SharedStateCli X = or_exit (loadRegisteredTypes X)"

definition main :: "'j ext \<Rightarrow> nat \<Rightarrow> string list \<Rightarrow> ('j, 'j main_result) task" where
  "main X fuel argv =
     (if length argv < 2 then Ret (MainReturn (- EINVAL))
      else if argv ! 1 = ''--help'' \<or> argv ! 1 = ''help'' then Ret (MainReturn 0)
      else
        co_bind (or_exit IOContext_setup) (\<lambda>_.
        co_then (SharedStateCli X) (main_dispatch X fuel argv)))"

end
