(* ===== verification/Daemon.thy ===== *)
theory Daemon
  imports Cli
begin

text \<open>
  The daemon over all interleavings: what its three coroutines keep of an invariant between their
  suspensions holds at every turn of the event loop. The rules are proved once, in a locale that
  joins what the event loop and what the sessions ask of an invariant, and used for the
  replicated state and for the table of descriptors.
\<close>

subsection \<open>What the coroutines of the daemon keep\<close>

lemma keeps_timer_tick [keeps]: "io_safe I \<Longrightarrow> co_keeps I (timer_tick t e)"
  unfolding timer_tick_def by (intro keeps)

context session_invariant
begin

lemma keeps_accept_loop:
  assumes X: "ordered_maps X"
  shows "co_keeps I (acceptReqSyncConnectionsLoop X fuel listener)"
proof (induction fuel)
  case (Suc fuel)
  show ?case unfolding acceptReqSyncConnectionsLoop.simps
    by (intro session_keeps keeps Suc X safe)
qed (simp add: keeps)

lemma keeps_bleach_types: "co_keeps I (bleach_types secs confs)"
  by (induction confs) (auto intro!: keeps bleach_keeps)

lemma keeps_bleach_loop:
  assumes X: "ordered_maps X"
  shows "co_keeps I (bleach_loop X fuel t e ts)"
proof (induction fuel arbitrary: e ts)
  case (Suc fuel)
  show ?case unfolding bleach_loop.simps bleach_round_def
    by (intro session_keeps keeps_bleach_types keeps Suc X safe)
qed (simp add: keeps)

lemma keeps_bleachDataLoop: "ordered_maps X \<Longrightarrow> co_keeps I (bleachDataLoop X fuel)"
  unfolding bleachDataLoop_def by (intro keeps safe keeps_bleach_loop)

lemma keeps_sync_peers: "ordered_maps X \<Longrightarrow> co_keeps I (sync_peers X ty peers)"
  by (induction peers) (auto intro!: session_keeps keeps)

lemma keeps_sync_types: "ordered_maps X \<Longrightarrow> co_keeps I (sync_types X tys peers)"
  by (induction tys) (auto intro!: keeps_sync_peers keeps)

lemma keeps_peer_loop:
  assumes X: "ordered_maps X"
  shows "co_keeps I (peer_loop X fuel k t e)"
proof (induction fuel arbitrary: e)
  case (Suc fuel)
  show ?case unfolding peer_loop.simps peer_round_def
    by (intro session_keeps keeps_sync_types keeps Suc X safe)
qed (simp add: keeps)

lemma keeps_peer_main: "ordered_maps X \<Longrightarrow> co_keeps I (peer_main X fuel)"
  unfolding peer_main_def by (intro keeps safe keeps_peer_loop)

lemma keeps_peer_setup: "ordered_maps X \<Longrightarrow> co_keeps I (peer_setup X)"
  unfolding peer_setup_def by (intro session_keeps keeps safe co_keeps_update flag)

end

subsection \<open>Invariants of the daemon\<close>

lemma peer_steps:
  assumes "peer E X fuel m = Inr m1"
  obtains l n s ma mb where
    "advance E (peer_setup X) (m_calls m) ((m_process m)\<lparr>running := 0\<rparr>) = (Finished (Some l), n, s)"
    and "start E 1 (acceptReqSyncConnectionsLoop X fuel l) (m\<lparr>m_process := s, m_calls := n\<rparr>) = Inr ma"
    and "start E 2 (bleachDataLoop X fuel) ma = Inr mb" and "start E 0 (peer_main X fuel) mb = Inr m1"
  using assms that by (auto simp: peer_def split: prod.splits progress.splits option.splits sum.splits)

locale daemon_rules = process_invariant I + session_invariant "\<lambda>_::unit. I" for I :: "'j process \<Rightarrow> bool"
begin

lemma peer_keeps:
  assumes X: "ordered_maps X" and I: "I (m_process m)" and pool: "m_pool m = Map.empty"
    and peer: "peer E X fuel m = Inr m1"
  shows "machine_ok m1"
proof -
  have "guarantee (\<lambda>_::unit. I) (peer_setup X) () ((m_process m)\<lparr>running := 0\<rparr>)"
    using keeps_peer_setup [OF X] handle [OF I] by (simp add: co_keeps_def)
  note booted = advance_keeps [OF this, of E "m_calls m"]
  from peer obtain l n s ma mb where
    l: "advance E (peer_setup X) (m_calls m) ((m_process m)\<lparr>running := 0\<rparr>) = (Finished (Some l), n, s)"
    and ma: "start E 1 (acceptReqSyncConnectionsLoop X fuel l) (m\<lparr>m_process := s, m_calls := n\<rparr>) = Inr ma"
    and mb: "start E 2 (bleachDataLoop X fuel) ma = Inr mb" and m1: "start E 0 (peer_main X fuel) mb = Inr m1"
    by (rule peer_steps)
  have "machine_ok (m\<lparr>m_process := s, m_calls := n\<rparr>)"
    using booted l pool by (simp add: machine_ok_def)
  from start_keeps [OF this keeps_accept_loop [OF X] ma] have "machine_ok ma" .
  from start_keeps [OF this keeps_bleachDataLoop [OF X] mb] have "machine_ok mb" .
  from start_keeps [OF this keeps_peer_main [OF X] m1] show "machine_ok m1" .
qed

lemma daemon_keeps:
  assumes "ordered_maps X" and "I (m_process m)" and "m_pool m = Map.empty"
    and "peer E X fuel m = Inr m1" and "IOContext_run E turns m1 = Inr m2"
  shows "I (m_process m2)"
  using loop_keeps [OF peer_keeps [OF assms(1-4)] assms(5)] by (simp add: machine_ok_def)

end

interpretation ss: daemon_rules ss_wf
  by unfold_locales
    (simp_all add: io_safe_blind io_free_safe ss_wf_io_free ss_wf_def pop_pending_op_def)

interpretation fds: daemon_rules "\<lambda>s. io_wf (mIoContext s)"
  by unfold_locales (simp_all add: io_safe_blind io_wf_safe pop_pending_op_def io_wf_update_afd)

text \<open>And those under which it survives broken connections.\<close>

locale daemon_survival = daemon_rules + broken_pipe_safe
begin

lemma peer_survives:
  assumes X: "ordered_maps X" and I: "I (m_process m)" and pool: "m_pool m = Map.empty"
  shows "peer E X fuel m \<noteq> Inl (Killed SIGPIPE)"
proof -
  have boot: "guarantee (\<lambda>_::unit. I) (peer_setup X) () ((m_process m)\<lparr>running := 0\<rparr>)"
    using keeps_peer_setup [OF X] handle [OF I] by (simp add: co_keeps_def)
  obtain p n s where run: "advance E (peer_setup X) (m_calls m) ((m_process m)\<lparr>running := 0\<rparr>) = (p, n, s)"
    by (metis prod_cases3)
  show ?thesis
  proof (cases "\<exists>l. p = Finished (Some l)")
    case False
    moreover have "p \<noteq> Ended (Killed SIGPIPE)" using advance_survives [OF boot] run by metis
    ultimately show ?thesis using run by (auto simp: peer_def split: progress.split option.split)
  next
    case True
    then obtain l where p: "p = Finished (Some l)" by blast
    let ?m = "m\<lparr>m_process := s, m_calls := n\<rparr>"
    have ok: "machine_ok ?m"
      using advance_keeps [OF boot, of E "m_calls m"] run p pool by (simp add: machine_ok_def)
    have accept: "start E 1 (acceptReqSyncConnectionsLoop X fuel l) ?m \<noteq> Inl (Killed SIGPIPE)"
      by (rule start_survives [OF ok keeps_accept_loop [OF X]])
    have bleach: "start E 2 (bleachDataLoop X fuel) ma \<noteq> Inl (Killed SIGPIPE)" if "machine_ok ma" for ma
      by (rule start_survives [OF that keeps_bleachDataLoop [OF X]])
    have last: "start E 0 (peer_main X fuel) mb \<noteq> Inl (Killed SIGPIPE)" if "machine_ok mb" for mb
      by (rule start_survives [OF that keeps_peer_main [OF X]])
    have keeps: "machine_ok ma" if "start E 1 (acceptReqSyncConnectionsLoop X fuel l) ?m = Inr ma" for ma
      by (rule start_keeps [OF ok keeps_accept_loop [OF X] that])
    have more: "machine_ok mb" if "machine_ok ma" "start E 2 (bleachDataLoop X fuel) ma = Inr mb" for ma mb
      by (rule start_keeps [OF that(1) keeps_bleachDataLoop [OF X] that(2)])
    show ?thesis
      using accept bleach last keeps more by (simp add: peer_def run p split: sum.split) metis
  qed
qed

lemma daemon_survives:
  assumes "ordered_maps X" and "I (m_process m)" and "m_pool m = Map.empty"
  shows "peer E X fuel m \<noteq> Inl (Killed SIGPIPE) \<and>
    (\<forall>m1. peer E X fuel m = Inr m1 \<longrightarrow> IOContext_run E turns m1 \<noteq> Inl (Killed SIGPIPE))"
  using peer_survives [OF assms] loop_survives [OF peer_keeps [OF assms]] by blast

end

interpretation quiet: session_invariant "\<lambda>_::unit. sigpipe_ignored"
  by (rule app_free_session_invariant) (simp_all add: app_free_def io_free_safe io_free_def)

interpretation quiet: daemon_survival sigpipe_ignored
  by unfold_locales
    (simp_all add: io_safe_blind io_free_safe io_free_def pop_pending_op_def)

text \<open>\<open>main\<close> reaches \<open>peer\<close> with the signal ignored.\<close>

lemma main_peer_ignores:
  assumes "run E (main X fuel argv) n s = (Done MainPeer, n', s')"
  shows "sigpipe_ignored s'"
  using assms
  by (auto simp: main_def main_dispatch_def Let_def ignore_sigpipe_def co_then_def co_update_def run_bind
      split: prod.splits outcome.splits if_splits option.splits sum.splits)

subsection \<open>Properties\<close>

text \<open>
  C2. The daemon: after \<open>peer\<close> has started its three coroutines, and after any number of turns of
  the event loop, for whatever events and answers arrive and in whichever order the coroutines
  are resumed, the state is well-formed: all maps are ordered and every type that has a state has
  a configuration, so that no access to \<open>mTypeConf\<close> in a merge ever throws; and the table of
  managed descriptors maps each descriptor to a live object that holds it.
\<close>

theorem daemon_invariant:
  assumes "ordered_maps X" and "ss_wf (m_process m)" and "io_wf (mIoContext (m_process m))"
    and "m_pool m = Map.empty"
    and "peer E X fuel m = Inr m1" and "IOContext_run E turns m1 = Inr m2"
  shows "ss_wf (m_process m2) \<and> io_wf (mIoContext (m_process m2))"
  using ss.daemon_keeps [OF assms(1,2,4-6)] fds.daemon_keeps [OF assms(1,3,4-6)] by blast

text \<open>
  C5. The daemon survives its peers: started by \<open>main\<close> with the operation \<open>peer\<close>, it is never killed by
  \<open>SIGPIPE\<close>, neither while it starts nor in any turn of the event loop, whatever its coroutines send
  or write and whenever peers, hooks or the local client close their end; such a write fails with
  \<open>EPIPE\<close> where it happens.
\<close>

theorem daemon_survives_broken_pipe:
  assumes "ordered_maps X" and "run E (main X fuel argv) 0 s = (Done MainPeer, n, s1)"
    and "m = \<lparr>m_process = s1, m_pool = Map.empty, m_calls = n\<rparr>"
  shows "peer E X fuel m \<noteq> Inl (Killed SIGPIPE) \<and>
    (\<forall>m1. peer E X fuel m = Inr m1 \<longrightarrow> IOContext_run E turns m1 \<noteq> Inl (Killed SIGPIPE))"
  by (rule quiet.daemon_survives [OF assms(1)]) (use main_peer_ignores [OF assms(2)] assms(3) in simp_all)

subsection \<open>Witnesses\<close>

text \<open>A machine on which nothing has happened yet, and an environment without any traffic.\<close>

definition demo_machine :: "json machine" where
  "demo_machine = \<lparr>m_process = demo_process demo_mine, m_pool = Map.empty, m_calls = 0\<rparr>"

definition demo_daemon_env :: "'s env" where
  "demo_daemon_env = \<lparr>e_call = (\<lambda>n q. case q of
       SysAccept _ \<Rightarrow> sys_error EAGAIN
     | SysRead _ _ \<Rightarrow> sys_error EAGAIN
     | ReadFile _ \<Rightarrow> (sys_value 0)\<lparr>s_bytes := demo_conf_file\<rparr>
     | SysSocket \<Rightarrow> sys_value 5
     | SysTimerfdCreate \<Rightarrow> sys_value (6 + int n)
     | SysEpollWait _ _ \<Rightarrow> sys_error EINTR
     | _ \<Rightarrow> sys_value 0), e_interfere = (\<lambda>_ s. s)\<rparr>"

lemma demo_conf_read:
  obtains ctx where "\<not> x_parse_error (ref_ext ''a'') demo_conf_file" "mOk ctx"
    "x_serial_confs (ref_ext ''a'') (DataTypeConf_serial_process (ref_ext ''a'')) FROM_JSON
      ((x_ctx (ref_ext ''a''))\<lparr>mJson := x_parse (ref_ext ''a'') demo_conf_file\<rparr>) ''mTypeConf'' [] = (ctx, demo_confs)"
proof -
  have "\<not> x_parse_error (ref_ext ''a'') demo_conf_file"
    unfolding demo_conf_file_def by (rule ref.parse_line(2))
  then show thesis
    by (rule that [OF _ _ ref.confs_roundtrip [where host = "''a''" and name = "''mTypeConf''" and cold = "[]",
        OF demo_confs_wf, folded demo_conf_file_def]])
      (simp add: ref.empty_ctx)
qed

lemma demo_load:
  "advance demo_daemon_env (or_exit (loadRegisteredTypes (ref_ext ''a''))) n s =
     (Finished True, Suc n, s\<lparr>mTypeConf := demo_confs,
        mStates := drop_states demo_confs (create_states demo_confs (mStates s))\<rparr>)"
proof -
  obtain ctx where "\<not> x_parse_error (ref_ext ''a'') demo_conf_file" "mOk ctx"
    "x_serial_confs (ref_ext ''a'') (DataTypeConf_serial_process (ref_ext ''a'')) FROM_JSON
      ((x_ctx (ref_ext ''a''))\<lparr>mJson := x_parse (ref_ext ''a'') demo_conf_file\<rparr>) ''mTypeConf'' [] = (ctx, demo_confs)"
    by (rule demo_conf_read)
  then show ?thesis
    by (simp add: loadRegisteredTypes_def co_simps demo_daemon_env_def sys_value_def or_exit_bind)
qed

lemma demo_answers:
  "e_call demo_daemon_env n SysSocket = sys_value 5" "e_call demo_daemon_env n (SysSetsockopt fd opt v) = sys_value 0"
  "e_call demo_daemon_env n (SysBind fd p) = sys_value 0" "e_call demo_daemon_env n (SysListen fd j) = sys_value 0"
  "e_call demo_daemon_env n (SysFcntlGetFl fd) = sys_value 0"
  "e_call demo_daemon_env n (SysFcntlSetFlNonblock fd fl) = sys_value 0"
  "e_call demo_daemon_env n (SysEpollAdd ep fd ev) = sys_value 0"
  "e_call demo_daemon_env n (SysAccept fd) = sys_error EAGAIN" "e_call demo_daemon_env n (SysRead fd k) = sys_error EAGAIN"
  "e_call demo_daemon_env n SteadyClockNow = sys_value 0" "e_call demo_daemon_env n SysTimerfdCreate = sys_value (6 + int n)"
  "e_call demo_daemon_env n (SysTimerfdSettime fd secs ns) = sys_value 0"
  "e_call demo_daemon_env n (SysEpollWait ep k) = sys_error EINTR"
  by (simp_all add: demo_daemon_env_def)

lemmas demo_evaluation = demo_answers sys_value_def sys_error_def co_simps advance_bind or_exit_bind
  io_of_def on_fd_def registerFD_def attachReadonly_def attach_with_def watch_defs set_next_io_def
  with_watch_def await_suspend_def suspend_def shouldWait_def EAGAIN_def with_errc_bind

lemmas demo_objects = get_afd_def new_afd_def Let_def update_afd_def addPendingOp_def

lemma demo_listener:
  "\<exists>a n' s'. advance demo_daemon_env (or_exit (setupListener TCP_PORT)) n s = (Finished (Some a), n', s') \<and>
     get_afd s' a \<noteq> None"
  by (simp add: setupListener_def demo_evaluation demo_objects)

lemma demo_accept:
  "get_afd s l \<noteq> None \<Longrightarrow>
   \<exists>c n' s'. advance demo_daemon_env (acceptReqSyncConnectionsLoop X (Suc k) l) n s = (Paused l c, n', s') \<and>
     get_afd s' l \<noteq> None"
  by (simp add: ListeningSocket_accept_def AcceptOperation_def AcceptOperation_syscall_def demo_evaluation demo_objects)

lemma demo_timer:
  "\<exists>a n' s'. advance demo_daemon_env (with_errc AsyncTimer_create None) n s = (Finished (Some a, None), n', s') \<and>
     get_afd s' a \<noteq> None"
  "get_afd s a \<noteq> None \<Longrightarrow>
   \<exists>c n' s'. advance demo_daemon_env (timer_tick (Some a) None) n s = (Paused a c, n', s') \<and> get_afd s' a \<noteq> None"
  by (simp_all add: AsyncTimer_create_def timer_tick_def AsyncTimer_wait_def MAX_WAIT_NANOSECONDS_def
      ReadOp_def ReadOp_syscall_def demo_evaluation demo_objects)

lemma demo_loops:
  "\<exists>a c n' s'. advance demo_daemon_env (bleachDataLoop X (Suc k)) n s = (Paused a c, n', s') \<and> get_afd s' a \<noteq> None"
  "\<exists>a c n' s'. advance demo_daemon_env (peer_main X (Suc k)) n s = (Paused a c, n', s') \<and> get_afd s' a \<noteq> None"
proof -
  have loops: "\<exists>c n' s'. advance demo_daemon_env (bleach_loop X (Suc k) (Some a) None ts) n s = (Paused a c, n', s') \<and>
      get_afd s' a \<noteq> None"
    "\<exists>c n' s'. advance demo_daemon_env (peer_loop X (Suc k) j (Some a) None) n s = (Paused a c, n', s') \<and>
      get_afd s' a \<noteq> None" if "get_afd s a \<noteq> None" for a ts n s j
    using demo_timer(2) [OF that, of n] by (auto simp: advance_bind)
  obtain a n1 s1 where timer: "advance demo_daemon_env (with_errc AsyncTimer_create None) (Suc n) s = (Finished (Some a, None), n1, s1)"
    "get_afd s1 a \<noteq> None" using demo_timer(1) by blast
  from loops(1) [OF timer(2)] timer(1)
  show "\<exists>a c n' s'. advance demo_daemon_env (bleachDataLoop X (Suc k)) n s = (Paused a c, n', s') \<and> get_afd s' a \<noteq> None"
    by (fastforce simp: bleachDataLoop_def advance_bind co_call_def simp del: bleach_loop.simps)
  obtain a n1 s1 where timer: "advance demo_daemon_env (with_errc AsyncTimer_create None) n s = (Finished (Some a, None), n1, s1)"
    "get_afd s1 a \<noteq> None" using demo_timer(1) by blast
  from loops(2) [OF timer(2)] timer(1)
  show "\<exists>a c n' s'. advance demo_daemon_env (peer_main X (Suc k)) n s = (Paused a c, n', s') \<and> get_afd s' a \<noteq> None"
    by (fastforce simp: peer_main_def advance_bind simp del: peer_loop.simps)
qed

lemma start_paused:
  "\<exists>a c' n s. advance E c (m_calls m) ((m_process m)\<lparr>running := h\<rparr>) = (Paused a c', n, s) \<and> get_afd s a \<noteq> None \<Longrightarrow>
   \<exists>m'. start E h c m = Inr m' \<and> m_pool m' h \<noteq> None"
  by (auto simp: start_def)

text \<open>The daemon starts and idles.\<close>

lemma demo_daemon:
  obtains m1 m2 where "peer demo_daemon_env (ref_ext ''a'') 1 demo_machine = Inr m1"
    and "IOContext_run demo_daemon_env 2 m1 = Inr m2" and "m_pool m2 0 \<noteq> None"
proof -
  obtain a n s where boot: "advance demo_daemon_env (peer_setup (ref_ext ''a'')) (m_calls demo_machine)
      ((m_process demo_machine)\<lparr>running := 0\<rparr>) = (Finished (Some a), n, s)" "get_afd s a \<noteq> None"
    using demo_listener by (fastforce simp: peer_setup_def co_then_def advance_bind co_update_def demo_load)
  have "get_afd ((m_process (demo_machine\<lparr>m_process := s, m_calls := n\<rparr>))\<lparr>running := 1\<rparr>) a \<noteq> None"
    using boot(2) by (simp add: get_afd_def)
  from demo_accept [OF this, where k = 0] obtain ma where
    "start demo_daemon_env 1 (acceptReqSyncConnectionsLoop (ref_ext ''a'') 1 a)
      (demo_machine\<lparr>m_process := s, m_calls := n\<rparr>) = Inr ma"
    using start_paused by (metis One_nat_def)
  moreover obtain mb where "start demo_daemon_env 2 (bleachDataLoop (ref_ext ''a'') 1) ma = Inr mb"
    using demo_loops(1) [where k = 0] start_paused by (metis One_nat_def)
  moreover obtain m1 where m1: "start demo_daemon_env 0 (peer_main (ref_ext ''a'') 1) mb = Inr m1" "m_pool m1 0 \<noteq> None"
    using demo_loops(2) [where k = 0] start_paused by (metis One_nat_def)
  ultimately have "peer demo_daemon_env (ref_ext ''a'') 1 demo_machine = Inr m1"
    using boot(1) by (simp add: peer_def del: acceptReqSyncConnectionsLoop.simps One_nat_def)
  moreover have "IOContext_run_once demo_daemon_env m = Inr (m\<lparr>m_calls := Suc (m_calls m)\<rparr>)" for m :: "json machine"
    by (simp add: IOContext_run_once_def demo_answers sys_error_def sys_value_def Let_def)
  then have "\<exists>m2. IOContext_run demo_daemon_env 2 m1 = Inr m2 \<and> m_pool m2 0 \<noteq> None"
    using m1(2) by (simp add: numeral_2_eq_2)
  ultimately show thesis using that by blast
qed

lemma demo_machine_wf:
  "ss_wf (m_process demo_machine)" "io_wf (mIoContext (m_process demo_machine))" "m_pool demo_machine = Map.empty"
  using demo_process_wf [OF demo_wf(1)]
  by (simp_all add: demo_machine_def demo_process_def idle_io_def io_wf_def smap_wf_def smap_find_def)

theorem daemon_invariant_witness:
  "\<exists>m1 m2. peer demo_daemon_env (ref_ext ''a'') 1 demo_machine = Inr m1 \<and>
     IOContext_run demo_daemon_env 2 m1 = Inr m2 \<and> ss_wf (m_process m2) \<and> io_wf (mIoContext (m_process m2))"
proof -
  obtain m1 m2 where "peer demo_daemon_env (ref_ext ''a'') 1 demo_machine = Inr m1"
    "IOContext_run demo_daemon_env 2 m1 = Inr m2" by (rule demo_daemon)
  from daemon_invariant [OF ref_ordered demo_machine_wf this] this show ?thesis by blast
qed

lemma demo_main:
  obtains n s where "run demo_daemon_env (main (ref_ext ''a'') 1 [''shared-state-async'', ''peer'']) 0 (demo_process demo_mine) =
    (Done MainPeer, n, s)"
proof -
  obtain ctx where "\<not> x_parse_error (ref_ext ''a'') demo_conf_file" "mOk ctx"
    "x_serial_confs (ref_ext ''a'') (DataTypeConf_serial_process (ref_ext ''a'')) FROM_JSON
      ((x_ctx (ref_ext ''a''))\<lparr>mJson := x_parse (ref_ext ''a'') demo_conf_file\<rparr>) ''mTypeConf'' [] = (ctx, demo_confs)"
    by (rule demo_conf_read)
  then have "\<exists>n s. run demo_daemon_env (main (ref_ext ''a'') 1 [''shared-state-async'', ''peer'']) 0
      (demo_process demo_mine) = (Done MainPeer, n, s)"
    by (simp add: main_def main_dispatch_def IOContext_setup_def SharedStateCli_def loadRegisteredTypes_def
        ignore_sigpipe_def co_simps demo_daemon_env_def sys_value_def or_exit_bind)
  then show thesis using that by blast
qed

theorem daemon_survives_broken_pipe_witness:
  "\<exists>n s. run demo_daemon_env (main (ref_ext ''a'') 1 [''shared-state-async'', ''peer'']) 0 (demo_process demo_mine) =
      (Done MainPeer, n, s) \<and>
    peer demo_daemon_env (ref_ext ''a'') 1 \<lparr>m_process = s, m_pool = Map.empty, m_calls = n\<rparr> \<noteq> Inl (Killed SIGPIPE)"
proof -
  obtain n s where "run demo_daemon_env (main (ref_ext ''a'') 1 [''shared-state-async'', ''peer'']) 0 (demo_process demo_mine) =
      (Done MainPeer, n, s)" by (rule demo_main)
  from daemon_survives_broken_pipe [OF ref_ordered this refl] this show ?thesis by blast
qed

end
