(* ===== verification/Wakeup.thy ===== *)
theory Wakeup
  imports Daemon
begin

text \<open>
  No coroutine is forgotten: over all interleavings of the daemon's coroutines, one that is
  suspended is in the queue of the object it waits on, where the next event on that object finds
  it. Between two suspensions a coroutine only appends to queues; the event loop takes an entry out
  after it has resumed that coroutine, which by then has queued itself again if it waits again.
\<close>

subsection \<open>What a coroutine does to queues\<close>

definition grown :: "'j process \<Rightarrow> 'j process \<Rightarrow> bool" where
  "grown s0 s \<longleftrightarrow> io_wf (mIoContext s) \<and> running s = running s0 \<and>
     (\<forall>r. \<exists>q. pending_ops r s = pending_ops r s0 @ q)"

lemma grownI:
  "io_wf (mIoContext s) \<Longrightarrow> running s = running s0 \<Longrightarrow>
   (\<And>r. \<exists>q. pending_ops r s = pending_ops r s0 @ q) \<Longrightarrow> grown s0 s"
  by (simp add: grown_def)

lemma grownD:
  assumes "grown s0 s"
  shows "io_wf (mIoContext s)" "running s = running s0" "\<exists>q. pending_ops r s = pending_ops r s0 @ q"
  using assms by (simp_all add: grown_def)

lemma grown_same:
  "grown s0 s \<Longrightarrow> io_wf (mIoContext s') \<Longrightarrow> running s' = running s \<Longrightarrow>
   (\<And>r. \<exists>q. pending_ops r s' = pending_ops r s @ q) \<Longrightarrow> grown s0 s'"
  unfolding grown_def by (metis append_assoc)

lemma pending_update:
  "pending_ops r (update_afd a f s) =
     (if r = a then (case get_afd s a of None \<Rightarrow> [] | Some x \<Rightarrow> mPendigOps (f x)) else pending_ops r s)"
  by (simp add: pending_ops_def split: option.split)

lemma pending_new:
  "io_wf (mIoContext s) \<Longrightarrow> pending_ops r (new_afd fd s) = pending_ops r s"
  using io_wf_fresh [of "mIoContext s" "next_address (mIoContext s)"]
  by (auto simp: pending_ops_def get_afd_def new_afd_def Let_def afd_new_def)

lemma pending_drop: "pending_ops r (drop_managed a fd s) = pending_ops r s"
  by (auto simp: pending_ops_def get_afd_def drop_managed_def Let_def update_afd_def split: option.split)

lemma running_frame [simp]: "running (new_afd fd s) = running s" "running (drop_managed a fd s) = running s"
  by (simp_all add: new_afd_def drop_managed_def Let_def)

lemma pending_pop:
  "pending_ops r (pop_pending_op a s) = (if r = a then tl (pending_ops a s) else pending_ops r s)"
  by (simp add: pop_pending_op_def pending_update) (simp add: pending_ops_def split: option.split)

lemma pending_add:
  "get_afd s a \<noteq> None \<Longrightarrow>
   pending_ops r (addPendingOp a h s) = (if r = a then pending_ops a s @ [h] else pending_ops r s)"
  by (auto simp: addPendingOp_def pending_update) (auto simp: pending_ops_def)

lemma grown_safe: "io_safe grown"
  unfolding io_safe_def
proof (intro conjI allI impI)
  fix s0 s :: "'j process" and r f
  assume f: "queue_grows f" "\<forall>a. mFD (f a) = mFD a" and g: "grown s0 s"
  have "\<exists>q. pending_ops r' (update_afd r f s) = pending_ops r' s @ q" for r'
    using f(1) by (auto simp: pending_update queue_grows_def pending_ops_def split: option.split)
  then show "grown s0 (update_afd r f s)"
    using f(2) by (intro grown_same [OF g]) (simp_all add: io_wf_update_afd grownD(1) [OF g])
next
  fix s0 s :: "'j process" and fd assume g: "grown s0 s"
  show "grown s0 (new_afd fd s)"
    by (rule grown_same [OF g]) (simp_all add: grownD(1) [OF g] io_wf_new_afd pending_new)
next
  fix s0 s :: "'j process" and a fd
  assume g: "grown s0 s" and "smap_find (mManagedFD (mIoContext s)) fd = Some a"
  then show "grown s0 (drop_managed a fd s)"
    by (intro grown_same [OF g]) (simp_all add: grownD(1) [OF g] io_wf_drop_managed pending_drop)
qed

lemma grown_app: "app_free grown"
  by (simp add: app_free_def grown_def pending_ops_def get_afd_def)

interpretation queues: session_invariant grown
  by (rule app_free_session_invariant [OF grown_app grown_safe])

subsection \<open>The machine\<close>

definition parked :: "'j machine \<Rightarrow> bool" where
  "parked m \<longleftrightarrow> io_wf (mIoContext (m_process m)) \<and>
     (\<forall>h a c. m_pool m h = Some (a, c) \<longrightarrow> co_keeps grown c \<and> h \<in> set (pending_ops a (m_process m)))"

lemma parkedD:
  assumes "parked m"
  shows "io_wf (mIoContext (m_process m))"
    and "m_pool m h = Some (a, c) \<Longrightarrow> co_keeps grown c"
    and "m_pool m h = Some (a, c) \<Longrightarrow> h \<in> set (pending_ops a (m_process m))"
  using assms unfolding parked_def by blast+

lemma advance_grows:
  assumes "guarantee grown c s0 s"
  shows "case advance E c n s of
      (Finished _, _, s') \<Rightarrow> grown s0 s'
    | (Paused a c', _, s') \<Rightarrow> grown s0 s' \<and> co_keeps grown c' \<and>
        (\<exists>s1. grown s0 s1 \<and> s' = addPendingOp a (running s1) s1)
    | (Ended _, _, _) \<Rightarrow> True"
  using assms by (induction c arbitrary: n s) (auto simp: co_keeps_def)

text \<open>One run of a coroutine: queues grow, and if it suspends it has queued itself in the end.\<close>

definition went_on :: "nat \<Rightarrow> 'j machine \<Rightarrow> 'j machine \<Rightarrow> bool" where
  "went_on h m m' \<longleftrightarrow> io_wf (mIoContext (m_process m')) \<and>
     (\<forall>r. \<exists>q. pending_ops r (m_process m') = pending_ops r (m_process m) @ q) \<and>
     (\<forall>h'. h' \<noteq> h \<longrightarrow> m_pool m' h' = m_pool m h') \<and>
     (\<forall>a c. m_pool m' h = Some (a, c) \<longrightarrow> co_keeps grown c \<and>
        (\<exists>q. pending_ops a (m_process m') = pending_ops a (m_process m) @ q @ [h]))"

lemma start_goes_on:
  assumes wf: "io_wf (mIoContext (m_process m))" and c: "co_keeps grown c" and go: "start E h c m = Inr m'"
  shows "went_on h m m'"
proof -
  let ?s = "(m_process m)\<lparr>running := h\<rparr>"
  have same: "pending_ops r ?s = pending_ops r (m_process m)" for r by (simp add: pending_ops_def get_afd_def)
  have "grown ?s ?s" using wf by (simp add: grown_def)
  then have "guarantee grown c ?s ?s" using c by (simp add: co_keeps_def)
  note run = advance_grows [OF this, of E "m_calls m"]
  show ?thesis
  proof (cases "advance E c (m_calls m) ?s")
    case (fields p n s')
    show ?thesis
    proof (cases p)
      case (Finished u)
      with fields go run show ?thesis by (auto simp: start_def went_on_def grown_def same)
    next
      case (Paused a c')
      with fields go run obtain s1 where s1: "grown ?s s1" "s' = addPendingOp a h s1" "get_afd s' a \<noteq> None"
        and m': "grown ?s s'" "co_keeps grown c'" "m' = m\<lparr>m_process := s', m_calls := n, m_pool := (m_pool m)(h \<mapsto> (a, c'))\<rparr>"
        by (auto simp: start_def grown_def split: if_splits)
      from s1 have "get_afd s1 a \<noteq> None" by (auto simp: addPendingOp_def)
      with s1 have "\<exists>q. pending_ops a s' = pending_ops a (m_process m) @ q @ [h]"
        using grownD(3) [OF s1(1), of a] by (auto simp: pending_add same)
      with m' show ?thesis by (auto simp: went_on_def grown_def same)
    qed (use fields go in \<open>simp add: start_def\<close>)
  qed
qed

lemma went_on_parked: "parked m \<Longrightarrow> went_on h m m' \<Longrightarrow> parked m'"
  unfolding parked_def went_on_def by (metis UnI1 in_set_conv_decomp set_append append_assoc)

text \<open>The entry that is taken out belongs to the coroutine that was resumed.\<close>

lemma pop_parked:
  assumes m: "parked m" and front: "pending_ops r (m_process m) = h # q" and m': "went_on h m m'"
  shows "parked (on_process (pop_pending_op r) m')"
  unfolding parked_def
proof (intro conjI allI impI)
  show "io_wf (mIoContext (m_process (on_process (pop_pending_op r) m')))"
    using m' by (simp add: went_on_def on_process_def pop_pending_op_def io_wf_update_afd)
  fix h' a c assume "m_pool (on_process (pop_pending_op r) m') h' = Some (a, c)"
  then have pool: "m_pool m' h' = Some (a, c)" by (simp add: on_process_def)
  show "co_keeps grown c" using parkedD(2) [OF went_on_parked [OF m m'] pool] .
  have "h' \<in> set (pending_ops a (pop_pending_op r (m_process m')))"
  proof (cases "h' = h")
    case True
    with pool m' obtain q' where "pending_ops a (m_process m') = pending_ops a (m_process m) @ q' @ [h]"
      by (auto simp: went_on_def)
    with True front show ?thesis by (auto simp: pending_pop)
  next
    case False
    with pool m' have "h' \<in> set (pending_ops a (m_process m))" using m by (auto simp: went_on_def dest: parkedD(3))
    moreover obtain q' where "pending_ops a (m_process m') = pending_ops a (m_process m) @ q'"
      using m' unfolding went_on_def by blast
    ultimately show ?thesis using False front by (auto simp: pending_pop)
  qed
  then show "h' \<in> set (pending_ops a (m_process (on_process (pop_pending_op r) m')))"
    by (simp add: on_process_def)
qed

lemma resume_loop_parked: "parked m \<Longrightarrow> resume_loop E r k m = Inr m' \<Longrightarrow> parked m'"
proof (induction k arbitrary: m)
  case (Suc k)
  from Suc.prems(2) obtain h q m1 where step: "pending_ops r (m_process m) = h # q" "resume_handle E r h m = Inr m1"
    "resume_loop E r k (on_process (pop_pending_op r) m1) = Inr m'"
    by (auto split: list.splits sum.splits)
  then obtain c where "m_pool m h = Some (r, c)" "start E h c m = Inr m1"
    by (auto simp: resume_handle_def split: option.splits if_splits)
  with Suc.prems(1) have "went_on h m m1" by (blast intro: start_goes_on dest: parkedD)
  from Suc.IH [OF pop_parked [OF Suc.prems(1) step(1) this] step(3)] show ?case .
qed simp

interpretation parked: machine_invariant parked
proof
  fix E els and m m' :: "'j machine"
  assume m: "parked m" and go: "run_task E (update_interest els) m = Inr m'"
  have "co_keeps grown (update_interest els :: ('j, unit) task)"
    by (intro keeps io_safe_blind grown_safe)
  then have "guarantee grown (update_interest els) (m_process m) (m_process m)"
    using parkedD(1) [OF m] by (simp add: co_keeps_def grown_def)
  from advance_grows [OF this, of E "m_calls m"] go have g: "grown (m_process m) (m_process m')"
    and pool: "m_pool m' = m_pool m"
    by (auto simp: run_task_def split: prod.splits progress.splits)
  show "parked m'"
    unfolding parked_def pool
    using grownD(1) [OF g] parkedD(2,3) [OF m] grownD(3) [OF g] by (metis UnI1 set_append)
qed (fact resume_loop_parked, simp add: parked_def)

lemma peer_parked:
  assumes X: "ordered_maps X" and wf: "io_wf (mIoContext (m_process m))" and pool: "m_pool m = Map.empty"
    and peer: "peer E X fuel m = Inr m1"
  shows "parked m1"
proof -
  let ?s = "(m_process m)\<lparr>running := 0\<rparr>"
  from peer obtain l n s ma mb where
    l: "advance E (peer_setup X) (m_calls m) ?s = (Finished (Some l), n, s)"
    and ma: "start E 1 (acceptReqSyncConnectionsLoop X fuel l) (m\<lparr>m_process := s, m_calls := n\<rparr>) = Inr ma"
    and mb: "start E 2 (bleachDataLoop X fuel) ma = Inr mb" and m1: "start E 0 (peer_main X fuel) mb = Inr m1"
    by (rule peer_steps)
  have "guarantee grown (peer_setup X) ?s ?s"
    using queues.keeps_peer_setup [OF X] wf by (simp add: co_keeps_def grown_def)
  from advance_grows [OF this, of E "m_calls m"] l pool
  have m0: "parked (m\<lparr>m_process := s, m_calls := n\<rparr>)" by (simp add: parked_def grown_def)
  have go: "parked m'" if "parked m" "co_keeps grown c" "start E h c m = Inr m'" for m m' h c
    using went_on_parked [OF that(1) start_goes_on [OF parkedD(1) [OF that(1)] that(2,3)]] .
  show ?thesis
    by (rule go [OF go [OF go [OF m0 queues.keeps_accept_loop ma] queues.keeps_bleachDataLoop mb]
        queues.keeps_peer_main m1]) (rule X)+
qed

subsection \<open>Properties\<close>

text \<open>
  C6. No wake-up is lost: at any turn of the daemon's event loop, for whatever events and answers
  have arrived and in whichever order its coroutines were resumed, every coroutine that is suspended
  is in the queue of the object it waits on, so that the next event on the descriptor of that
  object resumes it. In particular a coroutine that is resumed and has to wait again on the same
  object is not thrown out with the entry under which it was resumed.
\<close>

theorem no_lost_wakeup:
  assumes "ordered_maps X" and "io_wf (mIoContext (m_process m))" and "m_pool m = Map.empty"
    and "peer E X fuel m = Inr m1" and "IOContext_run E turns m1 = Inr m2"
    and "m_pool m2 h = Some (a, c)"
  shows "\<exists>x. get_afd (m_process m2) a = Some x \<and> h \<in> set (mPendigOps x)"
  using parkedD(3) [OF parked.loop_keeps [OF peer_parked [OF assms(1-4)] assms(5)] assms(6)]
  by (cases "get_afd (m_process m2) a") (auto simp: pending_ops_def)

subsection \<open>Witnesses\<close>

theorem no_lost_wakeup_witness:
  "\<exists>m1 m2 a c x. peer demo_daemon_env (ref_ext ''a'') 1 demo_machine = Inr m1 \<and>
     IOContext_run demo_daemon_env 2 m1 = Inr m2 \<and> m_pool m2 0 = Some (a, c) \<and>
     get_afd (m_process m2) a = Some x \<and> 0 \<in> set (mPendigOps x)"
proof -
  obtain m1 m2 where "peer demo_daemon_env (ref_ext ''a'') 1 demo_machine = Inr m1"
    "IOContext_run demo_daemon_env 2 m1 = Inr m2" "m_pool m2 0 \<noteq> None" by (rule demo_daemon)
  moreover from this obtain a c where "m_pool m2 0 = Some (a, c)" by auto
  ultimately show ?thesis
    using no_lost_wakeup [OF ref_ordered demo_machine_wf(2,3)] by metis
qed

end
