(* ===== verification/OwnedCoroutines.thy ===== *)
theory OwnedCoroutines
  imports OwnedCommands Wakeup
begin

text \<open>
  The coroutines of the daemon under the ownership discipline: hooks, discovery and synchronisation
  sessions open objects of their own and take back or keep them; between two sessions the daemon's
  main coroutine owns its timer, the bleaching one its own, and the accepting one the listener.
\<close>

subsection \<open>Hooks and discovery\<close>

lemma triple_launched:
  assumes "\<And>i j. {a, i, j} \<inter> A = {} \<Longrightarrow> triple (command a i j B s0 (A \<union> {a, i, j})) c L"
  shows "triple (launched B s0 A (Some a)) c L"
  unfolding triple_def
proof (intro allI impI)
  fix W P s assume s: "ready W P s" and "launched B s0 A (Some a) W P s"
  then obtain i j where "command a i j B s0 (A \<union> {a, i, j}) W P s" "{a, i, j} \<inter> A = {}"
    by (auto simp: launched_def)
  then show "owp c L W P s" using tripleD [OF assms s] by blast
qed

lemma command_finished:
  assumes "a \<in> A'" and "A' - {a, i, j} = A"
  shows "triple (command a i j B s0 A') (waitTermination a) (\<lambda>_. hold B s0 A)"
  using command_waitTermination [OF assms(1), of i j B s0] by (simp add: assms(2))

lemma uses_run_hook [owned]: "uses A {} (run_hook d path)"
proof -
  have cmd: "triple (launched B s0 A (Some a))
      (co_bind (with_errc (writeStdIn a d) e) (\<lambda>(_, e).
       co_bind (with_errc (closeStdIn a) e) (\<lambda>(_, e).
       co_bind (with_errc (waitTermination a) e) (\<lambda>_. Ret ())))) (\<lambda>_. hold B s0 A)" for B a e and s0 :: "'a process"
  proof (rule triple_launched)
    fix i j assume new: "{a, i, j} \<inter> A = {}"
    let ?A = "A \<union> {a, i, j}"
    show "triple (command a i j B s0 ?A) (co_bind (with_errc (writeStdIn a d) e) (\<lambda>(_, e).
       co_bind (with_errc (closeStdIn a) e) (\<lambda>(_, e).
       co_bind (with_errc (waitTermination a) e) (\<lambda>_. Ret ())))) (\<lambda>_. hold B s0 A)"
    proof (rule triple_fact)
      show "a \<noteq> i" if "command a i j B s0 ?A W P s" for W P s using that by (simp add: command_def)
      assume "a \<noteq> i"
      with new have wait: "triple (command a i j B s0 (?A - {i})) (waitTermination a) (\<lambda>_. hold B s0 A)"
        by (intro command_finished) auto
      show ?thesis
      proof (rule triple_bind_errc [OF command_writeStdIn], simp, simp)
        fix e'
        have "triple (command a i j B s0 (?A - {i})) (co_bind (with_errc (waitTermination a) e') (\<lambda>_. Ret ()))
            (\<lambda>_. hold B s0 A)" for e'
          by (rule triple_bind [OF triple_with_errc [OF wait]]) (rule triple_Ret)
        then show "triple (command a i j B s0 ?A) (co_bind (with_errc (closeStdIn a) e') (\<lambda>(_, e).
            co_bind (with_errc (waitTermination a) e) (\<lambda>_. Ret ()))) (\<lambda>_. hold B s0 A)"
          by (rule triple_bind_errc [OF command_closeStdIn, rotated 2]) (use \<open>a \<noteq> i\<close> in auto)
      qed
    qed
  qed
  have "triple (hold B s0 A) (run_hook d path) (\<lambda>_. hold B s0 A)" for B and s0 :: "'a process"
    unfolding run_hook_def
    by (rule triple_bind_errc [OF launched_execute]) (auto intro: cmd intro!: triple_Ret simp: launched_def split: option.split)
  then show ?thesis by (simp add: uses_def)
qed

lemma uses_run_hooks [owned]: "uses A {} (run_hooks d ps)"
  by (induction ps) (auto intro!: owned)

lemma uses_notifyHooks [owned]: "uses A {} (notifyHooks X ty)"
  unfolding notifyHooks_def by (intro owned)

lemma command_read_candidates:
  "a \<in> A \<Longrightarrow> j \<in> A \<Longrightarrow> triple (command a i j B s0 A) (read_candidates fuel a acc) (\<lambda>_. command a i j B s0 A)"
proof (induction fuel arbitrary: acc)
  case (Suc fuel)
  then show ?case
    unfolding read_candidates.simps
    by (intro triple_bind [OF triple_or_exit [OF command_readStdOut]]) (auto intro!: triple_Ret split: prod.split)
qed (simp add: triple_Halt)

lemma uses_parse_candidates [owned]: "uses A {} (parse_candidates X ls acc)"
  by (induction ls arbitrary: acc) (auto intro!: owned)

lemma uses_getCandidatesNeighbours [owned]: "uses A {} (getCandidatesNeighbours X fuel)"
proof -
  have cmd: "triple (launched B s0 A (Some a)) (co_bind (read_candidates fuel a []) (\<lambda>neigStrStream.
      co_bind (waitTermination a) (\<lambda>terminated.
        if \<not> terminated then Ret (False, [])
        else parse_candidates X (getlines (string_of_bytes neigStrStream)) []))) (\<lambda>_. hold B s0 A)" for B a and s0 :: "'a process"
  proof (rule triple_launched)
    fix i j assume new: "{a, i, j} \<inter> A = {}"
    let ?A = "A \<union> {a, i, j}"
    have "triple (command a i j B s0 ?A) (waitTermination a) (\<lambda>_. hold B s0 A)"
      by (rule command_finished) (use new in auto)
    then show "triple (command a i j B s0 ?A) (co_bind (read_candidates fuel a []) (\<lambda>neigStrStream.
        co_bind (waitTermination a) (\<lambda>terminated.
          if \<not> terminated then Ret (False, [])
          else parse_candidates X (getlines (string_of_bytes neigStrStream)) []))) (\<lambda>_. hold B s0 A)"
      by (intro triple_bind [OF command_read_candidates] triple_bind [where c = "waitTermination a"])
        (auto intro!: triple_if triple_Ret uses_hold owned)
  qed
  have "triple (hold B s0 A) (getCandidatesNeighbours X fuel) (\<lambda>_. hold B s0 A)" for B and s0 :: "'a process"
    unfolding getCandidatesNeighbours_def
    by (rule triple_bind [OF triple_or_exit [OF launched_execute]]) (auto intro: cmd triple_Halt split: option.split)
  then show ?thesis by (simp add: uses_def)
qed

subsection \<open>Sessions\<close>

lemma uses_state [owned]:
  "uses A {} (merge X ty sl addr)" "uses A {} (bleach ty secs)" "uses A {} (loadRegisteredTypes X)" "uses A {} (collectStat X st)"
  unfolding merge_def bleach_def loadRegisteredTypes_def collectStat_def update_stat_file_def
  by (intro owned uses_update_app; simp)+

lemma uses_with_bandwidth [owned]: "(\<And>bw. uses A {} (k bw)) \<Longrightarrow> uses A {} (with_bandwidth b t0 t1 old k)"
  unfolding with_bandwidth_def by (intro owned)

lemma uses_protocol [owned]:
  assumes "a \<in> A"
  shows "uses A {} (clientHandShake X a st)" "uses A {} (serverHandShake X a st)"
    "uses A {} (receiveNetworkMessage X a st)" "uses A {} (sendNetworkMessage X a msg st)"
  unfolding clientHandShake_def serverHandShake_def receiveNetworkMessage_def sendNetworkMessage_def
  by (intro owned assms)+

text \<open>A session closes its socket, and goes on without it.\<close>

lemma uses_clean_then:
  assumes "uses (A - {a}) {} d" and "b = a"
  shows "uses A {b} (co_then (clean_socket a) d)"
  unfolding co_then_def clean_socket_def co_bind_assoc co_bind.simps \<open>b = a\<close>
  by (rule uses_then_rest [OF uses_or_exit [OF uses_closeAFD] assms(1)]) simp

lemma uses_handleReqSyncConnection: "a \<in> A \<Longrightarrow> uses A {a} (handleReqSyncConnection X a)"
  unfolding handleReqSyncConnection_def
  by (intro uses_clean_then owned uses_update_app; simp)

lemma uses_syncWithPeer [owned]: "uses A {} (syncWithPeer X ty addr)"
  unfolding syncWithPeer_def
  by (intro uses_opens opens_connect uses_clean_then owned; simp)

subsection \<open>The coroutines of the daemon\<close>

lemma uses_accept_loop: "l \<in> A \<Longrightarrow> uses A {} (acceptReqSyncConnectionsLoop X fuel l)"
proof (induction fuel)
  case (Suc fuel)
  have "uses (insert a A) {a} (co_bind (with_errc (handleReqSyncConnection X a) None)
      (\<lambda>(ok, e). acceptReqSyncConnectionsLoop X fuel l))" if "a \<notin> A" for a
    by (rule uses_then_rest [OF uses_with_errc [OF uses_handleReqSyncConnection]])
      (use Suc that in \<open>auto simp: insert_absorb\<close>)
  with Suc.prems show ?case
    unfolding acceptReqSyncConnectionsLoop.simps by (intro uses_opens opens_accept) (auto intro: owned)
qed (simp add: owned)

lemma uses_timer_tick [owned]: "set_option t \<subseteq> A \<Longrightarrow> uses A {} (timer_tick t e)"
  unfolding timer_tick_def by (intro owned) auto

lemma uses_bleach_types [owned]: "uses A {} (bleach_types secs confs)"
  by (induction confs) (auto intro!: owned)

lemma uses_bleach_loop: "set_option t \<subseteq> A \<Longrightarrow> uses A {} (bleach_loop X fuel t e ts)"
  by (induction fuel arbitrary: e ts) (auto simp: bleach_round_def intro!: owned)

lemma uses_sync_peers [owned]: "uses A {} (sync_peers X ty addrs)"
  by (induction addrs) (auto intro!: owned)

lemma uses_sync_types [owned]: "uses A {} (sync_types X tys addrs)"
  by (induction tys) (auto intro!: owned)

lemma uses_peer_loop: "set_option t \<subseteq> A \<Longrightarrow> uses A {} (peer_loop X fuel k t e)"
  by (induction fuel arbitrary: e) (auto simp: peer_round_def intro!: owned)

text \<open>A coroutine that is behaved runs to its end, or as long as it is observed, within the discipline.\<close>

definition behaved :: "nat set \<Rightarrow> ('j, 'a) task \<Rightarrow> bool" where
  "behaved A c \<longleftrightarrow> (\<forall>s0. triple (hold {} s0 A) c (\<lambda>_ _ _ _. True))"

lemma behaved_uses: "uses A {} c \<Longrightarrow> behaved A c"
  unfolding behaved_def by (blast intro: triple_conseq [OF uses_hold])

lemma behaved_timer:
  assumes "\<And>t e A. set_option t \<subseteq> A \<Longrightarrow> uses A {} (f t e)"
  shows "behaved A (co_bind (with_errc AsyncTimer_create None) (\<lambda>(t, e). f t e))"
  unfolding behaved_def
proof (intro allI triple_bind_errc)
  fix s0 :: "'a process" and t e
  show "triple (hold {} s0 A) AsyncTimer_create (\<lambda>r W P s. hold {} s0 (A \<union> set_option r) W P s \<and> set_option r \<inter> (A \<union> {}) = {})"
    using opens_timer [of A] unfolding opens_def by blast
  have "uses (A \<union> set_option t) {} (f t e)" by (rule assms) simp
  then show "triple (\<lambda>W P s. hold {} s0 (A \<union> set_option t) W P s \<and> set_option t \<inter> (A \<union> {}) = {}) (f t e) (\<lambda>_ _ _ _. True)"
    by (rule triple_conseq [OF uses_hold [where B = "{}" and ?s0.0 = s0]]) simp_all
qed

lemma behaved_bind: "uses A {} c \<Longrightarrow> (\<And>r. behaved A (f r)) \<Longrightarrow> behaved A (co_bind c f)"
  unfolding behaved_def by (blast intro: triple_bind [OF uses_hold])

lemma behaved_daemon:
  "behaved {l} (acceptReqSyncConnectionsLoop X fuel l)" "behaved {} (bleachDataLoop X fuel)" "behaved {} (peer_main X fuel)"
  unfolding bleachDataLoop_def peer_main_def
  by (auto intro!: behaved_uses [OF uses_accept_loop] behaved_bind uses_call behaved_timer uses_peer_loop uses_bleach_loop)

text \<open>The listener, which the accepting coroutine is given.\<close>

lemma opens_listener: "opens A (setupListener port)"
proof (rule opensI)
  fix B :: "nat set" and s0 :: "'a process"
  let ?L = "\<lambda>r W P s. hold B s0 (A \<union> set_option r) W P s \<and> set_option r \<inter> (A \<union> B) = {}"
  have none: "triple K (Ret None) ?L" if "\<And>W P s. K W P s \<Longrightarrow> hold B s0 A W P s" for K
    by (rule triple_Ret) (simp add: that)
  have some: "triple (hold B s0 (insert a A)) (co_then (attachReadonly (Some a)) (co_then (watchRead a) (Ret (Some a)))) ?L"
    if "a \<notin> A \<union> B" for a
    unfolding attachReadonly_def watch_defs
    by (intro triple_then [OF uses_hold] owned triple_Ret) (use that in auto)
  have lost: "triple (hold B s0 A) (co_bind (co_call (SysClose fd)) (\<lambda>c.
      if s_ret c \<noteq> 0 then co_fail (FromErrno (s_errno c)) None else Ret None)) ?L" for fd
    by (intro triple_bind [OF uses_hold] owned triple_if triple_fail none)
  show "triple (hold B s0 A) (setupListener port) ?L"
    unfolding setupListener_def
    by (intro triple_open_call triple_if triple_fail none triple_call_plain triple_pre [OF triple_registered(1) [where A = A and B = B and ?s0.0 = s0]])
      (auto intro: some lost)
qed

lemma triple_peer_setup: "triple (hold {} s0 {}) (peer_setup X) (\<lambda>r. hold {} s0 (set_option r))"
proof -
  have "triple (hold {} s0 {}) (or_exit (setupListener TCP_PORT)) (\<lambda>r. hold {} s0 (set_option r))"
    by (rule triple_or_exit, rule triple_conseq [OF opens_listener [of "{}" TCP_PORT, unfolded opens_def, rule_format, of "{}" s0]])
      simp_all
  then show ?thesis
    unfolding peer_setup_def by (intro triple_then [OF uses_hold] owned uses_update_app) auto
qed

end
