(* ===== verification/Subscriptions.thy ===== *)
theory Subscriptions
  imports OwnedCoroutines
begin

unbundle bit_operations_syntax

text \<open>
  A suspended coroutine can be woken: over all interleavings of the daemon's coroutines, the object
  it waits on is in the table under its descriptor and asks for the events the coroutine waits for.
  Each suspended coroutine owns some objects, no two of them the same, and within the ownership
  discipline nobody else closes them or drops their subscriptions.
\<close>

subsection \<open>Kernels that do not hand out open descriptors\<close>

text \<open>The answers a coroutine gets up to its next suspension are plausible.\<close>

primrec honest :: "'j process env \<Rightarrow> ('j process, 'a) co \<Rightarrow> nat \<Rightarrow> int set \<Rightarrow> 'j process \<Rightarrow> bool" where
  "honest E (Ret a) n P s = True"
| "honest E (Halt h) n P s = True"
| "honest E (Bubble e c) n P s = honest E c n P s"
| "honest E (Act u k) n P s = honest E (k s) n (unmanaged P (u s)) (u s)"
| "honest E (Call q k) n P s = (plausible P s (q, e_call E n q) \<and>
     honest E (k (e_call E n q)) (Suc n) (loose P (q, e_call E n q)) s)"
| "honest E (Suspend a c) n P s = True"

definition honest_start :: "'j process env \<Rightarrow> nat \<Rightarrow> ('j, 'a) task \<Rightarrow> 'j machine \<Rightarrow> bool" where
  "honest_start E h c m \<longleftrightarrow> honest E c (m_calls m) {} ((m_process m)\<lparr>running := h\<rparr>)"

primrec honest_resume :: "'j process env \<Rightarrow> nat \<Rightarrow> nat \<Rightarrow> 'j machine \<Rightarrow> bool" where
  "honest_resume E r 0 m = True"
| "honest_resume E r (Suc k) m = (case pending_ops r (m_process m) of
     [] \<Rightarrow> True
   | h # _ \<Rightarrow> (case m_pool m h of None \<Rightarrow> True | Some (a, c) \<Rightarrow> honest_start E h c m) \<and>
       (case resume_handle E r h m of
          Inl e \<Rightarrow> True
        | Inr m' \<Rightarrow> honest_resume E r k (on_process (pop_pending_op r) m')))"

primrec honest_dispatch :: "'j process env \<Rightarrow> (int \<times> u32) list \<Rightarrow> 'j machine \<Rightarrow> bool" where
  "honest_dispatch E [] m = True"
| "honest_dispatch E (ev # evs) m = (case smap_find (mManagedFD (mIoContext (m_process m))) (fst ev) of
     None \<Rightarrow> honest_dispatch E evs m
   | Some r \<Rightarrow> honest_resume E r (length (pending_ops r (m_process m))) m \<and>
       (case resumePendingOps E r m of Inl e \<Rightarrow> True | Inr (_, m') \<Rightarrow> honest_dispatch E evs m'))"

definition honest_turn :: "'j process env \<Rightarrow> 'j machine \<Rightarrow> bool" where
  "honest_turn E m = (let nfds = e_call E (m_calls m)
        (SysEpollWait (mEpollFD (mIoContext (m_process m))) DEFAULT_MAX_EVENTS)
     in honest_dispatch E (take (nat (s_ret nfds)) (s_events nfds)) (m\<lparr>m_calls := Suc (m_calls m)\<rparr>))"

primrec honest_run :: "'j process env \<Rightarrow> nat \<Rightarrow> 'j machine \<Rightarrow> bool" where
  "honest_run E 0 m = True"
| "honest_run E (Suc turns) m = (honest_turn E m \<and>
     (case IOContext_run_once E m of Inl e \<Rightarrow> True | Inr m' \<Rightarrow> honest_run E turns m'))"

definition honest_peer :: "'j process env \<Rightarrow> 'j ext \<Rightarrow> nat \<Rightarrow> 'j machine \<Rightarrow> bool" where
  "honest_peer E X fuel m \<longleftrightarrow> honest_start E 0 (peer_setup X) m \<and>
     (case advance E (peer_setup X) (m_calls m) ((m_process m)\<lparr>running := 0\<rparr>) of
        (Finished (Some l), n, s) \<Rightarrow>
          honest_start E 1 (acceptReqSyncConnectionsLoop X fuel l) (m\<lparr>m_process := s, m_calls := n\<rparr>) \<and>
          (case start E 1 (acceptReqSyncConnectionsLoop X fuel l) (m\<lparr>m_process := s, m_calls := n\<rparr>) of
             Inl e \<Rightarrow> True
           | Inr m1 \<Rightarrow> honest_start E 2 (bleachDataLoop X fuel) m1 \<and>
               (case start E 2 (bleachDataLoop X fuel) m1 of
                  Inl e \<Rightarrow> True
                | Inr m2 \<Rightarrow> honest_start E 0 (peer_main X fuel) m2))
      | _ \<Rightarrow> True)"

subsection \<open>One run of a coroutine\<close>

definition segment :: "nat set \<Rightarrow> nat set \<Rightarrow> 'j process \<Rightarrow> 'j process \<Rightarrow> bool" where
  "segment W W' s t \<longleftrightarrow> wf_io t \<and> addresses s \<le> addresses t \<and> W \<subseteq> W' \<and> W' \<subseteq> W \<union> new_addresses s t \<and>
     (\<forall>b < addresses s. b \<notin> W \<longrightarrow> stays subscription b s t)"

lemma segment_refl: "wf_io s \<Longrightarrow> segment W W s s"
  by (simp add: segment_def)

lemma segment_step:
  assumes "own_step W s t" and "segment (W \<union> new_addresses s t) W' t u"
  shows "segment W W' s u"
proof -
  have "stays subscription b s u" if "b < addresses s" "b \<notin> W" for b
  proof (rule stays_trans)
    show "stays subscription b s t" using assms(1) that by (simp add: own_step_def)
    show "stays subscription b t u"
      using assms that by (auto simp: own_step_def segment_def new_addresses_def)
  qed
  then show ?thesis using assms by (auto simp: segment_def own_step_def new_addresses_def)
qed

definition resting :: "nat set \<Rightarrow> nat \<Rightarrow> ('j, 'a) task \<Rightarrow> 'j process \<Rightarrow> bool" where
  "resting W a c s \<longleftrightarrow> a \<in> W \<and> waits_on a s \<and>
     (\<forall>t. others_step W s t \<longrightarrow> owp c (\<lambda>_ _ _ _. True) W {} t)"

definition ran ::
  "('a \<Rightarrow> nat set \<Rightarrow> int set \<Rightarrow> 'j process \<Rightarrow> bool) \<Rightarrow> nat set \<Rightarrow> 'j process \<Rightarrow>
   ('j process, 'a) progress \<times> nat \<times> 'j process \<Rightarrow> bool" where
  "ran Q W s r = (case r of
      (Finished a, _, t) \<Rightarrow> \<exists>W' P'. segment W W' s t \<and> Q a W' P' t
    | (Paused a c, _, t) \<Rightarrow> \<exists>W'. segment W W' s t \<and> resting W' a c t
    | (Ended _, _, _) \<Rightarrow> True)"

lemma ran_step:
  assumes "own_step W s t" and "ran Q (W \<union> new_addresses s t) t r"
  shows "ran Q W s r"
proof -
  obtain p n u where r: "r = (p, n, u)" by (cases r)
  show ?thesis using assms(2) segment_step [OF assms(1)] by (cases p) (auto simp: ran_def r)
qed

lemma advance_owned: "owp c Q W P s \<Longrightarrow> ready W P s \<Longrightarrow> honest E c n P s \<Longrightarrow> ran Q W s (advance E c n s)"
proof (induction c arbitrary: W P n s)
  case (Ret a)
  then show ?case by (auto simp: ran_def ready_def intro: segment_refl)
next
  case (Act u k)
  then have step: "own_step W s (u s)" and rest: "owp (k s) Q (W \<union> new_addresses s (u s)) (unmanaged P (u s)) (u s)"
    and "honest E (k s) n (unmanaged P (u s)) (u s)" by simp_all
  from Act.IH [OF _ rest ready_act [OF Act.prems(2) step] this(3)] show ?case
    by (simp add: ran_step [OF step])
next
  case (Call q k)
  then show ?case by (auto simp: ready_call)
next
  case (Suspend a c)
  then have "resting W a c s" by (auto simp: resting_def elim: owp_mono)
  with Suspend show ?case by (auto simp: ran_def ready_def intro: segment_refl)
qed (simp_all add: ran_def)

subsection \<open>The machine\<close>

text \<open>Every suspended coroutine rests at an object of its own; no two coroutines share one.\<close>

definition attended :: "(nat \<Rightarrow> nat set) \<Rightarrow> 'j machine \<Rightarrow> bool" where
  "attended own m \<longleftrightarrow> wf_io (m_process m) \<and> (\<forall>h. own h \<subseteq> {..<addresses (m_process m)}) \<and>
     (\<forall>h h'. h \<noteq> h' \<longrightarrow> own h \<inter> own h' = {}) \<and>
     (\<forall>h a c. m_pool m h = Some (a, c) \<longrightarrow> resting (own h) a c (m_process m))"

text \<open>What leaves an object alone leaves a coroutine that rests there alone.\<close>

lemma waits_on_stays: "waits_on a s \<Longrightarrow> stays subscription a s t \<Longrightarrow> waits_on a t"
  unfolding waits_on_def stays_def subscription_def by fastforce

lemma others_step_trans: "others_step W s t \<Longrightarrow> others_step W t u \<Longrightarrow> others_step W s u"
  unfolding others_step_def by (blast intro: stays_trans le_trans)

lemma resting_others: "resting W a c s \<Longrightarrow> others_step W s t \<Longrightarrow> resting W a c t"
  unfolding resting_def by (auto intro: others_step_trans) (auto simp: others_step_def elim: waits_on_stays)

text \<open>The event loop's own work on queues and subscriptions.\<close>

definition calm :: "'j process \<Rightarrow> 'j process \<Rightarrow> bool" where
  "calm s t \<longleftrightarrow> (wf_io s \<longrightarrow> wf_io t) \<and> addresses t = addresses s \<and> (\<forall>b. stays subscription b s t)"

lemma calm_refl: "calm s s"
  by (simp add: calm_def)

lemma calm_trans: "calm s t \<Longrightarrow> calm t u \<Longrightarrow> calm s u"
  unfolding calm_def by (auto intro: stays_trans)

lemma calm_update: "(\<And>x. subscription (f x) = subscription x) \<Longrightarrow> calm s (update_afd r f s)"
  unfolding calm_def
  by (auto intro!: io_wf_update_afd stays_update simp: subscription_def wiring_def)

lemma calm_pop: "calm s (pop_pending_op r s)"
  unfolding pop_pending_op_def by (rule calm_update) (simp add: subscription_def wiring_def)

lemma attended_calm:
  assumes "attended own m" and "calm (m_process m) (m_process m')" and "m_pool m' = m_pool m"
  shows "attended own m'"
proof -
  have "others_step (own h) (m_process m) (m_process m')" for h
    using assms(1,2) by (simp add: others_step_def attended_def calm_def)
  then have "resting (own h) a c (m_process m')" if "m_pool m h = Some (a, c)" for h a c
    using assms(1) that resting_others unfolding attended_def by blast
  then show ?thesis using assms by (simp add: attended_def calm_def)
qed

lemma calm_interest:
  "advance E (update_interest els) n s = (Finished u, n', t) \<Longrightarrow> calm s t"
proof (induction els arbitrary: n s)
  case (Cons el els)
  have set: "calm s (update_afd r (\<lambda>x. x\<lparr>mIoState := st\<rparr>) s)" for r st and s :: "'a process"
    by (rule calm_update) (simp add: subscription_def wiring_def)
  from Cons show ?case
    by (auto simp: io_of_def co_simps advance_bind Let_def split: option.splits if_splits intro: calm_trans [OF set])
qed (simp add: calm_refl)

lemma attended_segment:
  assumes m: "attended own m" and seg: "segment (own h) W' ((m_process m)\<lparr>running := h\<rparr>) (m_process m')"
    and pool: "\<And>h'. h' \<noteq> h \<Longrightarrow> m_pool m' h' = m_pool m h'"
      "\<And>a c. m_pool m' h = Some (a, c) \<Longrightarrow> resting W' a c (m_process m')"
  shows "attended (own(h := W')) m'"
proof -
  let ?s = "(m_process m)\<lparr>running := h\<rparr>"
  have low: "own h' \<subseteq> {..<addresses (m_process m)}" for h' using m by (simp add: attended_def)
  have disj: "own h' \<inter> own h'' = {}" if "h' \<noteq> h''" for h' h'' using m that by (simp add: attended_def)
  have up: "addresses (m_process m) \<le> addresses (m_process m')" and wf: "wf_io (m_process m')"
    and new: "W' \<subseteq> own h \<union> {addresses (m_process m) ..< addresses (m_process m')}"
    using seg by (simp_all add: segment_def new_addresses_def)
  have stay: "stays subscription b (m_process m) (m_process m')" if "b < addresses (m_process m)" "b \<notin> own h" for b
  proof (rule stays_trans)
    show "stays subscription b (m_process m) ?s" by (rule stays_context) simp
    show "stays subscription b ?s (m_process m')" using seg that by (simp add: segment_def)
  qed
  have "others_step (own h') (m_process m) (m_process m')" if "h' \<noteq> h" for h'
    unfolding others_step_def using stay low [of h'] disj [OF that] wf up by blast
  then have "resting (own h') a c (m_process m')" if "m_pool m h' = Some (a, c)" "h' \<noteq> h" for h' a c
    using m that resting_others unfolding attended_def by blast
  moreover have "own h' \<inter> W' = {} \<and> W' \<inter> own h' = {}" if "h' \<noteq> h" for h' using low [of h'] disj [OF that] new by fastforce
  moreover have "W' \<subseteq> {..<addresses (m_process m')}" using low [of h] new up by fastforce
  moreover have "own h' \<subseteq> {..<addresses (m_process m')}" for h' using low [of h'] up by auto
  ultimately show ?thesis
    using wf disj pool by (auto simp: attended_def)
qed

lemma start_attended:
  assumes m: "attended own m" and c: "owp c (\<lambda>_ _ _ _. True) (own h) {} ((m_process m)\<lparr>running := h\<rparr>)"
    and E: "honest_start E h c m" and go: "start E h c m = Inr m'"
  shows "\<exists>W'. attended (own(h := W')) m'"
proof -
  let ?s = "(m_process m)\<lparr>running := h\<rparr>"
  have "ready (own h) {} ?s" using m by (simp add: ready_def attended_def)
  from advance_owned [OF c this E [unfolded honest_start_def]]
  have ran: "ran (\<lambda>_ _ _ _. True) (own h) ?s (advance E c (m_calls m) ?s)" .
  obtain p n s' where r: "advance E c (m_calls m) ?s = (p, n, s')" by (metis prod_cases3)
  then consider (fin) u W' where "p = Finished u" "segment (own h) W' ?s s'"
    | (pause) a c' W' where "p = Paused a c'" "segment (own h) W' ?s s'" "resting W' a c' s'" | (stop) e where "p = Ended e"
    using ran by (cases p) (auto simp: ran_def)
  then show ?thesis
  proof cases
    case fin
    then have "attended (own(h := W')) m'"
      using go r by (intro attended_segment [OF m]) (auto simp: start_def)
    then show ?thesis ..
  next
    case pause
    then have "attended (own(h := W')) m'"
      using go r by (intro attended_segment [OF m]) (auto simp: start_def split: if_splits)
    then show ?thesis ..
  qed (use go r in \<open>simp add: start_def\<close>)
qed

lemma resume_loop_attended:
  "attended own m \<Longrightarrow> honest_resume E r k m \<Longrightarrow> resume_loop E r k m = Inr m' \<Longrightarrow> \<exists>own'. attended own' m'"
proof (induction k arbitrary: own m)
  case (Suc k)
  from Suc.prems(3) obtain h q m1 where step: "pending_ops r (m_process m) = h # q" "resume_handle E r h m = Inr m1"
    "resume_loop E r k (on_process (pop_pending_op r) m1) = Inr m'"
    by (auto split: list.splits sum.splits)
  then obtain c where c: "m_pool m h = Some (r, c)" "start E h c m = Inr m1"
    by (auto simp: resume_handle_def split: option.splits if_splits)
  have "calm (m_process m) ((m_process m)\<lparr>running := h\<rparr>)" by (auto simp: calm_def intro: stays_context)
  then have "others_step (own h) (m_process m) ((m_process m)\<lparr>running := h\<rparr>)"
    using Suc.prems(1) by (simp add: others_step_def calm_def attended_def)
  moreover have "resting (own h) r c (m_process m)" using Suc.prems(1) c(1) by (simp add: attended_def)
  ultimately have "owp c (\<lambda>_ _ _ _. True) (own h) {} ((m_process m)\<lparr>running := h\<rparr>)" by (simp add: resting_def)
  moreover have "honest_start E h c m" "honest_resume E r k (on_process (pop_pending_op r) m1)"
    using Suc.prems(2) step c by simp_all
  ultimately obtain W' where "attended (own(h := W')) m1" using start_attended [OF Suc.prems(1)] c(2) by blast
  then have "attended (own(h := W')) (on_process (pop_pending_op r) m1)"
    by (rule attended_calm) (simp_all add: on_process_def calm_pop)
  then show ?case by (rule Suc.IH) (use \<open>honest_resume E r k _\<close> step in auto)
qed auto

lemma dispatch_attended:
  "attended own m \<Longrightarrow> honest_dispatch E evs m \<Longrightarrow> dispatch_events E evs m = Inr m' \<Longrightarrow> \<exists>own'. attended own' m'"
proof (induction evs arbitrary: own m)
  case (Cons ev evs)
  show ?case
  proof (cases "smap_find (mManagedFD (mIoContext (m_process m))) (fst ev)")
    case None
    with Cons show ?thesis by auto
  next
    case (Some r)
    with Cons.prems(3) obtain b m1 where m1: "resumePendingOps E r m = Inr (b, m1)" "dispatch_events E evs m1 = Inr m'"
      by (auto split: sum.splits)
    with Some Cons.prems(2) have h: "honest_resume E r (length (pending_ops r (m_process m))) m" "honest_dispatch E evs m1"
      by auto
    from m1(1) have "\<exists>own'. attended own' m1"
      using Cons.prems(1) resume_loop_attended [OF Cons.prems(1) h(1)]
      by (cases "resume_loop E r (length (pending_ops r (m_process m))) m")
        (auto simp: resumePendingOps_def Let_def split: if_splits)
    with Cons.IH h(2) m1(2) show ?thesis by blast
  qed
qed auto

lemma turn_attended:
  assumes m: "attended own m" and E: "honest_turn E m" and go: "IOContext_run_once E m = Inr m'"
  shows "\<exists>own'. attended own' m'"
proof -
  let ?m = "m\<lparr>m_calls := Suc (m_calls m)\<rparr>"
  have m1: "attended own ?m" using m by (simp add: attended_def)
  have "attended own' m'" if "attended own' m2" "run_task E (update_interest els) m2 = Inr m'" for own' m2 els
  proof (rule attended_calm [OF that(1)])
    from that(2) obtain u n s where "advance E (update_interest els) (m_calls m2) (m_process m2) = (Finished u, n, s)"
      and m': "m' = m2\<lparr>m_process := s, m_calls := n\<rparr>"
      by (auto simp: run_task_def split: prod.splits progress.splits)
    from calm_interest [OF this(1)] m' show "calm (m_process m2) (m_process m')" "m_pool m' = m_pool m2" by simp_all
  qed
  with m1 go E dispatch_attended [OF m1] show ?thesis
    by (fastforce simp: IOContext_run_once_def honest_turn_def Let_def split: if_splits sum.splits)
qed

lemma loop_attended:
  "attended own m \<Longrightarrow> honest_run E turns m \<Longrightarrow> IOContext_run E turns m = Inr m' \<Longrightarrow> \<exists>own'. attended own' m'"
proof (induction turns arbitrary: own m)
  case (Suc turns)
  then obtain m1 where "IOContext_run_once E m = Inr m1" "IOContext_run E turns m1 = Inr m'" by (auto split: sum.splits)
  with Suc show ?case using turn_attended by fastforce
qed auto

lemma behavedD:
  assumes "behaved A c" and "wf_io s" and "W \<subseteq> {..<addresses s}" and "A \<subseteq> W" and "\<forall>a \<in> A. managed s a"
  shows "owp c (\<lambda>_ _ _ _. True) W {} s"
  using assms unfolding behaved_def
  by (intro tripleD [of "hold {} s A" c]) (auto simp: ready_def hold_def)

text \<open>A coroutine that is started with nothing, beside those that are there already.\<close>

lemma start_fresh:
  assumes m: "attended own m" and c: "behaved {} c" and E: "honest_start E h c m" and go: "start E h c m = Inr m'"
  shows "\<exists>own'. attended own' m'"
proof -
  have "owp c (\<lambda>_ _ _ _. True) (own h) {} ((m_process m)\<lparr>running := h\<rparr>)"
    using m by (intro behavedD [OF c]) (auto simp: attended_def)
  from start_attended [OF m this E go] show ?thesis by blast
qed

lemma peer_attended:
  assumes wf: "wf_io (m_process m)" and pool: "m_pool m = Map.empty"
    and E: "honest_peer E X fuel m" and go: "peer E X fuel m = Inr m1"
  shows "\<exists>own. attended own m1"
proof -
  let ?s = "(m_process m)\<lparr>running := 0\<rparr>"
  from go obtain l n s ma mb where
    l: "advance E (peer_setup X) (m_calls m) ?s = (Finished (Some l), n, s)"
    and ma: "start E 1 (acceptReqSyncConnectionsLoop X fuel l) (m\<lparr>m_process := s, m_calls := n\<rparr>) = Inr ma"
    and mb: "start E 2 (bleachDataLoop X fuel) ma = Inr mb" and m1: "start E 0 (peer_main X fuel) mb = Inr m1"
    by (rule peer_steps)
  let ?m = "m\<lparr>m_process := s, m_calls := n\<rparr>"
  have h: "honest E (peer_setup X) (m_calls m) {} ?s" "honest_start E 1 (acceptReqSyncConnectionsLoop X fuel l) ?m"
    "honest_start E 2 (bleachDataLoop X fuel) ma" "honest_start E 0 (peer_main X fuel) mb"
    using E l ma mb by (simp_all add: honest_peer_def honest_start_def)
  have r: "ready {} {} ?s" using wf by (simp add: ready_def)
  have "owp (peer_setup X) (\<lambda>r. hold {} ?s (set_option r)) {} {} ?s"
    by (rule tripleD [OF triple_peer_setup r]) (simp add: hold_def)
  from advance_owned [OF owp_ready [OF this r] r h(1)] l obtain W P where
    seg: "segment {} W ?s s" and boot: "hold {} ?s {l} W P s" "ready W P s" by (auto simp: ran_def)
  let ?own = "(\<lambda>_. {})(1 := W)"
  have a0: "attended ?own ?m" using boot pool by (simp add: attended_def ready_def)
  have "owp (acceptReqSyncConnectionsLoop X fuel l) (\<lambda>_ _ _ _. True) (?own 1) {} ((m_process ?m)\<lparr>running := 1\<rparr>)"
    using boot by (intro behavedD [OF behaved_daemon(1)]) (auto simp: ready_def hold_def managed_def get_afd_def)
  from start_attended [OF a0 this h(2) ma] obtain own where "attended own ma" by blast
  with start_fresh [OF _ behaved_daemon(2) h(3) mb] obtain own' where "attended own' mb" by blast
  with start_fresh [OF _ behaved_daemon(3) h(4) m1] show ?thesis by blast
qed

subsection \<open>Properties\<close>

text \<open>
  C7. Every coroutine of the daemon that is suspended can be woken, over all interleavings: the
  object it waits on is in the table of the I/O context under its descriptor, where the event loop
  looks up the objects of the events it receives, and it asks for input or output events. No
  coroutine closes, replaces or unsubscribes an object another one waits on. The kernel is relied on
  for not handing out a descriptor that is still open and for refusing \<open>fcntl\<close> on a negative one.
\<close>

theorem suspended_is_subscribed:
  assumes "io_wf (mIoContext (m_process m))" and "m_pool m = Map.empty"
    and "peer E X fuel m = Inr m1" and "IOContext_run E turns m1 = Inr m2"
    and "honest_peer E X fuel m" and "honest_run E turns m1"
    and "m_pool m2 h = Some (a, c)"
  shows "\<exists>x. get_afd (m_process m2) a = Some x \<and>
    smap_find (mManagedFD (mIoContext (m_process m2))) (mFD x) = Some a \<and>
    mNextIOState x AND (EPOLLIN OR EPOLLOUT) \<noteq> 0"
proof -
  obtain own where "attended own m1" using peer_attended [OF assms(1,2,5,3)] by blast
  then obtain own' where "attended own' m2" using loop_attended assms(4,6) by blast
  with assms(7) have "waits_on a (m_process m2)" unfolding attended_def resting_def by blast
  then show ?thesis by (auto simp: waits_on_def managed_def)
qed

subsection \<open>Witnesses\<close>

text \<open>In the example the descriptors that are open are numbered below the calls made so far.\<close>

definition below :: "nat \<Rightarrow> 'j process \<Rightarrow> bool" where
  "below n s \<longleftrightarrow> (\<forall>fd. 6 + int n \<le> fd \<longrightarrow> smap_find (fds s) fd = None)"

lemma below_fd: "below n s \<Longrightarrow> smap_find (fds s) (6 + int n) = None" "below n s \<Longrightarrow> smap_find (fds s) (7 + int n) = None"
  by (simp_all add: below_def)

lemmas demo_honest = demo_answers sys_value_def sys_error_def co_simps or_exit_bind
  io_of_def on_fd_def registerFD_def attachReadonly_def attach_with_def watch_defs set_next_io_def
  with_watch_def await_suspend_def suspend_def shouldWait_def EAGAIN_def with_errc_bind plausible_def loose_def
  AsyncTimer_create_def timer_tick_def AsyncTimer_wait_def MAX_WAIT_NANOSECONDS_def ReadOp_def ReadOp_syscall_def

lemma demo_honest_accept: "honest demo_daemon_env (acceptReqSyncConnectionsLoop X (Suc k) l) n {} s"
  by (simp add: ListeningSocket_accept_def AcceptOperation_def AcceptOperation_syscall_def demo_honest)

lemma demo_honest_loops:
  "below n s \<Longrightarrow> honest demo_daemon_env (bleachDataLoop X (Suc k)) n {} s"
  "below n s \<Longrightarrow> honest demo_daemon_env (peer_main X (Suc k)) n {} s"
  by (simp_all add: bleachDataLoop_def peer_main_def demo_honest below_fd)

lemma demo_below_accept:
  assumes "advance demo_daemon_env (acceptReqSyncConnectionsLoop X (Suc k) l) n s = (p, n', s')" and "below n s"
  shows "below n' s'"
  using assms by (auto simp: ListeningSocket_accept_def AcceptOperation_def AcceptOperation_syscall_def demo_evaluation
      addPendingOp_def below_def)

lemma demo_below_bleach:
  assumes "advance demo_daemon_env (bleachDataLoop X (Suc k)) n s = (p, n', s')" and "below n s"
  shows "below n' s'"
  using assms
  by (auto simp: bleachDataLoop_def demo_honest advance_bind addPendingOp_def new_afd_def Let_def smap_find_put below_def)

lemma demo_boot:
  "honest demo_daemon_env (peer_setup (ref_ext ''a'')) 0 {} ((m_process demo_machine)\<lparr>running := 0\<rparr>)"
  "advance demo_daemon_env (peer_setup (ref_ext ''a'')) 0 ((m_process demo_machine)\<lparr>running := 0\<rparr>) = (p, n, s) \<Longrightarrow> below n s"
proof -
  obtain ctx where conf: "\<not> x_parse_error (ref_ext ''a'') demo_conf_file" "mOk ctx"
    "x_serial_confs (ref_ext ''a'') (DataTypeConf_serial_process (ref_ext ''a'')) FROM_JSON
      ((x_ctx (ref_ext ''a''))\<lparr>mJson := x_parse (ref_ext ''a'') demo_conf_file\<rparr>) ''mTypeConf'' [] = (ctx, demo_confs)"
    by (rule demo_conf_read)
  have conf_file: "e_call demo_daemon_env k (ReadFile path) = (sys_value 0)\<lparr>s_bytes := demo_conf_file\<rparr>" for k path
    by (simp add: demo_daemon_env_def)
  have none: "fds (m_process demo_machine) = []"
    by (simp add: demo_machine_def demo_process_def idle_io_def)
  from conf show "honest demo_daemon_env (peer_setup (ref_ext ''a'')) 0 {} ((m_process demo_machine)\<lparr>running := 0\<rparr>)"
    by (simp add: peer_setup_def loadRegisteredTypes_def setupListener_def conf_file demo_honest none smap_find_def unmanaged_def)
  assume "advance demo_daemon_env (peer_setup (ref_ext ''a'')) 0 ((m_process demo_machine)\<lparr>running := 0\<rparr>) = (p, n, s)"
  with conf show "below n s"
    by (auto simp: peer_setup_def loadRegisteredTypes_def setupListener_def conf_file demo_honest none
        new_afd_def Let_def smap_find_put smap_find_def below_def)
qed

lemma start_advance:
  "start E h c m = Inr m' \<Longrightarrow> \<exists>p. advance E c (m_calls m) ((m_process m)\<lparr>running := h\<rparr>) = (p, m_calls m', m_process m')"
  by (auto simp: start_def split: prod.splits progress.splits if_splits)

lemma below_running: "below n (s\<lparr>running := h\<rparr>) \<longleftrightarrow> below n s"
  by (simp add: below_def)

lemma demo_honest_peer:
  assumes "peer demo_daemon_env (ref_ext ''a'') 1 demo_machine = Inr m1"
  shows "honest_peer demo_daemon_env (ref_ext ''a'') 1 demo_machine"
proof -
  let ?E = "demo_daemon_env" and ?X = "ref_ext ''a''" and ?m = "demo_machine"
  have calls: "m_calls ?m = 0" by (simp add: demo_machine_def)
  from assms obtain l n s ma mb where
    l: "advance ?E (peer_setup ?X) (m_calls ?m) ((m_process ?m)\<lparr>running := 0\<rparr>) = (Finished (Some l), n, s)"
    and ma: "start ?E 1 (acceptReqSyncConnectionsLoop ?X 1 l) (?m\<lparr>m_process := s, m_calls := n\<rparr>) = Inr ma"
    and mb: "start ?E 2 (bleachDataLoop ?X 1) ma = Inr mb" and "start ?E 0 (peer_main ?X 1) mb = Inr m1"
    by (rule peer_steps)
  from demo_boot(2) l have b0: "below n s" by (simp add: calls)
  from start_advance [OF ma] obtain p where
    "advance ?E (acceptReqSyncConnectionsLoop ?X (Suc 0) l) n (s\<lparr>running := 1\<rparr>) = (p, m_calls ma, m_process ma)"
    by (auto simp del: acceptReqSyncConnectionsLoop.simps)
  from demo_below_accept [OF this] b0 have b1: "below (m_calls ma) (m_process ma)" by (simp add: below_running)
  from start_advance [OF mb] obtain p where
    "advance ?E (bleachDataLoop ?X (Suc 0)) (m_calls ma) ((m_process ma)\<lparr>running := 2\<rparr>) = (p, m_calls mb, m_process mb)"
    by auto
  from demo_below_bleach [OF this] b1 have b2: "below (m_calls mb) (m_process mb)" by (simp add: below_running)
  show ?thesis
    using l ma mb b1 b2 demo_boot(1)
    by (simp add: honest_peer_def honest_start_def below_running calls demo_honest_accept demo_honest_loops
        del: acceptReqSyncConnectionsLoop.simps)
qed

lemma demo_honest_run: "honest_run demo_daemon_env turns m"
proof (induction turns arbitrary: m)
  case (Suc turns)
  then show ?case
    by (simp add: honest_turn_def demo_answers sys_error_def sys_value_def split: sum.split)
qed simp

theorem suspended_is_subscribed_witness:
  "\<exists>m1 m2 a c x. peer demo_daemon_env (ref_ext ''a'') 1 demo_machine = Inr m1 \<and>
     IOContext_run demo_daemon_env 2 m1 = Inr m2 \<and> m_pool m2 0 = Some (a, c) \<and>
     get_afd (m_process m2) a = Some x \<and> smap_find (mManagedFD (mIoContext (m_process m2))) (mFD x) = Some a"
proof -
  obtain m1 m2 where run: "peer demo_daemon_env (ref_ext ''a'') 1 demo_machine = Inr m1"
    "IOContext_run demo_daemon_env 2 m1 = Inr m2" "m_pool m2 0 \<noteq> None" by (rule demo_daemon)
  then obtain a c where "m_pool m2 0 = Some (a, c)" by auto
  from suspended_is_subscribed [OF demo_machine_wf(2,3) run(1,2) demo_honest_peer [OF run(1)] demo_honest_run this] this run
  show ?thesis by blast
qed

end
