(* ===== verification/Dialogue.thy ===== *)
theory Dialogue
  imports WireProtocol AsyncSocket
begin

text \<open>
  Two processes at the ends of one connection. \<open>drive\<close> runs one side up to its next suspension:
  \<open>send\<close> on the connection takes everything, \<open>recv\<close> takes what has arrived and answers \<open>EAGAIN\<close>
  when nothing has, every other call is answered by the environment of that side. The lemmas
  give the exchange of each part of the protocol, whatever the processes do besides.
\<close>

datatype ('s, 'a) turn = Answered 'a | Waiting nat "('s, 'a) co" | Broken halt

definition recv_answer :: "nat \<Rightarrow> byte list \<Rightarrow> sysret" where
  "recv_answer len inq =
     (if inq = [] \<and> 0 < len then sys_error EAGAIN
      else (sys_value (int (length (take len inq))))\<lparr>s_bytes := take len inq\<rparr>)"

text \<open>The result: how the side stopped, the number of answers and the state, the bytes left and
  the bytes sent, and the last condition stored in \<open>errbub\<close>.\<close>

type_synonym ('s, 'a) drive_result =
  "('s, 'a) turn \<times> nat \<times> 's \<times> byte list \<times> byte list \<times> error_condition option"

definition add_out :: "byte list \<Rightarrow> ('s, 'a) drive_result \<Rightarrow> ('s, 'a) drive_result" where
  "add_out bs r = (case r of (t, n, s, inq, out, err) \<Rightarrow> (t, n, s, inq, bs @ out, err))"

definition add_err :: "error_condition option \<Rightarrow> ('s, 'a) drive_result \<Rightarrow> ('s, 'a) drive_result" where
  "add_err e r = (case r of (t, n, s, inq, out, err) \<Rightarrow>
     (t, n, s, inq, out, if err = None then e else err))"

primrec drive ::
  "int \<Rightarrow> 's env \<Rightarrow> ('s, 'a) co \<Rightarrow> nat \<Rightarrow> 's \<Rightarrow> byte list \<Rightarrow> ('s, 'a) drive_result" where
  "drive fd E (Ret a) n s inq = (Answered a, n, s, inq, [], None)"
| "drive fd E (Halt h) n s inq = (Broken h, n, s, inq, [], None)"
| "drive fd E (Bubble e c) n s inq = add_err (Some e) (drive fd E c n s inq)"
| "drive fd E (Act u k) n s inq = drive fd E (k s) n (u s) inq"
| "drive fd E (Call q k) n s inq =
     (if \<exists>len. q = SysRecv fd len then
        let len = (case q of SysRecv _ l \<Rightarrow> l | _ \<Rightarrow> 0) in
        drive fd E (k (recv_answer len inq)) n s (drop len inq)
      else if \<exists>buf. q = SysSend fd buf then
        let buf = (case q of SysSend _ b \<Rightarrow> b | _ \<Rightarrow> []) in
        add_out buf (drive fd E (k (sys_value (int (length buf)))) n s inq)
      else drive fd E (k (e_call E n q)) (Suc n) s inq)"
| "drive fd E (Suspend a c) n s inq = (Waiting a c, n, s, inq, [], None)"

lemma add_out_simps [simp]:
  "add_out bs (t, n, s, inq, out, err) = (t, n, s, inq, bs @ out, err)"
  "add_out [] r = r" "add_out bs (add_out cs r) = add_out (bs @ cs) r"
  by (auto simp: add_out_def split: prod.split)

lemma add_err_simps [simp]:
  "add_err e (t, n, s, inq, out, err) = (t, n, s, inq, out, if err = None then e else err)"
  "add_err None r = r" "add_err e (add_out bs r) = add_out bs (add_err e r)"
  by (auto simp: add_err_def add_out_def split: prod.split)

lemma add_err_twice: "add_err e (add_err e' r) = add_err (if e' = None then e else e') r"
  by (auto simp: add_err_def split: prod.split)

definition drive_then ::
  "int \<Rightarrow> 's env \<Rightarrow> ('a \<Rightarrow> ('s, 'b) co) \<Rightarrow> ('s, 'a) drive_result \<Rightarrow> ('s, 'b) drive_result" where
  "drive_then fd E f r = (case r of (t, n, s, inq, out, err) \<Rightarrow> (case t of
     Answered a \<Rightarrow> add_out out (add_err err (drive fd E (f a) n s inq))
   | Waiting w c \<Rightarrow> (Waiting w (co_bind c f), n, s, inq, out, err)
   | Broken h \<Rightarrow> (Broken h, n, s, inq, out, err)))"

lemma drive_then_simps [simp]:
  "drive_then fd E f (Answered a, n, s, inq, out, err) = add_out out (add_err err (drive fd E (f a) n s inq))"
  "drive_then fd E f (Waiting w c, n, s, inq, out, err) = (Waiting w (co_bind c f), n, s, inq, out, err)"
  "drive_then fd E f (Broken h, n, s, inq, out, err) = (Broken h, n, s, inq, out, err)"
  by (simp_all add: drive_then_def)

lemma drive_then_out [simp]:
  "drive_then fd E f (add_out bs r) = add_out bs (drive_then fd E f r)"
  by (auto simp: drive_then_def add_out_def split: prod.split turn.split)

lemma drive_then_err [simp]:
  "drive_then fd E f (add_err e r) = add_err e (drive_then fd E f r)"
  by (auto simp: drive_then_def add_err_def add_out_def split: prod.split turn.split)

lemma drive_bind: "drive fd E (co_bind c f) n s inq = drive_then fd E f (drive fd E c n s inq)"
  by (induction c arbitrary: n s inq) (auto simp: Let_def)

lemma drive_then_co: "drive fd E (co_then c d) n s inq = drive_then fd E (\<lambda>_. d) (drive fd E c n s inq)"
  by (simp add: co_then_def drive_bind)

text \<open>A local error condition collects what the callee stores.\<close>

lemma drive_with_errc:
  assumes "drive fd E c n s inq = (Answered a, n', s', inq', out, err)"
  shows "drive fd E (with_errc c e) n s inq =
    (Answered (a, if err = None then e else err), n', s', inq', out, None)"
  using assms
proof (induction c arbitrary: n s inq e out err)
  case (Bubble e' c)
  obtain t m u i o' err' where r: "drive fd E c n s inq = (t, m, u, i, o', err')"
    by (metis prod_cases6)
  with Bubble.prems have "drive fd E c n s inq = (Answered a, n', s', inq', out, err')" by simp
  from Bubble.IH [OF this, of "Some e'"] r Bubble.prems show ?case by (auto split: if_splits)
next
  case (Call q k)
  show ?case
  proof (cases "\<exists>buf. q = SysSend fd buf")
    case True
    then obtain buf where q: "q = SysSend fd buf" by blast
    obtain t m u i o' err' where
      r: "drive fd E (k (sys_value (int (length buf)))) n s inq = (t, m, u, i, o', err')"
      by (metis prod_cases6)
    with Call.prems q have "drive fd E (k (sys_value (int (length buf)))) n s inq =
        (Answered a, n', s', inq', o', err)" by simp
    from Call.IH [OF rangeI this, of e] r Call.prems q show ?thesis by simp
  next
    case False
    with Call show ?thesis by (auto simp: Let_def)
  qed
qed auto

lemma drive_or_exit:
  assumes "drive fd E c n s inq = (Answered a, n', s', inq', out, None)"
  shows "drive fd E (or_exit c) n s inq = (Answered a, n', s', inq', out, None)"
  using assms
proof (induction c arbitrary: n s inq out)
  case (Bubble e' c)
  then show ?case by (cases "drive fd E c n s inq") (auto split: if_splits)
next
  case (Call q k)
  show ?case
  proof (cases "\<exists>buf. q = SysSend fd buf")
    case True
    then obtain buf where q: "q = SysSend fd buf" by blast
    obtain t m u i o' err' where
      r: "drive fd E (k (sys_value (int (length buf)))) n s inq = (t, m, u, i, o', err')"
      by (metis prod_cases6)
    with Call.prems q have "drive fd E (k (sys_value (int (length buf)))) n s inq =
        (Answered a, n', s', inq', o', None)" by simp
    from Call.IH [OF rangeI this] r Call.prems q show ?thesis by simp
  next
    case False
    with Call show ?thesis by (auto simp: Let_def)
  qed
qed auto

subsection \<open>What a transfer leaves alone\<close>

definition frame :: "'j process \<Rightarrow> 'j process \<Rightarrow> bool" where
  "frame s s' \<longleftrightarrow> mStates s' = mStates s \<and> mTypeConf s' = mTypeConf s \<and> isPeer s' = isPeer s \<and>
     mManagedFD (mIoContext s') = mManagedFD (mIoContext s) \<and> (\<forall>r. fd_of s' r = fd_of s r)"

lemma frame_refl [simp]: "frame s s"
  by (simp add: frame_def)

lemma frame_trans: "frame s t \<Longrightarrow> frame t u \<Longrightarrow> frame s u"
  by (simp add: frame_def)

lemma frame_fd: "frame s s' \<Longrightarrow> fd_of s' r = fd_of s r"
  by (simp add: frame_def)

lemma frame_update_afd: "(\<And>x. mFD (f x) = mFD x) \<Longrightarrow> frame s (update_afd a f s)"
  by (simp add: frame_def)

lemma frame_update_afd_step:
  "frame s t \<Longrightarrow> (\<And>x. mFD (f x) = mFD x) \<Longrightarrow> frame s (update_afd a f t)"
  by (erule frame_trans) (rule frame_update_afd)

lemma frame_pop: "frame s (pop_pending_op a s)"
  unfolding pop_pending_op_def by (rule frame_update_afd) simp

subsection \<open>Transfers\<close>

lemma drive_on_fd_recv:
  "fd_of s a = fd \<Longrightarrow> drive fd E (on_fd a (\<lambda>fd. SysRecv fd k)) n s inq =
     (Answered (recv_answer k inq), n, s, drop k inq, [], None)"
  by (simp add: on_fd_def io_of_def co_simps Let_def)

lemma drive_on_fd_send:
  "fd_of s a = fd \<Longrightarrow> drive fd E (on_fd a (\<lambda>fd. SysSend fd buf)) n s inq =
     (Answered (sys_value (int (length buf))), n, s, inq, buf, None)"
  by (simp add: on_fd_def io_of_def co_simps Let_def)

lemma recv_answer_full:
  "0 < k \<Longrightarrow> k \<le> length inq \<Longrightarrow>
   recv_answer k inq = (sys_value (int k))\<lparr>s_bytes := take k inq\<rparr>"
  by (auto simp: recv_answer_def)

lemma drive_recv:
  assumes "fd_of s a = fd" and "0 < k" and "k \<le> length inq"
  shows "\<exists>s'. drive fd E (AsyncSocket_recv a k) n s inq =
      (Answered (int k, take k inq), n, s', drop k inq, [], None) \<and> frame s s'"
  using assms
  by (simp add: AsyncSocket_recv_def read_loop.simps [of _ k "[]"] RecvOperation_def with_watch_def
      await_suspend_def RecvOperation_syscall_def watch_defs set_next_io_def co_simps drive_bind
      drive_on_fd_recv recv_answer_full shouldWait_def received_def Let_def sys_value_def
      frame_update_afd_step)

lemma drive_recv_wait:
  assumes "fd_of s a = fd" and "0 < k"
  shows "\<exists>c' s'. drive fd E (AsyncSocket_recv a k) n s [] = (Waiting a c', n, s', [], [], None) \<and>
    frame s s' \<and>
    (\<forall>n2 s2 inq. fd_of s2 a = fd \<longrightarrow> k \<le> length inq \<longrightarrow>
      (\<exists>s3. drive fd E c' n2 s2 inq = (Answered (int k, take k inq), n2, s3, drop k inq, [], None) \<and>
        frame s2 s3))"
  using assms
  by (simp add: AsyncSocket_recv_def read_loop.simps [of _ k "[]"] RecvOperation_def with_watch_def
      await_suspend_def await_resume_def RecvOperation_syscall_def watch_defs set_next_io_def co_simps
      drive_bind drive_on_fd_recv recv_answer_full recv_answer_def [of _ "[]"] shouldWait_def received_def
      Let_def sys_value_def sys_error_def suspend_def addPendingOp_def frame_update_afd_step EAGAIN_def)

lemma drive_send:
  assumes "fd_of s a = fd"
  shows "\<exists>s'. drive fd E (AsyncSocket_send a buf) n s inq =
      (Answered (int (length buf)), n, s', inq, buf, None) \<and> frame s s'"
  using assms
  by (simp add: AsyncSocket_send_def write_loop.simps [of _ buf 0] SendOperation_def with_watch_def
      await_suspend_def SendOperation_syscall_def raise_sigpipe_def watch_defs set_next_io_def co_simps drive_bind
      drive_on_fd_send shouldWait_def written_def Let_def sys_value_def frame_update_afd_step)

text \<open>The same, in the form in which the messages use them.\<close>

lemma drive_recv_exact:
  assumes "fd_of s a = fd" and "bs \<noteq> []" and "k = length bs"
  obtains s' where "drive fd E (AsyncSocket_recv a k) n s (bs @ rest) =
      (Answered (int k, bs), n, s', rest, [], None)" "fd_of s' a = fd" "frame s s'"
  using drive_recv [OF assms(1), of "length bs" "bs @ rest" E n] assms frame_fd by fastforce

lemma drive_send_all:
  assumes "fd_of s a = fd"
  obtains s' where "drive fd E (AsyncSocket_send a buf) n s inq =
      (Answered (int (length buf)), n, s', inq, buf, None)" "fd_of s' a = fd" "frame s s'"
  using drive_send [OF assms(1), of E buf n inq] assms frame_fd by fastforce

lemma drive_recv_waits:
  assumes "fd_of s a = fd" and "0 < k"
  obtains c' s' where "drive fd E (AsyncSocket_recv a k) n s [] = (Waiting a c', n, s', [], [], None)"
    "frame s s'" "\<And>n2 s2 bs rest. fd_of s2 a = fd \<Longrightarrow> length bs = k \<Longrightarrow>
      \<exists>s3. drive fd E c' n2 s2 (bs @ rest) = (Answered (int k, bs), n2, s3, rest, [], None) \<and> frame s2 s3"
proof -
  obtain c' s' where w: "drive fd E (AsyncSocket_recv a k) n s [] = (Waiting a c', n, s', [], [], None)"
    "frame s s'" and r: "\<And>n2 s2 inq. fd_of s2 a = fd \<Longrightarrow> k \<le> length inq \<Longrightarrow>
      \<exists>s3. drive fd E c' n2 s2 inq = (Answered (int k, take k inq), n2, s3, drop k inq, [], None) \<and>
        frame s2 s3"
    using drive_recv_wait [OF assms, of E n] by blast
  show thesis
  proof (rule that [OF w])
    fix n2 and s2 :: "'a process" and bs rest :: "byte list"
    assume "fd_of s2 a = fd" and "length bs = k"
    then show "\<exists>s3. drive fd E c' n2 s2 (bs @ rest) = (Answered (int k, bs), n2, s3, rest, [], None) \<and> frame s2 s3"
      using r [of s2 "bs @ rest" n2] by simp
  qed
qed

lemma drive_call:
  "\<nexists>len. q = SysRecv fd len \<Longrightarrow> \<nexists>buf. q = SysSend fd buf \<Longrightarrow>
   drive fd E (co_call q) n s inq = (Answered (e_call E n q), Suc n, s, inq, [], None)"
  by (auto simp: co_call_def)

lemma drive_clock [simp]:
  "drive fd E (co_call SteadyClockNow) n s inq = (Answered (e_call E n SteadyClockNow), Suc n, s, inq, [], None)"
  by (simp add: drive_call)

subsection \<open>The handshake\<close>

definition version_bytes :: "byte list" where
  "version_bytes = be_bytes WIRE_PROTO_VERSION"

lemma length_version [simp]: "length version_bytes = 4"
  by (simp add: version_bytes_def)

lemma version_read: "htonl le (load32 le version_bytes) = WIRE_PROTO_VERSION"
  by (simp add: version_bytes_def htonl_load32)

lemma version_sent: "store32 le (htonl le WIRE_PROTO_VERSION) = version_bytes"
  by (simp add: version_bytes_def store32_htonl)

lemma client_shake:
  fixes X :: "'j ext"
  assumes fd: "fd_of s a = fd"
  shows "\<exists>c1 s1. drive fd E (clientHandShake X a st) n s [] = (Waiting a c1, Suc n, s1, [], version_bytes, None) \<and>
    frame s s1 \<and>
    (\<forall>n2 s2 rest. fd_of s2 a = fd \<longrightarrow> (\<exists>st' s3 v3.
      drive fd E c1 n2 s2 (version_bytes @ rest) = (Answered (True, st'), Suc n2, s3, rest, v3, None) \<and>
      frame s2 s3 \<and> length v3 = 4 \<and> mPeer st' = mPeer st))"
proof -
  obtain s1 where send: "drive fd E (AsyncSocket_send a version_bytes) (Suc n) s [] =
      (Answered 4, Suc n, s1, [], version_bytes, None)" "frame s s1"
    using drive_send [OF fd, of E version_bytes "Suc n" "[]"] by auto
  obtain c1 s2 where wait: "drive fd E (AsyncSocket_recv a 4) (Suc n) s1 [] = (Waiting a c1, Suc n, s2, [], [], None)"
    "frame s1 s2" and rest: "\<And>n2 s2 inq. fd_of s2 a = fd \<Longrightarrow> 4 \<le> length inq \<Longrightarrow>
      \<exists>s3. drive fd E c1 n2 s2 inq = (Answered (4, take 4 inq), n2, s3, drop 4 inq, [], None) \<and> frame s2 s3"
    using drive_recv_wait [of s1 a fd 4 E "Suc n"] frame_fd [OF send(2)] fd by (auto 4 3)
  define K :: "int \<times> byte list \<Rightarrow> ('j, bool \<times> NetworkStats) task" where "K = (\<lambda>(recvRet, bs). if recvRet = -1 then Ret (False, st)
     else co_bind (co_call SteadyClockNow) (\<lambda>verETP.
       let wireProtoVer = htonl (x_little_endian X) (load32 (x_little_endian X) (fill version_bytes bs)) in
       if WIRE_PROTO_VERSION \<noteq> wireProtoVer then co_fail errc_protocol_error (False, st)
       else co_bind (AsyncSocket_send a (store32 (x_little_endian X) wireProtoVer)) (\<lambda>sendRet.
         if sendRet = -1 then Ret (False, st)
         else Ret (True, st\<lparr>mRttExt := cdiv (s_ret verETP - s_ret (e_call E n SteadyClockNow)) 1000\<rparr>))))"
  have start: "drive fd E (clientHandShake X a st) n s [] =
      (Waiting a (co_bind c1 K), Suc n, s2, [], version_bytes, None)"
    by (simp add: clientHandShake_def Let_def drive_bind version_sent send wait K_def)
  have "\<exists>st' s3 v3. drive fd E (co_bind c1 K) m u (version_bytes @ rest) =
      (Answered (True, st'), Suc m, s3, rest, v3, None) \<and> frame u s3 \<and> length v3 = 4 \<and> mPeer st' = mPeer st"
    if u: "fd_of u a = fd" for m u rest
  proof -
    obtain u1 where u1: "drive fd E c1 m u (version_bytes @ rest) =
        (Answered (4, version_bytes), m, u1, rest, [], None)" "frame u u1"
      using rest [OF u, of "version_bytes @ rest" m] by auto
    obtain u2 where u2: "drive fd E (AsyncSocket_send a (store32 (x_little_endian X) WIRE_PROTO_VERSION)) (Suc m) u1 rest =
        (Answered 4, Suc m, u2, rest, store32 (x_little_endian X) WIRE_PROTO_VERSION, None)" "frame u1 u2"
      using drive_send [of u1 a fd E "store32 (x_little_endian X) WIRE_PROTO_VERSION" "Suc m" rest]
        frame_fd [OF u1(2)] u by auto
    show ?thesis
      using u2(1) frame_trans [OF u1(2) u2(2)]
      by (simp add: drive_bind u1 K_def version_read)
  qed
  with start frame_trans [OF send(2) wait(2)] show ?thesis by blast
qed

lemma server_shake:
  fixes X :: "'j ext"
  assumes fd: "fd_of s a = fd"
  shows "\<exists>c1 s1. drive fd E (serverHandShake X a st) n s version_bytes =
      (Waiting a c1, Suc n, s1, [], version_bytes, None) \<and> frame s s1 \<and>
    (\<forall>n2 s2 v3 rest. fd_of s2 a = fd \<longrightarrow> length v3 = 4 \<longrightarrow> (\<exists>st' s3.
      drive fd E c1 n2 s2 (v3 @ rest) = (Answered (True, st'), Suc n2, s3, rest, [], None) \<and>
      frame s2 s3 \<and> mPeer st' = mPeer st))"
proof -
  obtain s1 where recv: "drive fd E (AsyncSocket_recv a 4) n s version_bytes =
      (Answered (4, version_bytes), n, s1, [], [], None)" "frame s s1"
    using drive_recv [OF fd, of 4 version_bytes E n] by auto
  obtain s2 where send: "drive fd E (AsyncSocket_send a version_bytes) (Suc n) s1 [] =
      (Answered 4, Suc n, s2, [], version_bytes, None)" "frame s1 s2"
    using drive_send [of s1 a fd E version_bytes "Suc n" "[]"] frame_fd [OF recv(2)] fd by auto
  obtain c1 s3 where wait: "drive fd E (AsyncSocket_recv a 4) (Suc n) s2 [] = (Waiting a c1, Suc n, s3, [], [], None)"
    "frame s2 s3" and rest: "\<And>n2 s2 inq. fd_of s2 a = fd \<Longrightarrow> 4 \<le> length inq \<Longrightarrow>
      \<exists>s3. drive fd E c1 n2 s2 inq = (Answered (4, take 4 inq), n2, s3, drop 4 inq, [], None) \<and> frame s2 s3"
    using drive_recv_wait [of s2 a fd 4 E "Suc n"] frame_fd [OF send(2)] frame_fd [OF recv(2)] fd
    by (auto 4 3)
  define K :: "int \<times> byte list \<Rightarrow> ('j, bool \<times> NetworkStats) task" where "K = (\<lambda>(recvRet, _). if recvRet = -1 then Ret (False, st)
     else co_bind (co_call SteadyClockNow) (\<lambda>verETP.
       Ret (True, st\<lparr>mRttExt := cdiv (s_ret verETP - s_ret (e_call E n SteadyClockNow)) 1000\<rparr>)))"
  have start: "drive fd E (serverHandShake X a st) n s version_bytes =
      (Waiting a (co_bind c1 K), Suc n, s3, [], version_bytes, None)"
    by (simp add: serverHandShake_def Let_def drive_bind version_sent recv send wait K_def version_read)
  have "\<exists>st' s3. drive fd E (co_bind c1 K) m u (v3 @ rest) =
      (Answered (True, st'), Suc m, s3, rest, [], None) \<and> frame u s3 \<and> mPeer st' = mPeer st"
    if u: "fd_of u a = fd" "length v3 = 4" for m u v3 rest
    using rest [OF u(1), of "v3 @ rest" m] u(2) by (auto simp: drive_bind K_def)
  with start frame_trans [OF recv(2) frame_trans [OF send(2) wait(2)]] show ?thesis by blast
qed

subsection \<open>Messages\<close>

text \<open>The frame of a message, and the messages that fit into one.\<close>

definition wire_frame :: "NetworkMessage \<Rightarrow> byte list" where
  "wire_frame msg = [of_nat (length (mTypeName msg))] @ bytes_of_string (mTypeName msg) @
     be_bytes (of_nat (length (mMsgData msg))) @ mMsgData msg"

definition fits :: "NetworkMessage \<Rightarrow> bool" where
  "fits msg \<longleftrightarrow> 1 \<le> length (mTypeName msg) \<and> length (mTypeName msg) \<le> DATA_TYPE_NAME_MAX_LENGHT \<and>
     2 \<le> length (mMsgData msg) \<and> length (mMsgData msg) \<le> DATA_MAX_LENGHT"

definition ack_bytes :: "NetworkMessage \<Rightarrow> byte list" where
  "ack_bytes msg = be_bytes (of_nat (length (wire_frame msg)))"

text \<open>A clock whose ticks are whole microseconds never shows a shorter positive time.\<close>

definition coarse_clock :: "'s env \<Rightarrow> bool" where
  "coarse_clock E \<longleftrightarrow> (\<forall>i. 1000 dvd s_ret (e_call E i SteadyClockNow))"

lemma bandwidth_coarse:
  assumes "coarse_clock E"
  shows "\<exists>bw. bandwidth b (s_ret (e_call E i SteadyClockNow)) (s_ret (e_call E j SteadyClockNow)) old = Some bw"
proof -
  let ?d = "s_ret (e_call E j SteadyClockNow) - s_ret (e_call E i SteadyClockNow)"
  have "1000 dvd ?d" using assms by (simp add: coarse_clock_def)
  then have "0 < ?d \<Longrightarrow> 1000 \<le> ?d" by (rule zdvd_imp_le)
  then have "0 < ?d \<Longrightarrow> cdiv ?d 1000 \<noteq> 0" by (simp add: cdiv_nonneg)
  then show ?thesis by (simp add: bandwidth_def MbitPerSec_def)
qed

lemma length_frame: "length (wire_frame msg) = 5 + length (mTypeName msg) + length (mMsgData msg)"
  by (simp add: wire_frame_def)

lemma fits_lengths:
  assumes "fits msg"
  shows "unat (of_nat (length (mTypeName msg)) :: byte) = length (mTypeName msg)"
    "unat (of_nat (length (mMsgData msg)) :: u32) = length (mMsgData msg)"
    "uint (of_nat (length (wire_frame msg)) :: u32) = int (length (wire_frame msg))"
proof -
  have "length (mTypeName msg) < 2 ^ 8" "length (mMsgData msg) < 2 ^ 32" "length (wire_frame msg) < 2 ^ 32"
    using assms
    by (auto simp: fits_def DATA_TYPE_NAME_MAX_LENGHT_def DATA_MAX_LENGHT_def length_frame)
  then show "unat (of_nat (length (mTypeName msg)) :: byte) = length (mTypeName msg)"
    "unat (of_nat (length (mMsgData msg)) :: u32) = length (mMsgData msg)"
    "uint (of_nat (length (wire_frame msg)) :: u32) = int (length (wire_frame msg))"
    by (simp_all add: unat_of_nat take_bit_nat_eq_self uint_nat)
qed

lemma drive_recv_parts:
  assumes fd: "fd_of s a = fd" and fit: "fits msg"
  obtains s1 s2 s3 s4 where
    "drive fd E (AsyncSocket_recv a 1) n s (wire_frame msg @ rest) =
      (Answered (int 1, [of_nat (length (mTypeName msg))]), n, s1, bytes_of_string (mTypeName msg) @
        be_bytes (of_nat (length (mMsgData msg)) :: u32) @ mMsgData msg @ rest, [], None)"
    "drive fd E (AsyncSocket_recv a (length (mTypeName msg))) n s1 (bytes_of_string (mTypeName msg) @
        be_bytes (of_nat (length (mMsgData msg)) :: u32) @ mMsgData msg @ rest) =
      (Answered (int (length (mTypeName msg)), bytes_of_string (mTypeName msg)), n, s2,
        be_bytes (of_nat (length (mMsgData msg)) :: u32) @ mMsgData msg @ rest, [], None)"
    "drive fd E (AsyncSocket_recv a 4) n s2 (be_bytes (of_nat (length (mMsgData msg)) :: u32) @ mMsgData msg @ rest) =
      (Answered (int 4, be_bytes (of_nat (length (mMsgData msg)) :: u32)), n, s3, mMsgData msg @ rest, [], None)"
    "drive fd E (AsyncSocket_recv a (length (mMsgData msg))) n s3 (mMsgData msg @ rest) =
      (Answered (int (length (mMsgData msg)), mMsgData msg), n, s4, rest, [], None)"
    "fd_of s4 a = fd" "frame s s4"
proof -
  let ?head = "[of_nat (length (mTypeName msg)) :: byte]" and ?name = "bytes_of_string (mTypeName msg)"
    and ?len = "be_bytes (of_nat (length (mMsgData msg)) :: u32)"
  obtain s1 where s1: "drive fd E (AsyncSocket_recv a 1) n s (?head @ ?name @ ?len @ mMsgData msg @ rest) =
      (Answered (int 1, ?head), n, s1, ?name @ ?len @ mMsgData msg @ rest, [], None)" "fd_of s1 a = fd" "frame s s1"
    by (rule drive_recv_exact [OF fd, of ?head 1]) auto
  obtain s2 where s2: "drive fd E (AsyncSocket_recv a (length (mTypeName msg))) n s1 (?name @ ?len @ mMsgData msg @ rest) =
      (Answered (int (length (mTypeName msg)), ?name), n, s2, ?len @ mMsgData msg @ rest, [], None)"
    "fd_of s2 a = fd" "frame s1 s2"
    by (rule drive_recv_exact [OF s1(2), of ?name "length (mTypeName msg)"]) (use fit in \<open>auto simp: fits_def\<close>)
  obtain s3 where s3: "drive fd E (AsyncSocket_recv a 4) n s2 (?len @ mMsgData msg @ rest) =
      (Answered (int 4, ?len), n, s3, mMsgData msg @ rest, [], None)" "fd_of s3 a = fd" "frame s2 s3"
    by (rule drive_recv_exact [OF s2(2), of ?len 4]) (auto simp: be_bytes_def)
  obtain s4 where s4: "drive fd E (AsyncSocket_recv a (length (mMsgData msg))) n s3 (mMsgData msg @ rest) =
      (Answered (int (length (mMsgData msg)), mMsgData msg), n, s4, rest, [], None)" "fd_of s4 a = fd" "frame s3 s4"
    by (rule drive_recv_exact [OF s3(2), of "mMsgData msg" "length (mMsgData msg)"])
      (use fit in \<open>auto simp: fits_def\<close>)
  have "frame s s4" by (rule frame_trans [OF s1(3) frame_trans [OF s2(3) frame_trans [OF s3(3) s4(3)]]])
  with that s1(1) s2(1) s3(1) s4(1,2) show thesis by (simp add: wire_frame_def)
qed

lemma drive_receive:
  assumes fd: "fd_of s a = fd" and fit: "fits msg" and clock: "coarse_clock E"
  shows "\<exists>st' s'. drive fd E (receiveNetworkMessage X a st) n s (wire_frame msg @ rest) =
      (Answered (int (length (wire_frame msg)), msg, st'), Suc (Suc n), s', rest, ack_bytes msg, None) \<and>
    frame s s' \<and> mPeer st' = mPeer st"
proof -
  obtain s1 s2 s3 s4 where parts:
    "drive fd E (AsyncSocket_recv a 1) (Suc n) s (wire_frame msg @ rest) =
      (Answered (int 1, [of_nat (length (mTypeName msg))]), Suc n, s1, bytes_of_string (mTypeName msg) @
        be_bytes (of_nat (length (mMsgData msg)) :: u32) @ mMsgData msg @ rest, [], None)"
    "drive fd E (AsyncSocket_recv a (length (mTypeName msg))) (Suc n) s1 (bytes_of_string (mTypeName msg) @
        be_bytes (of_nat (length (mMsgData msg)) :: u32) @ mMsgData msg @ rest) =
      (Answered (int (length (mTypeName msg)), bytes_of_string (mTypeName msg)), Suc n, s2,
        be_bytes (of_nat (length (mMsgData msg)) :: u32) @ mMsgData msg @ rest, [], None)"
    "drive fd E (AsyncSocket_recv a 4) (Suc n) s2
        (be_bytes (of_nat (length (mMsgData msg)) :: u32) @ mMsgData msg @ rest) =
      (Answered (int 4, be_bytes (of_nat (length (mMsgData msg)) :: u32)), Suc n, s3, mMsgData msg @ rest, [], None)"
    "drive fd E (AsyncSocket_recv a (length (mMsgData msg))) (Suc n) s3 (mMsgData msg @ rest) =
      (Answered (int (length (mMsgData msg)), mMsgData msg), Suc n, s4, rest, [], None)"
    and s4: "fd_of s4 a = fd" "frame s s4"
    by (rule drive_recv_parts [OF fd fit])
  let ?total = "1 + int (length (mTypeName msg)) + 4 + int (length (mMsgData msg))"
  have total: "?total = int (length (wire_frame msg))" by (simp add: length_frame)
  obtain s5 where s5: "drive fd E (AsyncSocket_send a (ack_bytes msg)) (Suc (Suc n)) s4 rest =
      (Answered (int (length (ack_bytes msg))), Suc (Suc n), s5, rest, ack_bytes msg, None)" "frame s4 s5"
    using drive_send_all [OF s4(1)] by metis
  obtain bw where bw: "bandwidth ?total (s_ret (e_call E n SteadyClockNow))
      (s_ret (e_call E (Suc n) SteadyClockNow)) (mDownBwMbsExt st) = Some bw"
    using bandwidth_coarse [OF clock] by blast
  have ack: "store32 (x_little_endian X) (htonl (x_little_endian X) (word_of_int ?total)) = ack_bytes msg"
    unfolding total by (simp add: store32_htonl ack_bytes_def)
  have len: "\<not> length (mTypeName msg) < 1" "\<not> DATA_TYPE_NAME_MAX_LENGHT < length (mTypeName msg)"
    "\<not> length (mMsgData msg) < 2" "\<not> DATA_MAX_LENGHT < length (mMsgData msg)"
    using fit by (auto simp: fits_def)
  have "drive fd E (receiveNetworkMessage X a st) n s (wire_frame msg @ rest) =
      (Answered (?total, msg, st\<lparr>mDownBwMbsExt := bw\<rparr>), Suc (Suc n), s5, rest, ack_bytes msg, None)"
    unfolding receiveNetworkMessage_def Let_def
    using parts s5(1) len ack bw fits_lengths(1,2) [OF fit]
    by (simp add: drive_bind htonl_load32 with_bandwidth_def)
  then show ?thesis using frame_trans [OF s4(2) s5(2)] total by auto
qed

lemma drive_send_parts:
  assumes fd: "fd_of s a = fd"
  obtains s1 s2 s3 s4 where
    "drive fd E (AsyncSocket_send a x) n s [] = (Answered (int (length x)), n, s1, [], x, None)"
    "drive fd E (AsyncSocket_send a y) n s1 [] = (Answered (int (length y)), n, s2, [], y, None)"
    "drive fd E (AsyncSocket_send a z) n s2 [] = (Answered (int (length z)), n, s3, [], z, None)"
    "drive fd E (AsyncSocket_send a w) n s3 [] = (Answered (int (length w)), n, s4, [], w, None)"
    "fd_of s4 a = fd" "frame s s4"
proof -
  obtain s1 where s1: "drive fd E (AsyncSocket_send a x) n s [] = (Answered (int (length x)), n, s1, [], x, None)"
    "fd_of s1 a = fd" "frame s s1" by (rule drive_send_all [OF fd])
  obtain s2 where s2: "drive fd E (AsyncSocket_send a y) n s1 [] = (Answered (int (length y)), n, s2, [], y, None)"
    "fd_of s2 a = fd" "frame s1 s2" by (rule drive_send_all [OF s1(2)])
  obtain s3 where s3: "drive fd E (AsyncSocket_send a z) n s2 [] = (Answered (int (length z)), n, s3, [], z, None)"
    "fd_of s3 a = fd" "frame s2 s3" by (rule drive_send_all [OF s2(2)])
  obtain s4 where s4: "drive fd E (AsyncSocket_send a w) n s3 [] = (Answered (int (length w)), n, s4, [], w, None)"
    "fd_of s4 a = fd" "frame s3 s4" by (rule drive_send_all [OF s3(2)])
  have "frame s s4" by (rule frame_trans [OF s1(3) frame_trans [OF s2(3) frame_trans [OF s3(3) s4(3)]]])
  with that s1(1) s2(1) s3(1) s4(1,2) show thesis by blast
qed

lemma drive_send_message:
  fixes X :: "'j ext"
  assumes fd: "fd_of s a = fd" and fit: "fits msg" and clock: "coarse_clock E"
  shows "\<exists>c1 s1. drive fd E (sendNetworkMessage X a msg st) n s [] =
      (Waiting a c1, Suc n, s1, [], wire_frame msg, None) \<and> frame s s1 \<and>
    (\<forall>n2 s2 rest. fd_of s2 a = fd \<longrightarrow> (\<exists>st' s3.
      drive fd E c1 n2 s2 (ack_bytes msg @ rest) =
        (Answered (int (length (wire_frame msg)), st'), Suc n2, s3, rest, [], None) \<and>
      frame s2 s3 \<and> mPeer st' = mPeer st))"
proof -
  let ?name = "bytes_of_string (mTypeName msg)" and ?len = "be_bytes (of_nat (length (mMsgData msg)) :: u32)"
  let ?total = "1 + int (length (mTypeName msg)) + 4 + int (length (mMsgData msg))"
  have total: "?total = int (length (wire_frame msg))" by (simp add: length_frame)
  obtain s1 s2 s3 s4 where parts:
    "drive fd E (AsyncSocket_send a [of_nat (length (mTypeName msg)) :: byte]) (Suc n) s [] =
      (Answered (int (length [of_nat (length (mTypeName msg)) :: byte])), Suc n, s1, [], [of_nat (length (mTypeName msg))], None)"
    "drive fd E (AsyncSocket_send a ?name) (Suc n) s1 [] = (Answered (int (length ?name)), Suc n, s2, [], ?name, None)"
    "drive fd E (AsyncSocket_send a ?len) (Suc n) s2 [] = (Answered (int (length ?len)), Suc n, s3, [], ?len, None)"
    "drive fd E (AsyncSocket_send a (mMsgData msg)) (Suc n) s3 [] =
      (Answered (int (length (mMsgData msg))), Suc n, s4, [], mMsgData msg, None)"
    and s4: "fd_of s4 a = fd" "frame s s4"
    by (rule drive_send_parts [OF fd])
  obtain c1 s5 where s5: "drive fd E (AsyncSocket_recv a 4) (Suc n) s4 [] = (Waiting a c1, Suc n, s5, [], [], None)"
    "frame s4 s5" and rest: "\<And>n2 s2 bs rest. fd_of s2 a = fd \<Longrightarrow> length bs = 4 \<Longrightarrow>
      \<exists>s3. drive fd E c1 n2 s2 (bs @ rest) = (Answered (int 4, bs), n2, s3, rest, [], None) \<and> frame s2 s3"
    by (rule drive_recv_waits [OF s4(1), of 4 E "Suc n"]) auto
  define K :: "int \<times> byte list \<Rightarrow> ('j, int \<times> NetworkStats) task" where
    "K = (\<lambda>(recvRet, bs). if recvRet = -1 then Ret (-1, st)
      else co_bind (co_call SteadyClockNow) (\<lambda>ackETP.
        if uint (htonl (x_little_endian X) (load32 (x_little_endian X) (fill (store32 (x_little_endian X) 0) bs))) \<noteq> ?total
        then co_fail errc_message_size (-1, st)
        else with_bandwidth ?total (s_ret (e_call E n SteadyClockNow)) (s_ret ackETP) (mUpBwMbsExt st) (\<lambda>bw.
          Ret (?total, st\<lparr>mUpBwMbsExt := bw\<rparr>))))"
  have name: "take (unat (of_nat (length (mTypeName msg)) :: byte)) ?name = ?name"
    by (simp add: fits_lengths(1) [OF fit])
  have "drive fd E (sendNetworkMessage X a msg st) n s [] =
      (Waiting a (co_bind c1 K), Suc n, s5, [], wire_frame msg, None)"
    unfolding sendNetworkMessage_def Let_def name store32_htonl
    using parts s5(1) by (simp add: drive_bind K_def wire_frame_def)
  moreover have "\<exists>st' s3. drive fd E (co_bind c1 K) m u (ack_bytes msg @ rest) =
      (Answered (int (length (wire_frame msg)), st'), Suc m, s3, rest, [], None) \<and> frame u s3 \<and> mPeer st' = mPeer st"
    if u: "fd_of u a = fd" for m u rest
  proof -
    obtain bw where bw: "bandwidth ?total (s_ret (e_call E n SteadyClockNow))
        (s_ret (e_call E m SteadyClockNow)) (mUpBwMbsExt st) = Some bw"
      using bandwidth_coarse [OF clock] by blast
    have ack: "length (ack_bytes msg) = 4" "uint (be_value (ack_bytes msg)) = ?total"
      unfolding total by (simp_all add: ack_bytes_def fits_lengths(3) [OF fit])
    then show ?thesis
      using rest [OF u ack(1), of m rest] bw total
      by (auto simp: drive_bind K_def htonl_load32 with_bandwidth_def)
  qed
  moreover have "frame s s5" by (rule frame_trans [OF s4(2) s5(2)])
  ultimately show ?thesis by blast
qed

end
