(* ===== verification/Session.thy ===== *)
theory Session
  imports SyncSession Dialogue
begin

text \<open>
  A synchronisation session between two processes, from the connection to the closed sockets.
  \<open>pump\<close> lets the side that connects and the side that accepts run in turn, each up to its next
  suspension, over a connection that delivers all bytes in order. The lemmas follow the phases
  of the protocol; the property at the end is about the whole session.
\<close>

subsection \<open>The sides and the connection\<close>

type_synonym 'j side = "('j process, bool) turn \<times> nat \<times> 'j process"

definition resume_side ::
  "int \<Rightarrow> 'j process env \<Rightarrow> 'j side \<Rightarrow> byte list \<Rightarrow> 'j side \<times> byte list \<times> byte list" where
  "resume_side fd E side inq = (case side of (t, n, s) \<Rightarrow> (case t of
     Waiting a c \<Rightarrow> (case drive fd E c n (pop_pending_op a s) inq of
         (t', n', s', inq', out, err) \<Rightarrow> ((t', n', s'), inq', out))
   | _ \<Rightarrow> (side, inq, [])))"

primrec pump ::
  "nat \<Rightarrow> int \<Rightarrow> 'j process env \<Rightarrow> int \<Rightarrow> 'j process env \<Rightarrow> 'j side \<Rightarrow> 'j side \<Rightarrow> byte list \<Rightarrow> byte list
    \<Rightarrow> 'j side \<times> 'j side \<times> byte list \<times> byte list" where
  "pump 0 fc Ec fs Es client server toC toS = (client, server, toC, toS)"
| "pump (Suc k) fc Ec fs Es client server toC toS =
     (case resume_side fc Ec client toC of (client', toC', out) \<Rightarrow>
      case resume_side fs Es server (toS @ out) of (server', toS', out') \<Rightarrow>
        pump k fc Ec fs Es client' server' (toC' @ out') toS')"

text \<open>Both sides started: the client first, the server when the first bytes have arrived.\<close>

definition session ::
  "nat \<Rightarrow> int \<Rightarrow> 'j process env \<Rightarrow> int \<Rightarrow> 'j process env \<Rightarrow>
   ('j, bool) task \<Rightarrow> 'j process \<Rightarrow> ('j, bool) task \<Rightarrow> 'j process
    \<Rightarrow> 'j side \<times> 'j side \<times> byte list \<times> byte list" where
  "session rounds fc Ec fs Es client c0 server s0 =
     (case drive fc Ec client 0 c0 [] of (tc, nc, c1, toC, outC, ec) \<Rightarrow>
      case drive fs Es server 0 s0 outC of (ts, ns, s1, toS, outS, es) \<Rightarrow>
        pump rounds fc Ec fs Es (tc, nc, c1) (ts, ns, s1) (toC @ outS) toS)"

text \<open>An environment in which nothing fails: the connection is socket \<open>fd\<close>, no hooks are
  installed, the clock ticks in microseconds.\<close>

definition calm :: "int \<Rightarrow> 's env \<Rightarrow> bool" where
  "calm fd E \<longleftrightarrow> 0 \<le> fd \<and> coarse_clock E \<and>
     (\<forall>i. s_ret (e_call E i SysSocket) = fd \<and> s_ret (e_call E i (SysFcntlGetFl fd)) \<noteq> -1 \<and>
       (\<forall>fl. s_ret (e_call E i (SysFcntlSetFlNonblock fd fl)) \<noteq> -1) \<and>
       (\<forall>addr. s_ret (e_call E i (SysConnect fd addr)) = 0) \<and>
       s_ret (e_call E i (SysGetpeername fd)) = 0 \<and>
       (\<forall>ep. s_ret (e_call E i (SysEpollDel ep fd)) = 0) \<and> s_ret (e_call E i (SysClose fd)) = 0 \<and>
       (\<forall>d. s_ret (e_call E i (IsDirectory d)) = 0))"

subsection \<open>Parts without traffic\<close>

definition on_socket :: "int \<Rightarrow> nat \<Rightarrow> 'j process \<Rightarrow> bool" where
  "on_socket fd a s \<longleftrightarrow> fd_of s a = fd \<and> smap_find (mManagedFD (mIoContext s)) fd = Some a"

lemma on_socket_frame: "frame s s' \<Longrightarrow> on_socket fd a s' = on_socket fd a s"
  by (simp add: on_socket_def frame_def)

lemma drive_connect:
  assumes E: "calm fd E" and addr: "x_isValidNet X peer" "fst (x_ipv4_to_ipv6 X peer)"
  shows "\<exists>a n' s'. drive fd E (ConnectingSocket_connect X peer) n s [] = (Answered (Some a), n', s', [], [], None) \<and>
    on_socket fd a s' \<and> mStates s' = mStates s \<and> mTypeConf s' = mTypeConf s \<and> isPeer s' = isPeer s"
  using assms
  by (simp add: ConnectingSocket_connect_def registerFD_def attachWriteOnly_def attach_with_def
      ConnectOperation_def ConnectOperation_syscall_def with_watch_def await_suspend_def watch_defs
      set_next_io_def on_fd_def io_of_def co_simps calm_def shouldWait_def on_socket_def
      fd_of_def get_afd_def update_afd_def new_afd_def Let_def afd_new_def smap_find_put)

lemma drive_clean_socket:
  assumes "calm fd E" and "on_socket fd a s"
  shows "drive fd E (clean_socket a) n s inq = (Answered (), Suc (Suc n), drop_managed a fd s, inq, [], None)"
  using assms
  by (simp add: clean_socket_def closeAFD_def CloseOperation_def CloseOperation_syscall_def await_suspend_def
      io_of_def co_simps calm_def on_socket_def shouldWait_def)

lemma drop_managed_frame [simp]:
  "mStates (drop_managed a fd s) = mStates s" "mTypeConf (drop_managed a fd s) = mTypeConf s"
  "isPeer (drop_managed a fd s) = isPeer s"
  "mManagedFD (mIoContext (drop_managed a fd s)) = smap_erase fd (mManagedFD (mIoContext s))"
  by (simp_all add: drop_managed_def Let_def)

lemma drive_collectStat:
  assumes "\<not> x_stat_file_locking X"
  shows "\<exists>err. drive fd E (collectStat X st) n s inq = (Answered True, n + 3, s, inq, [], err)"
  using assms by (simp add: collectStat_def update_stat_file_def Let_def co_simps)

lemma drive_merge:
  assumes "ss_wf s" and "smap_wf sl" and "smap_find (mStates s) ty = Some t"
  shows "drive fd E (merge X ty sl peer) n s inq =
    (Answered (merge_changes X (\<not> x_isLoopbackNet X peer) sl t), n,
     s\<lparr>mStates := smap_put ty (merged X (\<not> x_isLoopbackNet X peer) sl t) (mStates s)\<rparr>, inq, [], None)"
proof -
  obtain c where "smap_find (mTypeConf s) ty = Some c" using ss_wf_conf assms by blast
  moreover obtain m where "merge_loop X (\<not> x_isLoopbackNet X peer) sl t =
      (merged X (\<not> x_isLoopbackNet X peer) sl t, merge_changes X (\<not> x_isLoopbackNet X peer) sl t, m)"
    using merge_loop_eq assms ss_wf_state by blast
  ultimately show ?thesis using assms(3) by (simp add: merge_def co_simps)
qed

text \<open>Without a hooks directory the notification is a failure, unless nothing changed.\<close>

lemma drive_notify:
  assumes "calm fd E" and "smap_find (mStates s) ty \<noteq> None"
  shows "drive fd E (notifyHooks X ty) n s inq = (Answered False, Suc n, s, inq, [], None)"
  using assms by (auto simp: notifyHooks_def co_simps Let_def calm_def)

text \<open>
  What is known of a side that waits: for the peer's version, and for the acknowledgement of a
  message. It goes on as soon as the bytes are there, wherever it is resumed.
\<close>

definition client_shaken ::
  "int \<Rightarrow> 'j process env \<Rightarrow> nat \<Rightarrow> sockaddr_storage \<Rightarrow> ('j, bool \<times> NetworkStats) task \<Rightarrow> bool" where
  "client_shaken fd E a peer c \<longleftrightarrow> (\<forall>n s rest. fd_of s a = fd \<longrightarrow> (\<exists>st' s' v3.
     drive fd E c n s (version_bytes @ rest) = (Answered (True, st'), Suc n, s', rest, v3, None) \<and>
     frame s s' \<and> length v3 = 4 \<and> mPeer st' = peer))"

definition server_shaken ::
  "int \<Rightarrow> 'j process env \<Rightarrow> nat \<Rightarrow> sockaddr_storage \<Rightarrow> ('j, bool \<times> NetworkStats) task \<Rightarrow> bool" where
  "server_shaken fd E b peer c \<longleftrightarrow> (\<forall>n s v3 rest. fd_of s b = fd \<longrightarrow> length v3 = 4 \<longrightarrow> (\<exists>st' s'.
     drive fd E c n s (v3 @ rest) = (Answered (True, st'), Suc n, s', rest, [], None) \<and>
     frame s s' \<and> mPeer st' = peer))"

definition acknowledged ::
  "int \<Rightarrow> 'j process env \<Rightarrow> nat \<Rightarrow> NetworkMessage \<Rightarrow> ('j, int \<times> NetworkStats) task \<Rightarrow> bool" where
  "acknowledged fd E a msg c \<longleftrightarrow> (\<forall>n s rest. fd_of s a = fd \<longrightarrow> (\<exists>st' s'.
     drive fd E c n s (ack_bytes msg @ rest) =
       (Answered (int (length (wire_frame msg)), st'), Suc n, s', rest, [], None) \<and> frame s s'))"

lemma shakenD:
  "client_shaken fd E a peer c \<Longrightarrow> fd_of s a = fd \<Longrightarrow> \<exists>st' s' v3.
     drive fd E c n s (version_bytes @ rest) = (Answered (True, st'), Suc n, s', rest, v3, None) \<and>
     frame s s' \<and> length v3 = 4 \<and> mPeer st' = peer"
  "server_shaken fd E b peer c \<Longrightarrow> fd_of s b = fd \<Longrightarrow> length v = 4 \<Longrightarrow> \<exists>st' s'.
     drive fd E c n s (v @ rest) = (Answered (True, st'), Suc n, s', rest, [], None) \<and>
     frame s s' \<and> mPeer st' = peer"
  unfolding client_shaken_def server_shaken_def by blast+

lemma acknowledgedD:
  "acknowledged fd E a msg c \<Longrightarrow> fd_of s a = fd \<Longrightarrow> \<exists>st' s'.
     drive fd E c n s (ack_bytes msg @ rest) =
       (Answered (int (length (wire_frame msg)), st'), Suc n, s', rest, [], None) \<and> frame s s'"
  unfolding acknowledged_def by blast

subsection \<open>The connecting side, phase by phase\<close>

definition client_end :: "'j ext \<Rightarrow> nat \<Rightarrow> sockaddr_storage \<Rightarrow> int \<times> NetworkMessage \<times> NetworkStats \<Rightarrow> ('j, bool) task" where
  "client_end X tSocket peerAddr = (\<lambda>(totalReceived, netMessage, netStats).
     if totalReceived = -1 then co_then (clean_socket tSocket) (Ret False)
     else
   co_bind (co_call SteadyClockNow) (\<lambda>mergeBTP.
   co_bind (merge X (mTypeName netMessage) (toStateSlice X netMessage []) peerAddr) (\<lambda>changes.
     if changes = -1 then co_then (clean_socket tSocket) (Ret False)
     else
   co_bind (co_call SteadyClockNow) (\<lambda>mergeETP.
   co_then (clean_socket tSocket)
   (co_bind (collectStat X netStats) (\<lambda>collected.
     if \<not> collected then Ret False
     else
   co_bind co_get (\<lambda>s.
     if isPeer s \<and> changes > 0 then notifyHooks X (mTypeName netMessage)
     else Ret True)))))))"

definition client_reply :: "'j ext \<Rightarrow> nat \<Rightarrow> sockaddr_storage \<Rightarrow> int \<times> NetworkStats \<Rightarrow> ('j, bool) task" where
  "client_reply X tSocket peerAddr = (\<lambda>(totalSent, netStats).
     if totalSent = -1 then co_then (clean_socket tSocket) (Ret False)
     else co_bind (receiveNetworkMessage X tSocket netStats) (client_end X tSocket peerAddr))"

definition client_talk :: "'j ext \<Rightarrow> nat \<Rightarrow> string \<Rightarrow> sockaddr_storage \<Rightarrow> bool \<times> NetworkStats \<Rightarrow> ('j, bool) task" where
  "client_talk X tSocket dataTypeName peerAddr = (\<lambda>(shaken, netStats).
     if \<not> shaken then co_then (clean_socket tSocket) (Ret False)
     else
   co_bind co_get (\<lambda>s. case smap_find (mStates s) dataTypeName of
     None \<Rightarrow> Halt (Trapped DanglingReference)
   | Some tState \<Rightarrow>
   co_bind (sendNetworkMessage X tSocket
       (fromStateSlice X tState \<lparr>mTypeName = dataTypeName, mMsgData = []\<rparr>) netStats)
     (client_reply X tSocket peerAddr)))"

lemma syncWithPeer_eq:
  "syncWithPeer X dataTypeName peerAddr =
     co_bind co_get (\<lambda>s. case smap_find (mStates s) dataTypeName of
       None \<Rightarrow> co_fail (make_error_condition UNKOWN_DATA_TYPE) False
     | Some _ \<Rightarrow>
     co_bind (ConnectingSocket_connect X peerAddr) (\<lambda>sock. case sock of
       None \<Rightarrow> Ret False
     | Some tSocket \<Rightarrow>
         co_bind (clientHandShake X tSocket (NetworkStats_default\<lparr>mPeer := peerAddr\<rparr>))
           (client_talk X tSocket dataTypeName peerAddr)))"
  unfolding syncWithPeer_def client_talk_def client_reply_def client_end_def ..

lemma client_phase1:
  assumes E: "calm fd E" and addr: "x_isValidNet X peer" "fst (x_ipv4_to_ipv6 X peer)"
    and t: "smap_find (mStates s) ty = Some t"
  obtains a c1 n' s' where "drive fd E (syncWithPeer X ty peer) n s [] =
      (Waiting a (co_bind c1 (client_talk X a ty peer)), n', s', [], version_bytes, None)"
    "on_socket fd a s'" "mStates s' = mStates s" "mTypeConf s' = mTypeConf s" "isPeer s' = isPeer s"
    "client_shaken fd E a peer c1"
proof -
  obtain a n1 s1 where con: "drive fd E (ConnectingSocket_connect X peer) n s [] = (Answered (Some a), n1, s1, [], [], None)"
    "on_socket fd a s1" "mStates s1 = mStates s" "mTypeConf s1 = mTypeConf s" "isPeer s1 = isPeer s"
    using drive_connect [OF E addr] by blast
  from con(2) have "fd_of s1 a = fd" by (simp add: on_socket_def)
  from client_shake [OF this, of E X "NetworkStats_default\<lparr>mPeer := peer\<rparr>" n1]
  obtain c1 s2 where shake: "drive fd E (clientHandShake X a (NetworkStats_default\<lparr>mPeer := peer\<rparr>)) n1 s1 [] =
      (Waiting a c1, Suc n1, s2, [], version_bytes, None)" "frame s1 s2"
    "client_shaken fd E a peer c1"
    unfolding client_shaken_def by fastforce
  show thesis
  proof (rule that [OF _ _ _ _ _ shake(3)])
    show "drive fd E (syncWithPeer X ty peer) n s [] =
        (Waiting a (co_bind c1 (client_talk X a ty peer)), Suc n1, s2, [], version_bytes, None)"
      by (simp add: syncWithPeer_eq drive_bind co_get_def t con shake)
  qed (use con shake(2) in \<open>auto simp: on_socket_def frame_def\<close>)
qed

lemma client_phase3:
  assumes E: "calm fd E" and fd: "on_socket fd a u" and t: "smap_find (mStates u) ty = Some t"
    and msg: "msg = fromStateSlice X t \<lparr>mTypeName = ty, mMsgData = []\<rparr>" "fits msg"
    and shake: "client_shaken fd E a peer c1"
  obtains c2 n' u' v3 where "drive fd E (co_bind c1 (client_talk X a ty peer)) n u version_bytes =
      (Waiting a (co_bind c2 (client_reply X a peer)), n', u', [], v3 @ wire_frame msg, None)"
    "frame u u'" "length v3 = 4"
    "acknowledged fd E a msg c2"
proof -
  have "fd_of u a = fd" using fd by (simp add: on_socket_def)
  from shakenD(1) [OF shake this, of n "[]"] obtain st1 u1 v3 where
    u1: "drive fd E c1 n u version_bytes = (Answered (True, st1), Suc n, u1, [], v3, None)"
    "frame u u1" "length v3 = 4" by auto
  have fd1: "fd_of u1 a = fd" "smap_find (mStates u1) ty = Some t"
    using u1(2) \<open>fd_of u a = fd\<close> t by (simp_all add: frame_def)
  have "coarse_clock E" using E by (simp add: calm_def)
  from drive_send_message [OF fd1(1) msg(2) this, of X st1 "Suc n"]
  obtain c2 u2 where
    u2: "drive fd E (sendNetworkMessage X a msg st1) (Suc n) u1 [] = (Waiting a c2, Suc (Suc n), u2, [], wire_frame msg, None)"
    "frame u1 u2" "acknowledged fd E a msg c2"
    unfolding acknowledged_def by blast
  show thesis
  proof (rule that [OF _ frame_trans [OF u1(2) u2(2)] u1(3) u2(3)])
    show "drive fd E (co_bind c1 (client_talk X a ty peer)) n u version_bytes =
        (Waiting a (co_bind c2 (client_reply X a peer)), Suc (Suc n), u2, [], v3 @ wire_frame msg, None)"
      using u2(1) by (simp add: drive_bind u1 client_talk_def co_get_def fd1(2) flip: msg(1))
  qed
qed

lemma drive_finish:
  assumes E: "calm fd E" and X: "\<not> x_stat_file_locking X" and fd: "on_socket fd a s"
    and ty: "smap_find (mStates s) ty \<noteq> None"
  shows "\<exists>n' err. drive fd E (co_then (clean_socket a) (co_bind (collectStat X st) (\<lambda>collected.
      if \<not> collected then Ret False
      else co_bind co_get (\<lambda>s. if isPeer s \<and> changes > 0 then notifyHooks X ty else Ret True)))) n s inq =
    (Answered (\<not> (isPeer s \<and> changes > 0)), n', drop_managed a fd s, inq, [], err)"
proof -
  obtain err where stat: "drive fd E (collectStat X st) (Suc (Suc n)) (drop_managed a fd s) inq =
      (Answered True, Suc (Suc n) + 3, drop_managed a fd s, inq, [], err)"
    using drive_collectStat [OF X] by blast
  have ty': "smap_find (mStates (drop_managed a fd s)) ty \<noteq> None" using ty by simp
  show ?thesis
    using ty by (auto simp: drive_then_co drive_bind drive_clean_socket [OF E fd] stat co_get_def
        drive_notify [OF E ty'])
qed

lemma client_phase5:
  assumes E: "calm fd E" and X: "\<not> x_stat_file_locking X" and fd: "on_socket fd a u" and wf: "ss_wf u"
    and t: "smap_find (mStates u) (mTypeName msg2) = Some t" and fit: "fits msg2"
    and sl: "toStateSlice X msg2 [] = sl" "smap_wf sl"
    and send: "acknowledged fd E a msg c2"
  shows "\<exists>n' u' err. drive fd E (co_bind c2 (client_reply X a peer)) n u (ack_bytes msg @ wire_frame msg2) =
      (Answered (\<not> (isPeer u \<and> merge_changes X (\<not> x_isLoopbackNet X peer) sl t > 0)), n', u', [], ack_bytes msg2, err) \<and>
    mStates u' = smap_put (mTypeName msg2) (merged X (\<not> x_isLoopbackNet X peer) sl t) (mStates u) \<and>
    smap_find (mManagedFD (mIoContext u')) fd = None"
proof -
  let ?remote = "\<not> x_isLoopbackNet X peer"
  have "fd_of u a = fd" using fd by (simp add: on_socket_def)
  from acknowledgedD [OF send this, of n "wire_frame msg2"] obtain st1 u1 where
    u1: "drive fd E c2 n u (ack_bytes msg @ wire_frame msg2) = (Answered (int (length (wire_frame msg)), st1), Suc n, u1, wire_frame msg2, [], None)"
    "frame u u1" by blast
  have "fd_of u1 a = fd" "coarse_clock E"
    using frame_fd [OF u1(2)] \<open>fd_of u a = fd\<close> E by (simp_all add: calm_def)
  from drive_receive [OF this(1) fit this(2), of X st1 "Suc n" "[]"] obtain st2 u2 where
    u2: "drive fd E (receiveNetworkMessage X a st1) (Suc n) u1 (wire_frame msg2) =
      (Answered (int (length (wire_frame msg2)), msg2, st2), Suc (Suc (Suc n)), u2, [], ack_bytes msg2, None)"
    "frame u1 u2" by auto
  define u3 where "u3 = u2\<lparr>mStates := smap_put (mTypeName msg2) (merged X ?remote sl t) (mStates u2)\<rparr>"
  have f: "frame u u2" by (rule frame_trans [OF u1(2) u2(2)])
  then have "ss_wf u2" "smap_find (mStates u2) (mTypeName msg2) = Some t" and fd2: "on_socket fd a u2"
    using wf t fd by (simp_all add: frame_def ss_wf_def on_socket_def)
  note merge = drive_merge [OF this(1) sl(2) this(2), of fd E X peer]
  have fd3: "on_socket fd a u3" "smap_find (mStates u3) (mTypeName msg2) \<noteq> None"
    using fd2 by (simp_all add: u3_def on_socket_def fd_of_def get_afd_def smap_find_put)
  obtain n' err where fin: "drive fd E (co_then (clean_socket a) (co_bind (collectStat X st2) (\<lambda>collected.
      if \<not> collected then Ret False
      else co_bind co_get (\<lambda>s. if isPeer s \<and> merge_changes X ?remote sl t > 0
        then notifyHooks X (mTypeName msg2) else Ret True)))) (Suc (Suc (Suc (Suc (Suc n))))) u3 [] =
    (Answered (\<not> (isPeer u3 \<and> merge_changes X ?remote sl t > 0)), n', drop_managed a fd u3, [], [], err)"
    using drive_finish [OF E X fd3] by blast
  have "merge_changes X ?remote sl t \<noteq> -1" by (simp add: merge_changes_def)
  then have "drive fd E (co_bind c2 (client_reply X a peer)) n u (ack_bytes msg @ wire_frame msg2) =
      (Answered (\<not> (isPeer u3 \<and> merge_changes X ?remote sl t > 0)), n', drop_managed a fd u3, [], ack_bytes msg2, err)"
    using fin
    by (simp add: drive_bind u1 client_reply_def u2 client_end_def sl(1) merge flip: u3_def)
  moreover have "isPeer u3 = isPeer u" "mStates u3 = smap_put (mTypeName msg2) (merged X ?remote sl t) (mStates u)"
    using f by (simp_all add: u3_def frame_def)
  ultimately show ?thesis by (simp add: smap_find_erase)
qed

subsection \<open>The accepting side, phase by phase\<close>

definition server_end :: "'j ext \<Rightarrow> nat \<Rightarrow> string \<Rightarrow> int \<Rightarrow> int \<times> NetworkStats \<Rightarrow> ('j, bool) task" where
  "server_end X pSocket ty changes = (\<lambda>(totalSent, netStats).
     if totalSent = -1 then co_then (clean_socket pSocket) (Ret False)
     else
   co_then (clean_socket pSocket)
   (co_bind (collectStat X netStats) (\<lambda>collected.
     if \<not> collected then Ret False
     else
   co_bind co_get (\<lambda>s.
     if isPeer s \<and> changes > 0 then notifyHooks X ty
     else Ret True))))"

definition server_reply :: "'j ext \<Rightarrow> nat \<Rightarrow>
  (int \<times> NetworkMessage \<times> NetworkStats) \<times> error_condition option \<Rightarrow> ('j, bool) task" where
  "server_reply X pSocket = (\<lambda>((totalReceived, networkMessage, netStats), recvErrc).
     if totalReceived < 0 then co_then (clean_socket pSocket) (Ret False)
     else
   co_bind (co_call SteadyClockNow) (\<lambda>mergeBTP.
   co_bind (merge X (mTypeName networkMessage) (toStateSlice X networkMessage []) (mPeer netStats)) (\<lambda>changes.
     if changes = -1 then co_then (clean_socket pSocket) (Ret False)
     else
   co_bind (co_call SteadyClockNow) (\<lambda>mergeETP.
   co_then (co_update (\<lambda>s. s\<lparr>mStates := smap_touch [] (mTypeName networkMessage) (mStates s)\<rparr>))
   (co_bind co_get (\<lambda>s.
   co_bind (sendNetworkMessage X pSocket (fromStateSlice X
       (case smap_find (mStates s) (mTypeName networkMessage) of None \<Rightarrow> [] | Some t \<Rightarrow> t) networkMessage)
       netStats) (server_end X pSocket (mTypeName networkMessage) changes)))))))"

definition server_talk :: "'j ext \<Rightarrow> nat \<Rightarrow> bool \<times> NetworkStats \<Rightarrow> ('j, bool) task" where
  "server_talk X pSocket = (\<lambda>(shaken, netStats).
     if \<not> shaken then co_then (clean_socket pSocket) (Ret False)
     else co_bind (with_errc (receiveNetworkMessage X pSocket netStats) None) (server_reply X pSocket))"

lemma handleReqSyncConnection_eq:
  "handleReqSyncConnection X pSocket =
     co_bind (or_exit (getPeerAddr pSocket (mPeer NetworkStats_default))) (\<lambda>(_, peer).
     co_bind (serverHandShake X pSocket (NetworkStats_default\<lparr>mPeer := peer\<rparr>)) (server_talk X pSocket))"
  unfolding handleReqSyncConnection_def server_talk_def server_reply_def server_end_def ..

lemma server_phase2:
  assumes E: "calm fd E" and fd: "on_socket fd b s" and peer: "peer = s_addr (e_call E n (SysGetpeername fd))"
  obtains c1 n' s' where "drive fd E (handleReqSyncConnection X b) n s version_bytes =
      (Waiting b (co_bind c1 (server_talk X b)), n', s', [], version_bytes, None)" "frame s s'"
    "server_shaken fd E b peer c1"
proof -
  have fd': "fd_of s b = fd" using fd by (simp add: on_socket_def)
  have "drive fd E (getPeerAddr b (mPeer NetworkStats_default)) n s version_bytes =
      (Answered (True, peer), Suc n, s, version_bytes, [], None)"
    using E fd' peer by (simp add: getPeerAddr_def on_fd_def io_of_def co_simps calm_def)
  note addr = drive_or_exit [OF this]
  from server_shake [OF fd', of E X "NetworkStats_default\<lparr>mPeer := peer\<rparr>" "Suc n"]
  obtain c1 s1 where shake: "drive fd E (serverHandShake X b (NetworkStats_default\<lparr>mPeer := peer\<rparr>)) (Suc n) s version_bytes =
      (Waiting b c1, Suc (Suc n), s1, [], version_bytes, None)" "frame s s1"
    "server_shaken fd E b peer c1"
    unfolding server_shaken_def by fastforce
  show thesis
    by (rule that [OF _ shake(2,3)]) (simp add: handleReqSyncConnection_eq drive_bind addr shake(1))
qed

lemma server_phase4:
  assumes E: "calm fd E" and fd: "on_socket fd b u" and wf: "ss_wf u"
    and t: "smap_find (mStates u) (mTypeName msg) = Some t" and fit: "fits msg"
    and sl: "toStateSlice X msg [] = sl" "smap_wf sl" and v3: "length v3 = 4"
    and new: "t' = merged X (\<not> x_isLoopbackNet X peer) sl t" "msg2 = fromStateSlice X t' msg" "fits msg2"
    and shake: "server_shaken fd E b peer c1"
  obtains c2 n' u' where "drive fd E (co_bind c1 (server_talk X b)) n u (v3 @ wire_frame msg) =
      (Waiting b (co_bind c2 (server_end X b (mTypeName msg) (merge_changes X (\<not> x_isLoopbackNet X peer) sl t))),
       n', u', [], ack_bytes msg @ wire_frame msg2, None)"
    "on_socket fd b u'" "mStates u' = smap_put (mTypeName msg) t' (mStates u)" "isPeer u' = isPeer u"
    "acknowledged fd E b msg2 c2"
proof -
  let ?remote = "\<not> x_isLoopbackNet X peer" and ?ty = "mTypeName msg"
  have clock: "coarse_clock E" using E by (simp add: calm_def)
  have "fd_of u b = fd" using fd by (simp add: on_socket_def)
  from shakenD(2) [OF shake this v3, of n "wire_frame msg"] obtain st1 u1 where
    u1: "drive fd E c1 n u (v3 @ wire_frame msg) = (Answered (True, st1), Suc n, u1, wire_frame msg, [], None)"
    "frame u u1" "mPeer st1 = peer" by blast
  have "fd_of u1 b = fd" using frame_fd [OF u1(2)] \<open>fd_of u b = fd\<close> by simp
  from drive_receive [OF this fit clock, of X st1 "Suc n" "[]"] obtain st2 u2 where
    u2: "drive fd E (receiveNetworkMessage X b st1) (Suc n) u1 (wire_frame msg) =
      (Answered (int (length (wire_frame msg)), msg, st2), Suc (Suc (Suc n)), u2, [], ack_bytes msg, None)"
    "frame u1 u2" "mPeer st2 = peer" using u1(3) by auto
  note recv = drive_with_errc [OF u2(1), of None, simplified]
  define u3 where "u3 = u2\<lparr>mStates := smap_put ?ty t' (mStates u2)\<rparr>"
  have f: "frame u u2" by (rule frame_trans [OF u1(2) u2(2)])
  then have "ss_wf u2" "smap_find (mStates u2) ?ty = Some t" and fd2: "on_socket fd b u2"
    using wf t fd by (simp_all add: frame_def ss_wf_def on_socket_def)
  note merge = drive_merge [OF this(1) sl(2) this(2), of fd E X peer, folded new(1)]
  have u3: "on_socket fd b u3" "fd_of u3 b = fd" "smap_find (mStates u3) ?ty = Some t'"
    using fd2 by (simp_all add: u3_def on_socket_def fd_of_def get_afd_def smap_find_put)
  have touch: "u3\<lparr>mStates := smap_touch [] ?ty (mStates u3)\<rparr> = u3"
    using u3(3) by (simp add: smap_touch_def smap_emplace_def)
  let ?n = "Suc (Suc (Suc (Suc (Suc n))))"
  from drive_send_message [OF u3(2) new(3) clock, of X st2 ?n] obtain c2 u4 where
    u4: "drive fd E (sendNetworkMessage X b msg2 st2) ?n u3 [] = (Waiting b c2, Suc ?n, u4, [], wire_frame msg2, None)"
    "frame u3 u4" "acknowledged fd E b msg2 c2"
    unfolding acknowledged_def by blast
  have "merge_changes X ?remote sl t \<noteq> -1" by (simp add: merge_changes_def)
  then have "drive fd E (co_bind c1 (server_talk X b)) n u (v3 @ wire_frame msg) =
      (Waiting b (co_bind c2 (server_end X b ?ty (merge_changes X ?remote sl t))),
       Suc ?n, u4, [], ack_bytes msg @ wire_frame msg2, None)"
    using u4(1) touch u3(3)
    by (simp add: drive_bind u1 server_talk_def recv server_reply_def sl(1) u2(3) merge co_update_def
        drive_then_co co_get_def flip: u3_def new(2))
  then show thesis
    by (rule that [OF _ _ _ _ u4(3)])
      (use u4(2) u3(1) f in \<open>simp_all add: on_socket_def frame_def u3_def\<close>)
qed

lemma server_phase6:
  assumes E: "calm fd E" and X: "\<not> x_stat_file_locking X" and fd: "on_socket fd b u"
    and ty: "smap_find (mStates u) ty \<noteq> None"
    and send: "acknowledged fd E b msg2 c2"
  shows "\<exists>n' u' err. drive fd E (co_bind c2 (server_end X b ty changes)) n u (ack_bytes msg2) =
      (Answered (\<not> (isPeer u \<and> changes > 0)), n', u', [], [], err) \<and>
    mStates u' = mStates u \<and> smap_find (mManagedFD (mIoContext u')) fd = None"
proof -
  have "fd_of u b = fd" using fd by (simp add: on_socket_def)
  from acknowledgedD [OF send this, of n "[]"] obtain st1 u1 where
    u1: "drive fd E c2 n u (ack_bytes msg2) = (Answered (int (length (wire_frame msg2)), st1), Suc n, u1, [], [], None)" "frame u u1" by auto
  have u1': "on_socket fd b u1" "smap_find (mStates u1) ty \<noteq> None"
    using u1(2) fd ty by (simp_all add: on_socket_def frame_def)
  obtain n' err where "drive fd E (co_then (clean_socket b) (co_bind (collectStat X st1) (\<lambda>collected.
      if \<not> collected then Ret False
      else co_bind co_get (\<lambda>s. if isPeer s \<and> changes > 0 then notifyHooks X ty else Ret True)))) (Suc n) u1 [] =
    (Answered (\<not> (isPeer u1 \<and> changes > 0)), n', drop_managed b fd u1, [], [], err)"
    using drive_finish [OF E X u1'] by blast
  then have "drive fd E (co_bind c2 (server_end X b ty changes)) n u (ack_bytes msg2) =
      (Answered (\<not> (isPeer u \<and> changes > 0)), n', drop_managed b fd u1, [], [], err)"
    using u1 by (simp add: drive_bind server_end_def frame_def)
  then show ?thesis using u1(2) by (simp add: frame_def smap_find_erase)
qed

subsection \<open>Two hosts\<close>

text \<open>The same program on another machine: other byte order, other host name.\<close>

definition on_host :: "bool \<Rightarrow> string \<Rightarrow> 'j ext \<Rightarrow> 'j ext" where
  "on_host le host X = X\<lparr>x_little_endian := le, x_hostname_file := host\<rparr>"

lemma serial_on_host [simp]:
  "StateEntry_serial_process (on_host le h X) = StateEntry_serial_process X"
  by (simp add: fun_eq_iff StateEntry_serial_process_def on_host_def)

lemma on_host_simps [simp]:
  "fromStateSlice (on_host le h X) = fromStateSlice X" "toStateSlice (on_host le h X) = toStateSlice X"
  "x_isLoopbackNet (on_host le h X) = x_isLoopbackNet X" "x_isValidNet (on_host le h X) = x_isValidNet X"
  "x_ipv4_to_ipv6 (on_host le h X) = x_ipv4_to_ipv6 X"
  "x_stat_file_locking (on_host le h X) = x_stat_file_locking X"
  by (simp_all add: fun_eq_iff fromStateSlice_def toStateSlice_def)
    (simp_all add: on_host_def)

lemma fromStateSlice_name [simp]: "mTypeName (fromStateSlice X t msg) = mTypeName msg"
  by (simp add: fromStateSlice_def split: prod.split)

lemma fromStateSlice_again: "fromStateSlice X t (fromStateSlice X t' msg) = fromStateSlice X t msg"
  by (simp add: fromStateSlice_def split: prod.split)

subsection \<open>The talk\<close>

text \<open>
  From the handshake on, both sides waiting for each other: two alternations end the session.
\<close>

lemma pump_talk:
  assumes envs: "calm fc Ec" "calm fs Es" and X: "\<not> x_stat_file_locking Xc" "\<not> x_stat_file_locking Xs"
    and u: "on_socket fc a u" "ss_wf u" "smap_find (mStates u) ty = Some tc"
    and shake: "client_shaken fc Ec a peer c1"
    and w: "on_socket fs b w" "ss_wf w" "smap_find (mStates w) ty = Some ts"
    and shake': "server_shaken fs Es b remote d1"
    and msg: "msg = fromStateSlice Xc tc \<lparr>mTypeName = ty, mMsgData = []\<rparr>" "msg2 = fromStateSlice Xs ts' msg"
      "fits msg" "fits msg2"
    and sl: "toStateSlice Xs msg [] = tc" "smap_wf tc" "toStateSlice Xc msg2 [] = ts'" "smap_wf ts'"
    and ts': "ts' = merged Xs (\<not> x_isLoopbackNet Xs remote) tc ts"
  shows "\<exists>nc' u' ns' w'. pump 2 fc Ec fs Es (Waiting a (co_bind c1 (client_talk Xc a ty peer)), nc, u)
      (Waiting b (co_bind d1 (server_talk Xs b)), ns, w) version_bytes [] =
      ((Answered (\<not> (isPeer u \<and> merge_changes Xc (\<not> x_isLoopbackNet Xc peer) ts' tc > 0)), nc', u'),
       (Answered (\<not> (isPeer w \<and> merge_changes Xs (\<not> x_isLoopbackNet Xs remote) tc ts > 0)), ns', w'),
       [], []) \<and>
    mStates u' = smap_put ty (merged Xc (\<not> x_isLoopbackNet Xc peer) ts' tc) (mStates u) \<and>
    mStates w' = smap_put ty ts' (mStates w) \<and>
    smap_find (mManagedFD (mIoContext u')) fc = None \<and> smap_find (mManagedFD (mIoContext w')) fs = None"
proof -
  let ?u1 = "pop_pending_op a u" and ?w1 = "pop_pending_op b w"
  have names: "mTypeName msg = ty" "mTypeName msg2 = ty" by (simp_all add: msg)
  have U1: "on_socket fc a ?u1" "smap_find (mStates ?u1) ty = Some tc"
    using u frame_pop [of u a] by (simp_all add: on_socket_def frame_def)
  obtain c2 nc2 u2 v3 where p3: "drive fc Ec (co_bind c1 (client_talk Xc a ty peer)) nc ?u1 version_bytes =
      (Waiting a (co_bind c2 (client_reply Xc a peer)), nc2, u2, [], v3 @ wire_frame msg, None)"
    and u2: "frame ?u1 u2" and v3: "length v3 = 4" and send: "acknowledged fc Ec a msg c2"
    by (rule client_phase3 [OF envs(1) U1 msg(1,3) shake, of nc]) blast+
  have W1: "on_socket fs b ?w1" "ss_wf ?w1" "smap_find (mStates ?w1) (mTypeName msg) = Some ts"
    using w frame_pop [of w b] by (simp_all add: on_socket_def frame_def ss_wf_def names)
  obtain d2 ns2 w2 where p4: "drive fs Es (co_bind d1 (server_talk Xs b)) ns ?w1 (v3 @ wire_frame msg) =
      (Waiting b (co_bind d2 (server_end Xs b (mTypeName msg) (merge_changes Xs (\<not> x_isLoopbackNet Xs remote) tc ts))),
       ns2, w2, [], ack_bytes msg @ wire_frame msg2, None)"
    and w2: "on_socket fs b w2" "mStates w2 = smap_put (mTypeName msg) ts' (mStates ?w1)" "isPeer w2 = isPeer ?w1"
    and send': "acknowledged fs Es b msg2 d2"
    by (rule server_phase4 [OF envs(2) W1 msg(3) sl(1,2) v3 ts' msg(2,4) shake', of ns]) blast+
  let ?u2 = "pop_pending_op a u2" and ?w2 = "pop_pending_op b w2"
  have f: "frame u ?u2" by (rule frame_trans [OF frame_pop frame_trans [OF u2 frame_pop]])
  then have U2: "on_socket fc a ?u2" "ss_wf ?u2" "smap_find (mStates ?u2) (mTypeName msg2) = Some tc"
    using u by (simp_all add: on_socket_def frame_def ss_wf_def names)
  note p5 = client_phase5 [OF envs(1) X(1) U2 msg(4) sl(3,4) send, of peer nc2]
  have W2: "on_socket fs b ?w2" "smap_find (mStates ?w2) (mTypeName msg) \<noteq> None"
    using w2 frame_pop [of w2 b] by (simp_all add: on_socket_def frame_def smap_find_put)
  note p6 = server_phase6 [OF envs(2) X(2) W2 send', of
      "merge_changes Xs (\<not> x_isLoopbackNet Xs remote) tc ts" ns2]
  have "isPeer ?u2 = isPeer u" "isPeer ?w2 = isPeer w" "mStates ?u2 = mStates u"
    "mStates ?w2 = smap_put ty ts' (mStates w)"
    using f w2 frame_pop [of w2 b] frame_pop [of w b] by (simp_all add: frame_def names)
  then show ?thesis
    using p5 p6 by (auto simp: numeral_2_eq_2 resume_side_def p3 p4 names)
qed

subsection \<open>Properties\<close>

text \<open>
  C1. A whole session between two processes that know the data type, on hosts of whatever byte
  order, over a connection that delivers all bytes and with messages within the size limits: the
  program of the connecting side and the program of the accepting side both run to their end,
  with no byte left over. The accepting side then holds the merge of its state with what the
  other side had, the connecting side the merge of its state with that; all other types are
  untouched, and both sockets are closed and forgotten. Each side reports success, except that a
  daemon whose state changed reports failure because it has no hooks installed for the type.
\<close>

theorem sync_session:
  assumes lib: "serializer X enc_string enc_int64 enc_uint32 enc_json enc_slice enc_confs"
      "\<not> x_stat_file_locking X"
    and hosts: "Xc = on_host lc hc X" "Xs = on_host ls hs X"
    and wf: "ss_wf c0" "ss_wf s0"
    and types: "smap_find (mStates c0) ty = Some tc" "smap_find (mStates s0) ty = Some ts"
    and addr: "x_isValidNet X peer" "fst (x_ipv4_to_ipv6 X peer)"
    and envs: "calm fc Ec" "calm fs Es" and sock: "on_socket fs b s0"
    and remote: "remote = s_addr (e_call Es 0 (SysGetpeername fs))"
    and merges: "ts' = merged Xs (\<not> x_isLoopbackNet X remote) tc ts"
      "tc' = merged Xc (\<not> x_isLoopbackNet X peer) ts' tc"
    and sizes: "fits (fromStateSlice X tc \<lparr>mTypeName = ty, mMsgData = []\<rparr>)"
      "fits (fromStateSlice X ts' \<lparr>mTypeName = ty, mMsgData = []\<rparr>)"
  shows "\<exists>nc c1 ns s1.
    session 2 fc Ec fs Es (syncWithPeer Xc ty peer) c0 (handleReqSyncConnection Xs b) s0 =
      ((Answered (\<not> (isPeer c0 \<and> merge_changes Xc (\<not> x_isLoopbackNet X peer) ts' tc > 0)), nc, c1),
       (Answered (\<not> (isPeer s0 \<and> merge_changes Xs (\<not> x_isLoopbackNet X remote) tc ts > 0)), ns, s1),
       [], []) \<and>
    mStates c1 = smap_put ty tc' (mStates c0) \<and> mStates s1 = smap_put ty ts' (mStates s0) \<and>
    smap_find (mManagedFD (mIoContext c1)) fc = None \<and> smap_find (mManagedFD (mIoContext s1)) fs = None"
proof -
  define msg where "msg = fromStateSlice Xc tc \<lparr>mTypeName = ty, mMsgData = []\<rparr>"
  define msg2 where "msg2 = fromStateSlice Xs ts' msg"
  have name: "mTypeName msg = ty" by (simp add: msg_def)
  have fit: "fits msg" "fits msg2"
    using sizes by (simp_all add: msg_def msg2_def hosts fromStateSlice_again)
  have wf_sl: "smap_wf tc" "smap_wf ts" "smap_wf ts'"
    using wf types by (auto simp: merges merged_wf ss_wf_state)
  have slices: "toStateSlice Xs msg [] = tc" "toStateSlice Xc msg2 [] = ts'"
    using serializer.slice_roundtrip [OF lib(1)] wf_sl by (simp_all add: hosts msg_def msg2_def)
  have ext: "x_isValidNet Xc peer" "fst (x_ipv4_to_ipv6 Xc peer)" "\<not> x_stat_file_locking Xc"
    "\<not> x_stat_file_locking Xs"
    using addr lib(2) by (simp_all add: hosts)
  obtain a c1 nc1 u where p1: "drive fc Ec (syncWithPeer Xc ty peer) 0 c0 [] =
      (Waiting a (co_bind c1 (client_talk Xc a ty peer)), nc1, u, [], version_bytes, None)"
    and u: "on_socket fc a u" "mStates u = mStates c0" "mTypeConf u = mTypeConf c0" "isPeer u = isPeer c0"
    and shake: "client_shaken fc Ec a peer c1"
    by (rule client_phase1 [OF envs(1) ext(1,2) types(1), of 0]) blast
  obtain d1 ns1 w where p2: "drive fs Es (handleReqSyncConnection Xs b) 0 s0 version_bytes =
      (Waiting b (co_bind d1 (server_talk Xs b)), ns1, w, [], version_bytes, None)" and w: "frame s0 w"
    and shake': "server_shaken fs Es b remote d1"
    by (rule server_phase2 [OF envs(2) sock remote, of Xs]) blast
  have U: "ss_wf u" "smap_find (mStates u) ty = Some tc"
    using u wf(1) types(1) by (simp_all add: ss_wf_def)
  have W: "on_socket fs b w" "ss_wf w" "smap_find (mStates w) ty = Some ts"
    using w wf(2) types(2) sock by (simp_all add: on_socket_def frame_def ss_wf_def)
  have ts': "ts' = merged Xs (\<not> x_isLoopbackNet Xs remote) tc ts" by (simp add: merges hosts)
  show ?thesis
    using pump_talk [OF envs ext(3,4) u(1) U shake W shake' msg_def msg2_def fit slices(1) wf_sl(1)
        slices(2) wf_sl(3) ts', of nc1 ns1] u w
    by (simp add: session_def p1 p2 frame_def merges(2)) (simp add: hosts merges)
qed

subsection \<open>Witnesses\<close>

definition demo_peer_env :: "int \<Rightarrow> 's env" where
  "demo_peer_env fd = \<lparr>e_call = (\<lambda>_ q. case q of
       SysSocket \<Rightarrow> sys_value fd
     | SysGetpeername _ \<Rightarrow> (sys_value 0)\<lparr>s_addr := ipv4 10 0 0 1\<rparr>
     | _ \<Rightarrow> sys_value 0), e_interfere = (\<lambda>_ s. s)\<rparr>"

definition demo_server :: "json state_slice \<Rightarrow> json process" where
  "demo_server t = (demo_process t)\<lparr>mIoContext := \<lparr>mEpollFD = 3, mManagedFD = [(7, 0)],
     aheap = [0 \<mapsto> afd_new 7], next_address = 1\<rparr>\<rparr>"

lemma demo_calm: "0 \<le> fd \<Longrightarrow> calm fd (demo_peer_env fd)"
  by (simp add: calm_def demo_peer_env_def coarse_clock_def sys_value_def)

abbreviation "demo_one \<equiv> [(''k'', demo_entry ''a'' 5 1)]"

lemma demo_one_merged: "merged X remote demo_one [] = demo_one" "merged X remote demo_one demo_one = demo_one"
  by (simp_all add: merged_def merge_loop_def merge_one_def smap_find_def smap_emplace_def
      smap_erase_def Let_def)

lemma demo_one_fits:
  "fits (fromStateSlice (ref_ext ''z'') demo_one \<lparr>mTypeName = ''T'', mMsgData = []\<rparr>)"
  by (simp add: fits_def fromStateSlice_def ref_ext_def ref_map_def StateEntry_serial_process_def
      ref_member_def ref_ctx_def json_add_def enc_map_def enc_xint64_def demo_entry_def show_str_def
      escape_def show_int_def show_nat.simps DATA_TYPE_NAME_MAX_LENGHT_def DATA_MAX_LENGHT_def)

theorem sync_session_witness:
  "\<exists>nc c1 ns s1.
    session 2 5 (demo_peer_env 5) 7 (demo_peer_env 7)
      (syncWithPeer (on_host True ''a'' (ref_ext ''z'')) ''T'' (ipv4 10 0 0 2)) ((demo_process demo_one)\<lparr>isPeer := False\<rparr>)
      (handleReqSyncConnection (on_host False ''b'' (ref_ext ''z'')) 0) (demo_server []) =
      ((Answered True, nc, c1), (Answered False, ns, s1), [], []) \<and>
    smap_find (mStates s1) ''T'' = Some demo_one \<and> smap_find (mManagedFD (mIoContext s1)) 7 = None"
proof -
  let ?c0 = "(demo_process demo_one)\<lparr>isPeer := False\<rparr>"
  have wf: "ss_wf ?c0" "ss_wf (demo_server [])"
    by (auto simp: ss_wf_def demo_process_def demo_server_def smap_wf_def smap_find_def)
  have find: "smap_find (mStates ?c0) ''T'' = Some demo_one" "smap_find (mStates (demo_server [])) ''T'' = Some []"
    by (simp_all add: demo_process_def demo_server_def smap_find_def)
  have net: "x_isValidNet (ref_ext ''z'') (ipv4 10 0 0 2)" "fst (x_ipv4_to_ipv6 (ref_ext ''z'') (ipv4 10 0 0 2))"
    "\<not> x_stat_file_locking (ref_ext ''z'')"
    by (simp_all add: ref_ext_def ref_to_ipv6_def ipv4_def)
  have sock: "on_socket 7 0 (demo_server [])"
    by (simp add: on_socket_def demo_server_def fd_of_def get_afd_def afd_new_def smap_find_def)
  have changes: "merge_changes X remote demo_one [] = 1" for X :: "json ext" and remote
    by (simp add: merge_changes_def significant_def)
  have peers: "isPeer (demo_server [])" by (simp add: demo_server_def demo_process_def)
  show ?thesis
    using sync_session [OF ref.serializer_axioms [of "''z''"] net(3) refl refl wf find net(1,2)
        demo_calm demo_calm sock refl refl refl, of 5 False "''b''" True "''a''"]
    by (simp add: demo_one_merged demo_one_fits changes peers) (auto simp: smap_find_put)
qed

end
