(* ===== verification/Task.thy ===== *)
theory Task
  imports Scheduler
begin

text \<open>
  The machinery of \<open>std::task\<close> (\<open>include/task.hh\<close>): coroutine frames with their promises, the
  handle a task object holds, \<open>co_await\<close> of a task through \<open>await_suspend\<close> and \<open>await_resume\<close>,
  the final suspension that resumes the waiter or destroys the frame, and the destructor of the
  task object. Every \<open>resume()\<close> is a call on the native stack of the one thread: awaiting a task
  and resuming a waiter nest, and only when a coroutine suspends do the calls return, the innermost
  first, down to the event loop. The other theories run coroutines as trees and compose them with
  \<open>co_bind\<close>; here the frames are shown to implement exactly that: the frame machine refines \<open>advance\<close>.
\<close>

subsection \<open>Frames\<close>

text \<open>
  The body of a coroutine from a resumption point on: it returns, is left by an exception, awaits
  another task, waits for an event on an object (an awaitable system call that was told to wait),
  computes, calls the environment, or ends the process. The value of \<open>CoThrow\<close> is what the member
  \<open>result\<close> of the promise holds while nothing has been assigned to it: the default of a class type,
  anything for a scalar. All tasks of one machine share the value type.
\<close>

datatype ('s, 'v) body =
    CoReturn 'v
  | CoThrow 'v
  | CoAwait "('s, 'v) body" "'v \<Rightarrow> ('s, 'v) body"
  | CoBlock nat "('s, 'v) body"
  | CoAct "'s \<Rightarrow> 's" "'s \<Rightarrow> ('s, 'v) body"
  | CoCall syscall "sysret \<Rightarrow> ('s, 'v) body"
  | CoHalt halt

text \<open>
  Where a suspended frame continues: in its body, after the task it awaits (the handle is that
  of the temporary task object in the full expression), or nowhere any more.
\<close>

datatype ('s, 'v) point = At "('s, 'v) body" | Awaiting nat "'v \<Rightarrow> ('s, 'v) body" | FinalSuspend

record ('s, 'v) frame =
  f_point :: "('s, 'v) point"
  waiter :: "nat option"
  p_result :: "'v option"

text \<open>
  What the thread does: run a frame; return through the active \<open>resume()\<close> calls after a coroutine
  suspended on an object or after the last one was destroyed; or be back in the event loop with one
  of the two.
\<close>

datatype control =
    Running nat
  | Unwinding "(nat \<times> nat) option"
  | Blocked nat nat
  | Returned
  | Stuck halt

text \<open>
  The native stack \<open>t_native\<close> holds the handle of every \<open>resume()\<close> call that has not returned, the
  innermost first. The standard counts a coroutine whose \<open>await_suspend\<close> is running as suspended, so
  its frame may be destroyed there although its \<open>resume()\<close> is still active; what the compiled code
  touches on its way back through such a call is not modelled, but \<open>t_ghosts\<close> records each of them.
\<close>

record ('s, 'v) tasks =
  t_control :: control
  t_frames :: "nat \<Rightarrow> ('s, 'v) frame option"
  t_next :: nat
  t_calls :: nat
  t_state :: 's
  t_native :: "nat list"
  t_ghosts :: "nat list"

subsection \<open>The members of \<open>task\<close> and its promise\<close>

text \<open>\<open>get_return_object\<close> and \<open>initial_suspend\<close>: a new frame, suspended before its body.\<close>

definition get_return_object ::
  "('s, 'v) body \<Rightarrow> ('s, 'v) tasks \<Rightarrow> nat \<times> ('s, 'v) tasks" where
  "get_return_object b m = (t_next m, m\<lparr>
     t_frames := (t_frames m)(t_next m \<mapsto> \<lparr>f_point = At b, waiter = None, p_result = None\<rparr>),
     t_next := Suc (t_next m)\<rparr>)"

definition set_frame ::
  "nat \<Rightarrow> (('s, 'v) frame \<Rightarrow> ('s, 'v) frame) \<Rightarrow> ('s, 'v) tasks \<Rightarrow> ('s, 'v) tasks" where
  "set_frame h f m = m\<lparr>t_frames := (t_frames m)(h := map_option f (t_frames m h))\<rparr>"

definition destroy :: "nat \<Rightarrow> ('s, 'v) tasks \<Rightarrow> ('s, 'v) tasks" where
  "destroy h m = m\<lparr>t_frames := (t_frames m)(h := None)\<rparr>"

text \<open>A call of \<open>resume()\<close>, on top of those that are active.\<close>

definition handle_resume :: "nat \<Rightarrow> ('s, 'v) tasks \<Rightarrow> ('s, 'v) tasks" where
  "handle_resume h m = m\<lparr>t_control := Running h, t_native := h # t_native m\<rparr>"

text \<open>\<open>task::await_suspend\<close>: remember who waits, then call the awaited coroutine.\<close>

definition task_await_suspend :: "nat \<Rightarrow> nat \<Rightarrow> ('s, 'v) tasks \<Rightarrow> ('s, 'v) tasks" where
  "task_await_suspend me w m = handle_resume me (set_frame me (\<lambda>f. f\<lparr>waiter := Some w\<rparr>) m)"

text \<open>\<open>final_awaiter::await_suspend\<close>: call the waiter, or free a frame nobody waits for and return.\<close>

definition final_await_suspend :: "nat \<Rightarrow> ('s, 'v) tasks \<Rightarrow> ('s, 'v) tasks" where
  "final_await_suspend me m = (case t_frames m me of
     None \<Rightarrow> m\<lparr>t_control := Stuck (Trapped DanglingReference)\<rparr>
   | Some f \<Rightarrow> (case waiter f of
       Some w \<Rightarrow> handle_resume w m
     | None \<Rightarrow> (destroy me m)\<lparr>t_control := Unwinding None\<rparr>))"

definition return_value :: "nat \<Rightarrow> 'v \<Rightarrow> ('s, 'v) tasks \<Rightarrow> ('s, 'v) tasks" where
  "return_value me v m =
     final_await_suspend me (set_frame me (\<lambda>f. f\<lparr>f_point := FinalSuspend, p_result := Some v\<rparr>) m)"

text \<open>\<open>unhandled_exception\<close> drops the exception: the coroutine ends with its result never assigned.\<close>

definition unhandled_exception :: "nat \<Rightarrow> 'v \<Rightarrow> ('s, 'v) tasks \<Rightarrow> ('s, 'v) tasks" where
  "unhandled_exception me garbage m =
     final_await_suspend me (set_frame me (\<lambda>f. f\<lparr>f_point := FinalSuspend, p_result := Some garbage\<rparr>) m)"

text \<open>\<open>~task\<close>: a finished coroutine is destroyed, an unfinished one is left alone. A handle whose
  frame is gone must not be asked whether it is done.\<close>

definition task_destructor :: "nat \<Rightarrow> ('s, 'v) tasks \<Rightarrow> ('s, 'v) tasks" where
  "task_destructor h m = (case t_frames m h of
     None \<Rightarrow> m\<lparr>t_control := Stuck (Trapped DanglingReference)\<rparr>
   | Some f \<Rightarrow> (case f_point f of FinalSuspend \<Rightarrow> destroy h m | _ \<Rightarrow> m))"

text \<open>\<open>task::await_resume\<close>: the result stored in the promise; before \<open>return_value\<close> there is none.\<close>

definition task_await_resume :: "nat \<Rightarrow> ('s, 'v) tasks \<Rightarrow> 'v option" where
  "task_await_resume h m = Option.bind (t_frames m h) p_result"

subsection \<open>The machine\<close>

text \<open>What the thread does next in the frame it is running.\<close>

definition body_step ::
  "'s env \<Rightarrow> nat \<Rightarrow> ('s, 'v) body \<Rightarrow> ('s, 'v) tasks \<Rightarrow> ('s, 'v) tasks" where
  "body_step E h b m = (case b of
     CoReturn v \<Rightarrow> return_value h v m
   | CoThrow v \<Rightarrow> unhandled_exception h v m
   | CoAwait c k \<Rightarrow>
       (case get_return_object c m of (child, m1) \<Rightarrow>
          task_await_suspend child h (set_frame h (\<lambda>f. f\<lparr>f_point := Awaiting child k\<rparr>) m1))
   | CoBlock a c \<Rightarrow> (set_frame h (\<lambda>f. f\<lparr>f_point := At c\<rparr>) m)\<lparr>t_control := Unwinding (Some (a, h))\<rparr>
   | CoAct u k \<Rightarrow>
       (set_frame h (\<lambda>f. f\<lparr>f_point := At (k (t_state m))\<rparr>) m)\<lparr>t_state := u (t_state m)\<rparr>
   | CoCall q k \<Rightarrow>
       (set_frame h (\<lambda>f. f\<lparr>f_point := At (k (e_call E (t_calls m) q))\<rparr>) m)\<lparr>t_calls := Suc (t_calls m)\<rparr>
   | CoHalt e \<Rightarrow> m\<lparr>t_control := Stuck e\<rparr>)"

text \<open>The innermost active \<open>resume()\<close> returns; when none is left the thread is in the event loop.\<close>

definition loop_control :: "(nat \<times> nat) option \<Rightarrow> control" where
  "loop_control x = (case x of None \<Rightarrow> Returned | Some (a, h) \<Rightarrow> Blocked a h)"

definition resume_returns :: "(nat \<times> nat) option \<Rightarrow> ('s, 'v) tasks \<Rightarrow> ('s, 'v) tasks" where
  "resume_returns x m = (case t_native m of
     [] \<Rightarrow> m\<lparr>t_control := loop_control x\<rparr>
   | g # gs \<Rightarrow> m\<lparr>t_native := gs, t_ghosts := t_ghosts m @ (if t_frames m g = None then [g] else [])\<rparr>)"

definition task_step :: "'s env \<Rightarrow> ('s, 'v) tasks \<Rightarrow> ('s, 'v) tasks" where
  "task_step E m = (case t_control m of
     Running h \<Rightarrow> (case t_frames m h of
       None \<Rightarrow> m\<lparr>t_control := Stuck (Trapped DanglingReference)\<rparr>
     | Some f \<Rightarrow> (case f_point f of
         At b \<Rightarrow> body_step E h b m
       | Awaiting child k \<Rightarrow> (case task_await_resume child m of
           None \<Rightarrow> m\<lparr>t_control := Stuck (Trapped DanglingReference)\<rparr>
         | Some v \<Rightarrow> task_destructor child (set_frame h (\<lambda>f. f\<lparr>f_point := At (k v)\<rparr>) m))
       | FinalSuspend \<Rightarrow> m\<lparr>t_control := Stuck (Trapped DanglingReference)\<rparr>))
   | Unwinding x \<Rightarrow> resume_returns x m
   | _ \<Rightarrow> m)"

definition task_steps :: "'s env \<Rightarrow> nat \<Rightarrow> ('s, 'v) tasks \<Rightarrow> ('s, 'v) tasks" where
  "task_steps E j = (task_step E ^^ j)"

subsection \<open>Stacks of frames\<close>

text \<open>The tree a body stands for: to whoever awaits it, an exception is a return of a value nobody chose.\<close>

primrec tree :: "('s, 'v) body \<Rightarrow> ('s, 'v) co" where
  "tree (CoReturn v) = Ret v"
| "tree (CoThrow v) = Ret v"
| "tree (CoAwait b k) = co_bind (tree b) (\<lambda>v. tree (k v))"
| "tree (CoBlock a b) = Suspend a (tree b)"
| "tree (CoAct u k) = Act u (\<lambda>s. tree (k s))"
| "tree (CoCall q k) = Call q (\<lambda>r. tree (k r))"
| "tree (CoHalt e) = Halt e"

text \<open>
  Frames waiting for one another, the innermost first: each but the last is awaited by the next,
  and nobody waits for the last. What remains to be done after the first returns.
\<close>

fun linked :: "(nat \<Rightarrow> ('s, 'v) frame option) \<Rightarrow> nat list \<Rightarrow> bool" where
  "linked F [] = False"
| "linked F [h] = (\<exists>f. F h = Some f \<and> waiter f = None)"
| "linked F (h # w # hs) = ((\<exists>f. F h = Some f \<and> waiter f = Some w) \<and>
     (\<exists>g k. F w = Some g \<and> f_point g = Awaiting h k) \<and> linked F (w # hs))"

fun conts :: "(nat \<Rightarrow> ('s, 'v) frame option) \<Rightarrow> nat list \<Rightarrow> 'v \<Rightarrow> ('s, 'v) co" where
  "conts F (h # w # hs) v = (case map_option f_point (F w) of
     Some (Awaiting c k) \<Rightarrow> co_bind (tree (k v)) (conts F (w # hs))
   | _ \<Rightarrow> Ret v)"
| "conts F hs v = Ret v"

definition stacked :: "('s, 'v) tasks \<Rightarrow> nat list \<Rightarrow> bool" where
  "stacked m hs \<longleftrightarrow> linked (t_frames m) hs \<and> distinct hs \<and> (\<forall>h \<ge> t_next m. t_frames m h = None)"

text \<open>
  A stack whose innermost frame can be resumed, with the tree \<open>c\<close> to do; and a machine that
  returned to the event loop, no \<open>resume()\<close> active, with such a stack waiting on object \<open>a\<close>.
\<close>

definition resumable :: "('s, 'v) tasks \<Rightarrow> nat list \<Rightarrow> ('s, 'v) co \<Rightarrow> bool" where
  "resumable m hs c \<longleftrightarrow> stacked m hs \<and>
     (\<exists>f b. t_frames m (hd hs) = Some f \<and> f_point f = At b \<and>
       c = co_bind (tree b) (conts (t_frames m) hs))"

definition suspended_as :: "('s, 'v) tasks \<Rightarrow> nat \<Rightarrow> nat list \<Rightarrow> ('s, 'v) co \<Rightarrow> bool" where
  "suspended_as m a hs c \<longleftrightarrow> resumable m hs c \<and> t_control m = Blocked a (hd hs) \<and> t_native m = []"

text \<open>The frames of the other coroutines stay as they are.\<close>

definition others_same :: "('s, 'v) tasks \<Rightarrow> nat list \<Rightarrow> ('s, 'v) tasks \<Rightarrow> bool" where
  "others_same m hs m' \<longleftrightarrow> (\<forall>g < t_next m. g \<notin> set hs \<longrightarrow> t_frames m' g = t_frames m g)"

lemma conts_root [simp]: "conts F [h] = Ret"
  by (simp add: fun_eq_iff)

lemma conts_cong: "(\<And>g. g \<in> set hs \<Longrightarrow> F' g = F g) \<Longrightarrow> conts F' (h # hs) = conts F (h # hs)"
proof (induction hs arbitrary: h)
  case (Cons w hs)
  then have "conts F' (w # hs) = conts F (w # hs)" "F' w = F w" by auto
  then show ?case by (intro ext) (simp split: option.split point.split)
qed (simp add: fun_eq_iff)

lemma linked_cong:
  "linked F (h # hs) \<Longrightarrow> (\<And>g. g \<in> set hs \<Longrightarrow> F' g = F g) \<Longrightarrow>
   map_option waiter (F' h) = map_option waiter (F h) \<Longrightarrow> linked F' (h # hs)"
proof (induction hs arbitrary: h)
  case (Cons w hs)
  then have "linked F' (w # hs)" by simp
  with Cons.prems show ?case by auto
qed auto

lemma linked_alloc: "linked F hs \<Longrightarrow> g \<in> set hs \<Longrightarrow> F g \<noteq> None"
  by (induction F hs rule: linked.induct) auto

lemma stacked_alloc: "stacked m hs \<Longrightarrow> g \<in> set hs \<Longrightarrow> g < t_next m"
  unfolding stacked_def using linked_alloc leI by blast

definition reaches :: "'s env \<Rightarrow> ('s, 'v) tasks \<Rightarrow> ('s, 'v) tasks \<Rightarrow> bool" where
  "reaches E m m' \<longleftrightarrow> (\<exists>j. task_steps E j m = m')"

lemma reaches_refl [simp]: "reaches E m m"
  unfolding reaches_def task_steps_def by (rule exI [of _ 0]) simp

lemma reaches_step: "reaches E (task_step E m) m' \<Longrightarrow> reaches E m m'"
  unfolding reaches_def task_steps_def by (metis funpow_Suc_right comp_apply)

lemma reaches_one: "task_step E m = m' \<Longrightarrow> reaches E m m'"
  by (rule reaches_step) simp

lemma reaches_trans: "reaches E m m' \<Longrightarrow> reaches E m' m'' \<Longrightarrow> reaches E m m''"
  unfolding reaches_def task_steps_def by (metis funpow_add comp_apply)

lemmas task_defs = task_step_def body_step_def set_frame_def destroy_def handle_resume_def
  get_return_object_def task_await_suspend_def final_await_suspend_def return_value_def
  unhandled_exception_def resume_returns_def task_destructor_def task_await_resume_def

text \<open>The native stack unwinds to the event loop.\<close>

lemma unwinds:
  assumes "t_control m = Unwinding x"
  shows "reaches E m (m\<lparr>t_control := loop_control x, t_native := [],
    t_ghosts := t_ghosts m @ filter (\<lambda>g. t_frames m g = None) (t_native m)\<rparr>)"
  using assms
proof (induction "t_native m" arbitrary: m)
  case Nil
  then show ?case by (intro reaches_one) (simp add: task_defs)
next
  case (Cons g gs)
  let ?m = "m\<lparr>t_native := gs, t_ghosts := t_ghosts m @ (if t_frames m g = None then [g] else [])\<rparr>"
  have step: "task_step E m = ?m" using Cons.prems Cons.hyps(2) [symmetric] by (simp add: task_defs)
  have "reaches E ?m (?m\<lparr>t_control := loop_control x, t_native := [],
      t_ghosts := t_ghosts ?m @ filter (\<lambda>g. t_frames ?m g = None) (t_native ?m)\<rparr>)"
    by (rule Cons.hyps(1)) (simp_all add: Cons.prems)
  then show ?case
    using Cons.hyps(2) [symmetric] reaches_step [of E m] by (cases "t_frames m g") (simp_all add: step)
qed

subsection \<open>One frame\<close>

text \<open>
  Where the machine gets from frame \<open>h\<close>, on top of the frames \<open>hs\<close>, when the tree of its body
  runs as \<open>r\<close> says: to the end of the body of the same frame with every other frame as it was, and
  some more \<open>resume()\<close> calls active; back to the event loop with a suspension; or to the end of the
  process.
\<close>

definition ending :: "bool \<Rightarrow> 'v \<Rightarrow> ('s, 'v) body" where
  "ending thrown v = (if thrown then CoThrow v else CoReturn v)"

abbreviation at_point :: "nat \<Rightarrow> ('s, 'v) point \<Rightarrow> ('s, 'v) tasks \<Rightarrow> ('s, 'v) tasks" where
  "at_point h p m \<equiv> set_frame h (\<lambda>f. f\<lparr>f_point := p\<rparr>) m"

abbreviation moved :: "('s, 'v) tasks \<Rightarrow> nat \<Rightarrow> nat \<Rightarrow> 's \<Rightarrow> nat list \<Rightarrow> ('s, 'v) tasks" where
  "moved m nx n s xs \<equiv> m\<lparr>t_next := nx, t_calls := n, t_state := s, t_native := xs @ t_native m\<rparr>"

definition lands ::
  "'s env \<Rightarrow> ('s, 'v) tasks \<Rightarrow> nat \<Rightarrow> nat list \<Rightarrow> ('s, 'v) progress \<times> nat \<times> 's \<Rightarrow> bool" where
  "lands E m h hs r = (case r of
     (Finished v, n, s) \<Rightarrow> (\<exists>nx t xs. t_next m \<le> nx \<and> reaches E m (at_point h (At (ending t v)) (moved m nx n s xs)))
   | (Paused a c, n, s) \<Rightarrow> (\<exists>m' xs. reaches E m m' \<and> t_calls m' = n \<and> t_state m' = s \<and>
       others_same m (h # hs) m' \<and> suspended_as m' a (xs @ h # hs) (co_bind c (conts (t_frames m) (h # hs))))
   | (Ended e, n, s) \<Rightarrow> (\<exists>m'. reaches E m m' \<and> t_control m' = Stuck e))"

lemma lands_trans:
  assumes lands: "lands E m1 h hs r" and r: "reaches E m m1" and grows: "t_next m \<le> t_next m1"
    and m1: "m1 = at_point h p (moved m nx n s ys)"
    and h: "h \<notin> set hs"
  shows "lands E m h hs r"
proof -
  have "conts (t_frames m1) (h # hs) = conts (t_frames m) (h # hs)"
    by (rule conts_cong) (use h in \<open>auto simp: m1 set_frame_def\<close>)
  moreover have "at_point h p' (moved m1 nx' n' s' xs) = at_point h p' (moved m nx' n' s' (xs @ ys))" for p' nx' n' s' xs
    by (simp add: m1 set_frame_def option.map_comp comp_def)
  ultimately have eqs: "conts (t_frames m1) (h # hs) = conts (t_frames m) (h # hs)"
    "\<And>p' nx' n' s' xs. at_point h p' (moved m1 nx' n' s' xs) = at_point h p' (moved m nx' n' s' (xs @ ys))"
    by blast+
  obtain pr n' s' where rr: "r = (pr, n', s')" by (cases r)
  show ?thesis
  proof (cases pr)
    case (Finished v)
    with lands rr obtain nx' t xs where "t_next m1 \<le> nx'"
      "reaches E m1 (at_point h (At (ending t v)) (moved m nx' n' s' (xs @ ys)))"
      unfolding lands_def eqs prod.case progress.case by auto
    with grows reaches_trans [OF r] show ?thesis
      unfolding rr Finished lands_def prod.case progress.case by (meson order_trans)
  next
    case (Paused a c)
    have "others_same m1 (h # hs) m' \<Longrightarrow> others_same m (h # hs) m'" for m'
      using grows by (auto simp: others_same_def m1 set_frame_def)
    with Paused lands rr reaches_trans [OF r] show ?thesis
      unfolding rr Paused lands_def prod.case progress.case eqs by metis
  next
    case (Ended e)
    with lands rr reaches_trans [OF r] show ?thesis
      unfolding rr Ended lands_def prod.case progress.case by blast
  qed
qed

lemma stacked_move:
  assumes "stacked m (h # hs)" and "t_next m \<le> nx"
  shows "stacked (at_point h p (moved m nx n s xs)) (h # hs)"
proof -
  let ?F = "(t_frames m)(h := map_option (\<lambda>f. f\<lparr>f_point := p\<rparr>) (t_frames m h))"
  have "linked ?F (h # hs)"
  proof (rule linked_cong [of "t_frames m"])
    show "linked (t_frames m) (h # hs)" using assms(1) by (simp add: stacked_def)
    show "?F g = t_frames m g" if "g \<in> set hs" for g
      using assms(1) that by (auto simp: stacked_def)
  qed (simp add: option.map_comp comp_def)
  moreover have "h < t_next m" using stacked_alloc [OF assms(1)] by simp
  ultimately show ?thesis using assms by (simp add: stacked_def set_frame_def)
qed

lemma lands_local:
  assumes "stacked m (h # hs)" and "t_control m = Running h"
    and step: "task_step E m = at_point h (At b) (m\<lparr>t_calls := n, t_state := s\<rparr>)"
    and rest: "\<And>m'. t_control m' = Running h \<Longrightarrow> stacked m' (h # hs) \<Longrightarrow>
      map_option f_point (t_frames m' h) = Some (At b) \<Longrightarrow>
      lands E m' h hs (advance E (tree b) (t_calls m') (t_state m'))"
  shows "lands E m h hs (advance E (tree b) n s)"
proof -
  let ?m = "at_point h (At b) (moved m (t_next m) n s [])"
  have eq: "task_step E m = ?m" by (simp add: step)
  have "t_frames m h \<noteq> None" using assms(1) linked_alloc by (fastforce simp: stacked_def)
  then have "lands E ?m h hs (advance E (tree b) (t_calls ?m) (t_state ?m))"
    by (intro rest stacked_move assms(1)) (auto simp: set_frame_def assms(2))
  moreover have "reaches E m ?m" by (rule reaches_step) (simp add: eq)
  moreover have "t_next m \<le> t_next ?m" by (simp add: set_frame_def)
  moreover have "h \<notin> set hs" using assms(1) by (simp add: stacked_def)
  ultimately have "lands E m h hs (advance E (tree b) (t_calls ?m) (t_state ?m))"
    by (rule lands_trans [OF _ _ _ refl])
  then show ?thesis by (simp add: set_frame_def)
qed

text \<open>
  Awaiting a task: a new frame on the stack; when it has returned, the awaiting frame goes on with
  the result and the frame of the awaited task is gone.
\<close>

lemma await_push:
  fixes m :: "('s, 'v) tasks"
  assumes "stacked m (h # hs)" and "t_control m = Running h" and "t_frames m h = Some f"
    and "f_point f = At (CoAwait b k)"
  defines "F1 \<equiv> (t_frames m)(h \<mapsto> f\<lparr>f_point := Awaiting (t_next m) k\<rparr>,
      t_next m \<mapsto> \<lparr>f_point = At b, waiter = Some h, p_result = None\<rparr>)"
  defines "m1 \<equiv> m\<lparr>t_control := Running (t_next m), t_frames := F1, t_next := Suc (t_next m), t_native := t_next m # t_native m\<rparr>"
  shows "task_step E m = m1" and "stacked m1 (t_next m # h # hs)"
    and "conts F1 (t_next m # h # hs) = (\<lambda>v. co_bind (tree (k v)) (conts (t_frames m) (h # hs)))"
proof -
  have alloc: "g < t_next m" if "g \<in> set (h # hs)" for g using stacked_alloc [OF assms(1) that] .
  then have fresh: "t_next m \<notin> set (h # hs)" by blast
  have h: "h \<notin> set hs" using assms(1) by (simp add: stacked_def)
  show "task_step E m = m1"
    using fresh by (simp add: task_defs assms(2-4) F1_def m1_def fun_upd_twist [of "t_next m" h])
  have "linked F1 (h # hs)"
  proof (rule linked_cong [of "t_frames m"])
    show "linked (t_frames m) (h # hs)" using assms(1) by (simp add: stacked_def)
  qed (use fresh h in \<open>auto simp: F1_def assms(3)\<close>)
  then show "stacked m1 (t_next m # h # hs)"
    using assms(1) fresh h alloc [of h] by (auto simp: stacked_def F1_def m1_def)
  have "conts F1 (h # hs) = conts (t_frames m) (h # hs)"
    by (rule conts_cong) (use fresh h in \<open>auto simp: F1_def\<close>)
  then show "conts F1 (t_next m # h # hs) = (\<lambda>v. co_bind (tree (k v)) (conts (t_frames m) (h # hs)))"
    using fresh by (intro ext) (simp add: F1_def)
qed

lemma await_pop:
  assumes fr: "t_frames m c = Some g" "waiter g = Some h" "f_point g = At (ending t v)"
    and h: "t_frames m h = Some f" "f_point f = Awaiting c k" "c \<noteq> h" and run: "t_control m = Running c"
  shows "reaches E m (m\<lparr>t_control := Running h, t_native := h # t_native m,
    t_frames := (t_frames m)(h \<mapsto> f\<lparr>f_point := At (k v)\<rparr>, c := None)\<rparr>)"
proof -
  let ?m = "m\<lparr>t_control := Running h, t_native := h # t_native m,
    t_frames := (t_frames m)(c \<mapsto> g\<lparr>f_point := FinalSuspend, p_result := Some v\<rparr>)\<rparr>"
  have "task_step E m = ?m" using assms by (cases t) (simp_all add: task_defs ending_def)
  moreover have "task_step E ?m = m\<lparr>t_control := Running h, t_native := h # t_native m,
      t_frames := (t_frames m)(h \<mapsto> f\<lparr>f_point := At (k v)\<rparr>, c := None)\<rparr>"
    using h by (simp add: task_defs fun_upd_twist [of c h])
  ultimately show ?thesis by (metis reaches_step reaches_refl)
qed

lemma lands_ending:
  assumes "map_option f_point (t_frames m h) = Some (At (ending t v))"
  shows "lands E m h hs (Finished v, t_calls m, t_state m)"
proof -
  from assms obtain f where "t_frames m h = Some f" "f_point f = At (ending t v)" by auto
  then have "at_point h (At (ending t v)) (moved m (t_next m) (t_calls m) (t_state m) []) = m"
    by (cases f) (simp add: set_frame_def fun_upd_idem)
  then have "reaches E m (at_point h (At (ending t v)) (moved m (t_next m) (t_calls m) (t_state m) []))" by simp
  then show ?thesis
    unfolding lands_def prod.case progress.case by blast
qed

lemmas lands_return = lands_ending [where t = False, unfolded ending_def if_False]
  and lands_throw = lands_ending [where t = True, unfolded ending_def if_True]

text \<open>
  The awaited task has run to its end: the awaiting frame continues with the value, in a machine
  that looks as if there had never been another frame, except that the \<open>resume()\<close> of the awaited
  task, and on top of it that of the waiter, are still active.
\<close>

lemma await_returned:
  fixes m :: "('s, 'v) tasks"
  assumes st: "stacked m (h # hs)" "t_control m = Running h" and f: "t_frames m h = Some f" "f_point f = At (CoAwait b k)"
    and run: "lands E (task_step E m) (t_next m) (h # hs) (Finished v, n, s)"
  obtains nx xs where "t_next m < nx"
    and "reaches E m (at_point h (At (k v)) (moved m nx n s (h # xs @ [t_next m])))"
proof -
  let ?c = "t_next m" and ?F = "(t_frames m)(h \<mapsto> f\<lparr>f_point := Awaiting (t_next m) k\<rparr>,
      t_next m \<mapsto> \<lparr>f_point = At b, waiter = Some h, p_result = None\<rparr>)"
  let ?m1 = "m\<lparr>t_control := Running ?c, t_frames := ?F, t_next := Suc ?c, t_native := ?c # t_native m\<rparr>"
  have m1: "task_step E m = ?m1" by (rule await_push(1) [OF st f])
  from run obtain nx t xs where "t_next ?m1 \<le> nx" and
    r: "reaches E ?m1 (at_point ?c (At (ending t v)) (moved ?m1 nx n s xs))"
    unfolding m1 lands_def prod.case progress.case by blast
  then have nx: "Suc ?c \<le> nx" by simp
  let ?m2 = "at_point ?c (At (ending t v)) (moved ?m1 nx n s xs)"
  let ?m3 = "?m2\<lparr>t_control := Running h, t_native := h # t_native ?m2,
    t_frames := (t_frames ?m2)(h \<mapsto> f\<lparr>f_point := At (k v)\<rparr>, ?c := None)\<rparr>"
  have nh: "?c \<noteq> h" using stacked_alloc [OF st(1)] by auto
  have "t_frames m ?c = None" using st(1) by (simp add: stacked_def)
  then have "?m3 = at_point h (At (k v)) (moved m nx n s (h # xs @ [?c]))"
    using f nh st(2) by (cases m) (auto simp: set_frame_def fun_eq_iff)
  moreover have "reaches E ?m2 ?m3"
    using await_pop [of ?m2 ?c "\<lparr>f_point = At (ending t v), waiter = Some h, p_result = None\<rparr>" h t v
        "f\<lparr>f_point := Awaiting ?c k\<rparr>" k E] nh by (simp add: set_frame_def)
  then have "reaches E m ?m3" by (rule reaches_trans [OF reaches_trans [OF reaches_one [OF m1] r]])
  ultimately show thesis using nx by (intro that [of nx xs]) simp_all
qed

lemma lands_await:
  fixes m :: "('s, 'v) tasks"
  assumes st: "stacked m (h # hs)" "t_control m = Running h"
    and at: "map_option f_point (t_frames m h) = Some (At (CoAwait b k))"
    and inner: "\<And>m h hs. t_control m = Running h \<Longrightarrow> stacked m (h # hs) \<Longrightarrow>
      map_option f_point (t_frames m h) = Some (At b) \<Longrightarrow> lands E m h hs (advance E (tree b) (t_calls m) (t_state m))"
    and outer: "\<And>v m. t_control m = Running h \<Longrightarrow> stacked m (h # hs) \<Longrightarrow>
      map_option f_point (t_frames m h) = Some (At (k v)) \<Longrightarrow> lands E m h hs (advance E (tree (k v)) (t_calls m) (t_state m))"
  shows "lands E m h hs (advance E (tree (CoAwait b k)) (t_calls m) (t_state m))"
proof -
  from at obtain f where f: "t_frames m h = Some f" "f_point f = At (CoAwait b k)" by auto
  note push = await_push [OF st f]
  obtain pr n s where adv: "advance E (tree b) (t_calls m) (t_state m) = (pr, n, s)" by (rule prod_cases3)
  have IH: "lands E (task_step E m) (t_next m) (h # hs) (pr, n, s)"
    using inner [OF _ push(2)] by (simp add: push(1) adv)
  show ?thesis
  proof (cases pr)
    case (Finished v)
    obtain nx xs where nx: "t_next m < nx" and
      r: "reaches E m (at_point h (At (k v)) (moved m nx n s (h # xs @ [t_next m])))"
      by (rule await_returned [OF st f IH [unfolded Finished]])
    let ?m = "at_point h (At (k v)) (moved m nx n s (h # xs @ [t_next m]))"
    have "lands E ?m h hs (advance E (tree (k v)) (t_calls ?m) (t_state ?m))"
      using st nx f by (intro outer stacked_move) (auto simp: set_frame_def)
    then have "lands E m h hs (advance E (tree (k v)) (t_calls ?m) (t_state ?m))"
      by (rule lands_trans [OF _ r _ refl]) (use nx st(1) in \<open>simp_all add: set_frame_def stacked_def\<close>)
    then show ?thesis by (simp add: advance_bind adv Finished set_frame_def)
  next
    case (Paused a c)
    with IH obtain m' xs where r: "reaches E m m'" and m': "t_calls m' = n" "t_state m' = s"
      and others: "others_same (task_step E m) (t_next m # h # hs) m'"
      and "suspended_as m' a ((xs @ [t_next m]) @ h # hs) (co_bind c (conts (t_frames (task_step E m)) (t_next m # h # hs)))"
      by (auto simp: lands_def intro: reaches_step)
    moreover from others have "others_same m (h # hs) m'" by (auto simp: others_same_def push(1))
    moreover have "conts (t_frames (task_step E m)) (t_next m # h # hs) = (\<lambda>v. co_bind (tree (k v)) (conts (t_frames m) (h # hs)))"
      using push(3) by (simp add: push(1))
    ultimately have "lands E m h hs (Paused a (co_bind c (\<lambda>v. tree (k v))), n, s)"
      unfolding lands_def prod.case progress.case co_bind_assoc by metis
    then show ?thesis by (simp add: advance_bind adv Paused)
  next
    case (Ended e)
    with IH show ?thesis by (auto simp: lands_def advance_bind adv intro: reaches_step)
  qed
qed

lemma lands_block:
  assumes st: "stacked m (h # hs)" "t_control m = Running h"
    and at: "map_option f_point (t_frames m h) = Some (At (CoBlock a b))"
  shows "lands E m h hs (Paused a (tree b), t_calls m, t_state m)"
proof -
  from at obtain f where f: "t_frames m h = Some f" "f_point f = At (CoBlock a b)" by auto
  let ?m1 = "(at_point h (At b) m)\<lparr>t_control := Unwinding (Some (a, h))\<rparr>"
  let ?m = "?m1\<lparr>t_control := loop_control (Some (a, h)), t_native := [],
    t_ghosts := t_ghosts ?m1 @ filter (\<lambda>g. t_frames ?m1 g = None) (t_native ?m1)\<rparr>"
  have "task_step E m = ?m1" using st(2) f by (simp add: task_step_def body_step_def)
  then have r: "reaches E m ?m" using unwinds [of ?m1 "Some (a, h)" E] reaches_step [of E m ?m] by simp
  have "conts (t_frames ?m) (h # hs) = conts (t_frames m) (h # hs)"
    by (rule conts_cong) (use st(1) in \<open>auto simp: set_frame_def stacked_def\<close>)
  moreover have "stacked ?m (h # hs)"
    using stacked_move [OF st(1) order_refl, where p = "At b" and n = "t_calls m" and s = "t_state m" and xs = "[]"]
    by (simp add: stacked_def set_frame_def)
  ultimately have "suspended_as ?m a (h # hs) (co_bind (tree b) (conts (t_frames m) (h # hs)))"
    using f by (simp add: suspended_as_def resumable_def set_frame_def loop_control_def)
  moreover have "others_same m (h # hs) ?m" "t_calls ?m = t_calls m" "t_state ?m = t_state m"
    by (simp_all add: set_frame_def others_same_def)
  ultimately show ?thesis
    using r unfolding lands_def prod.case progress.case by (intro exI [of _ ?m] exI [of _ "[]"]) simp
qed

lemma body_lands:
  assumes "t_control m = Running h" and "stacked m (h # hs)"
    and "map_option f_point (t_frames m h) = Some (At b)"
  shows "lands E m h hs (advance E (tree b) (t_calls m) (t_state m))"
  using assms
proof (induction b arbitrary: m h hs)
  case (CoAwait b k)
  show ?case by (rule lands_await [OF CoAwait.prems(2,1,3) CoAwait.IH(1) CoAwait.IH(2) [OF rangeI]])
next
  case (CoAct u k)
  then obtain f where f: "t_frames m h = Some f" "f_point f = At (CoAct u k)" by auto
  have "task_step E m = at_point h (At (k (t_state m)))
      (m\<lparr>t_calls := t_calls m, t_state := u (t_state m)\<rparr>)"
    using CoAct.prems(1) f by (simp add: task_step_def body_step_def set_frame_def)
  then have "lands E m h hs (advance E (tree (k (t_state m))) (t_calls m) (u (t_state m)))"
    by (rule lands_local [OF CoAct.prems(2,1)]) (rule CoAct.IH [OF rangeI])
  then show ?case by simp
next
  case (CoCall q k)
  then obtain f where f: "t_frames m h = Some f" "f_point f = At (CoCall q k)" by auto
  have "task_step E m = at_point h (At (k (e_call E (t_calls m) q)))
      (m\<lparr>t_calls := Suc (t_calls m), t_state := t_state m\<rparr>)"
    using CoCall.prems(1) f by (simp add: task_step_def body_step_def set_frame_def)
  then have "lands E m h hs (advance E (tree (k (e_call E (t_calls m) q))) (Suc (t_calls m)) (t_state m))"
    by (rule lands_local [OF CoCall.prems(2,1)]) (rule CoCall.IH [OF rangeI])
  then show ?case by simp
next
  case (CoHalt e)
  then obtain f where f: "t_frames m h = Some f" "f_point f = At (CoHalt e)" by auto
  have "reaches E m (task_step E m)" by (rule reaches_step) simp
  moreover have "t_control (task_step E m) = Stuck e" using f CoHalt.prems by (simp add: task_defs)
  ultimately show ?case by (auto simp: lands_def)
qed (simp_all add: lands_return lands_throw lands_block)

subsection \<open>Refinement\<close>

text \<open>A frame that ends while nobody waits for it frees itself, and the active calls return.\<close>

lemma root_returns:
  assumes "t_control m = Running h" and "t_frames m h = Some f" and "waiter f = None"
    and "f_point f = At (ending t v)"
  obtains gs where "reaches E m (m\<lparr>t_frames := (t_frames m)(h := None), t_control := Returned, t_native := [],
    t_ghosts := gs\<rparr>)"
proof -
  let ?m = "m\<lparr>t_frames := (t_frames m)(h := None), t_control := Unwinding None\<rparr>"
  have "task_step E m = ?m" using assms by (cases t) (simp_all add: task_defs ending_def)
  then have "reaches E m (?m\<lparr>t_control := loop_control None, t_native := [],
      t_ghosts := t_ghosts ?m @ filter (\<lambda>g. t_frames ?m g = None) (t_native ?m)\<rparr>)"
    using unwinds [of ?m None E] reaches_step [of E m] by simp
  then show thesis by (intro that) (simp add: loop_control_def)
qed

lemma new_task_resumable:
  assumes "\<forall>h \<ge> t_next m. t_frames m h = None"
  shows "resumable (snd (get_return_object b m)) [t_next m] (tree b)"
  using assms by (simp add: resumable_def stacked_def get_return_object_def)

definition simulates ::
  "'s env \<Rightarrow> ('s, 'v) tasks \<Rightarrow> nat list \<Rightarrow> ('s, 'v) progress \<times> nat \<times> 's \<Rightarrow> bool" where
  "simulates E m hs r = (case r of
     (Finished v, n, s) \<Rightarrow> (\<exists>m'. reaches E m m' \<and> t_control m' = Returned \<and> t_native m' = [] \<and> t_calls m' = n \<and>
       t_state m' = s \<and> others_same m hs m' \<and> (\<forall>h. h \<in> set hs \<or> t_next m \<le> h \<longrightarrow> t_frames m' h = None))
   | (Paused a c, n, s) \<Rightarrow> (\<exists>m' hs'. reaches E m m' \<and> t_calls m' = n \<and> t_state m' = s \<and>
       others_same m hs m' \<and> suspended_as m' a hs' c \<and> last hs' = last hs)
   | (Ended e, n, s) \<Rightarrow> (\<exists>m'. reaches E m m' \<and> t_control m' = Stuck e))"

lemma simulates_pop:
  assumes sim: "simulates E m3 hs r" and r: "reaches E m m3" and grows: "t_next m \<le> t_next m3"
    and frames: "\<And>g. g \<notin> set (h # hs) \<Longrightarrow> t_frames m3 g = t_frames m g" "t_frames m3 h = None"
    and h: "h \<notin> set hs" "h < t_next m" "hs \<noteq> []" and fresh: "\<And>g. t_next m \<le> g \<Longrightarrow> t_frames m g = None"
  shows "simulates E m (h # hs) r"
proof -
  obtain pr n s where rr: "r = (pr, n, s)" by (cases r)
  have others: "others_same m3 hs m' \<Longrightarrow> others_same m (h # hs) m'" for m'
    using grows frames(1) by (auto simp: others_same_def)
  show ?thesis
  proof (cases pr)
    case (Finished v)
    with sim rr obtain m' where m': "reaches E m3 m'" "t_control m' = Returned" "t_calls m' = n" "t_state m' = s"
      "others_same m3 hs m'" "t_native m' = []" "\<And>g. g \<in> set hs \<or> t_next m3 \<le> g \<Longrightarrow> t_frames m' g = None"
      by (auto simp: simulates_def)
    have "t_frames m' g = None" if "g \<in> set (h # hs) \<or> t_next m \<le> g" for g
    proof (cases "g \<in> set hs \<or> t_next m3 \<le> g")
      case False
      then have "t_frames m' g = t_frames m3 g" using m'(5) by (simp add: others_same_def)
      with that False frames fresh show ?thesis by (cases "g = h") auto
    qed (rule m'(7))
    with m' others reaches_trans [OF r] show ?thesis
      unfolding rr Finished simulates_def prod.case progress.case by blast
  next
    case (Paused a c)
    with sim rr obtain m' hs' where "reaches E m3 m'" "t_calls m' = n" "t_state m' = s"
      "others_same m3 hs m'" "suspended_as m' a hs' c" "last hs' = last hs"
      by (auto simp: simulates_def)
    moreover have "last (h # hs) = last hs" using h(3) by simp
    ultimately show ?thesis
      using others reaches_trans [OF r] unfolding rr Paused simulates_def prod.case progress.case by metis
  next
    case (Ended e)
    with sim rr reaches_trans [OF r] show ?thesis
      unfolding rr Ended simulates_def prod.case progress.case by blast
  qed
qed

lemma lands_simulates:
  assumes lands: "lands E m h hs (advance E c n s)"
    and returns: "\<And>v n' s'. advance E c n s = (Finished v, n', s') \<Longrightarrow>
      simulates E m (h # hs) (advance E (conts (t_frames m) (h # hs) v) n' s')"
  shows "simulates E m (h # hs) (advance E (co_bind c (conts (t_frames m) (h # hs))) n s)"
proof -
  obtain pr n' s' where adv: "advance E c n s = (pr, n', s')" by (rule prod_cases3)
  show ?thesis
  proof (cases pr)
    case (Finished v)
    with adv returns show ?thesis by (simp add: advance_bind)
  next
    case (Paused a c')
    with lands adv obtain m' xs where "reaches E m m'" "t_calls m' = n'" "t_state m' = s'"
      "others_same m (h # hs) m'"
      "suspended_as m' a (xs @ h # hs) (co_bind c' (conts (t_frames m) (h # hs)))"
      by (auto simp: lands_def)
    moreover have "last (xs @ h # hs) = last (h # hs)" by simp
    ultimately have "simulates E m (h # hs) (Paused a (co_bind c' (conts (t_frames m) (h # hs))), n', s')"
      unfolding simulates_def prod.case progress.case by metis
    then show ?thesis by (simp add: advance_bind adv Paused)
  next
    case (Ended e)
    with lands adv show ?thesis by (simp add: advance_bind lands_def simulates_def)
  qed
qed

text \<open>The innermost frame has returned and is freed; the frame that awaited it is innermost now.\<close>

lemma frame_popped:
  assumes run: "t_control m = Running h" and st: "stacked m (h # w # ws)"
    and ret: "lands E m h (w # ws) (Finished v, n, s)"
  obtains m3 k where "reaches E m m3" "t_next m \<le> t_next m3" "t_calls m3 = n" "t_state m3 = s"
    "t_control m3 = Running w" "stacked m3 (w # ws)" "map_option f_point (t_frames m3 w) = Some (At (k v))"
    "conts (t_frames m) (h # w # ws) v = co_bind (tree (k v)) (conts (t_frames m3) (w # ws))"
    "\<And>g. g \<notin> set (h # w # ws) \<Longrightarrow> t_frames m3 g = t_frames m g" "t_frames m3 h = None"
proof -
  from ret obtain nx t xs where nx: "t_next m \<le> nx" and r: "reaches E m (at_point h (At (ending t v)) (moved m nx n s xs))"
    unfolding lands_def prod.case progress.case by blast
  let ?m = "at_point h (At (ending t v)) (moved m nx n s xs)"
  from st obtain f g k where fg: "t_frames m h = Some f" "waiter f = Some w"
    "t_frames m w = Some g" "f_point g = Awaiting h k" by (auto simp: stacked_def)
  have neq: "h \<noteq> w" "h \<notin> set (w # ws)" "h < t_next m"
    using st stacked_alloc [OF st] by (auto simp: stacked_def)
  let ?m3 = "?m\<lparr>t_control := Running w, t_native := w # t_native ?m, t_frames := (t_frames ?m)(w \<mapsto> g\<lparr>f_point := At (k v)\<rparr>, h := None)\<rparr>"
  have r3: "reaches E m ?m3"
    using await_pop [of ?m h "f\<lparr>f_point := At (ending t v)\<rparr>" w t v g k E] fg neq run
    by (intro reaches_trans [OF r]) (simp add: set_frame_def)
  have "linked (t_frames ?m3) (w # ws)"
  proof (rule linked_cong [of "t_frames m"])
    show "linked (t_frames m) (w # ws)" using st by (simp add: stacked_def)
  qed (use neq fg st in \<open>auto simp: set_frame_def stacked_def\<close>)
  then have m3: "stacked ?m3 (w # ws)"
    using neq nx st stacked_alloc [OF st, of w] by (auto simp: stacked_def set_frame_def)
  have "conts (t_frames ?m3) (w # ws) = conts (t_frames m) (w # ws)"
    by (rule conts_cong) (use neq st in \<open>auto simp: set_frame_def stacked_def\<close>)
  then show thesis
    using fg nx neq by (intro that [OF r3 _ _ _ _ m3]) (simp_all add: set_frame_def)
qed

lemma root_popped:
  assumes run: "t_control m = Running h" and st: "stacked m [h]"
    and ret: "lands E m h [] (Finished v, n, s)"
  shows "simulates E m [h] (Finished v, n, s)"
proof -
  from ret obtain nx t xs where nx: "t_next m \<le> nx" and r: "reaches E m (at_point h (At (ending t v)) (moved m nx n s xs))"
    unfolding lands_def prod.case progress.case by blast
  let ?m = "at_point h (At (ending t v)) (moved m nx n s xs)"
  obtain f where f: "t_frames m h = Some f" "waiter f = None" using st by (auto simp: stacked_def)
  obtain gs where "reaches E ?m (?m\<lparr>t_frames := (t_frames ?m)(h := None), t_control := Returned, t_native := [],
      t_ghosts := gs\<rparr>)"
    by (rule root_returns [of ?m h "f\<lparr>f_point := At (ending t v)\<rparr>" t v E]) (use run f in \<open>simp_all add: set_frame_def\<close>)
  then have "reaches E m (?m\<lparr>t_frames := (t_frames ?m)(h := None), t_control := Returned, t_native := [], t_ghosts := gs\<rparr>)"
    by (rule reaches_trans [OF r])
  then show ?thesis
    using st nx by (auto simp: simulates_def set_frame_def others_same_def stacked_def intro!: exI)
qed

lemma stack_simulates:
  assumes "t_control m = Running h" and "stacked m (h # hs)"
    and "map_option f_point (t_frames m h) = Some (At b)"
  shows "simulates E m (h # hs) (advance E (co_bind (tree b) (conts (t_frames m) (h # hs))) (t_calls m) (t_state m))"
  using assms
proof (induction hs arbitrary: m h b)
  case Nil
  from body_lands [OF Nil] show ?case
    by (rule lands_simulates) (use body_lands [OF Nil, of E] root_popped [OF Nil(1,2)] in simp)
next
  case (Cons w ws)
  from body_lands [OF Cons.prems] show ?case
  proof (rule lands_simulates)
    fix v n s assume "advance E (tree b) (t_calls m) (t_state m) = (Finished v, n, s)"
    with body_lands [OF Cons.prems, of E] have "lands E m h (w # ws) (Finished v, n, s)" by simp
    from frame_popped [OF Cons.prems(1,2) this] obtain m3 k where
      m3: "reaches E m m3" "t_next m \<le> t_next m3" "t_calls m3 = n" "t_state m3 = s"
      "t_control m3 = Running w" "stacked m3 (w # ws)" "map_option f_point (t_frames m3 w) = Some (At (k v))"
      and cs: "conts (t_frames m) (h # w # ws) v = co_bind (tree (k v)) (conts (t_frames m3) (w # ws))"
      and frames: "\<And>g. g \<notin> set (h # w # ws) \<Longrightarrow> t_frames m3 g = t_frames m g" "t_frames m3 h = None"
      by metis
    have "simulates E m3 (w # ws) (advance E (conts (t_frames m) (h # w # ws) v) n s)"
      using Cons.IH [OF m3(5-7)] unfolding cs m3(3,4) .
    then show "simulates E m (h # w # ws) (advance E (conts (t_frames m) (h # w # ws) v) n s)"
      by (rule simulates_pop [OF _ m3(1,2) frames])
        (use Cons.prems(2) stacked_alloc [OF Cons.prems(2)] in \<open>auto simp: stacked_def\<close>)
  qed
qed

lemma resume_simulates:
  assumes "resumable m hs c"
  shows "simulates E (handle_resume (hd hs) m) hs (advance E c (t_calls m) (t_state m))"
proof -
  from assms obtain h ws where hs: "hs = h # ws" by (cases hs) (auto simp: resumable_def stacked_def)
  let ?m = "handle_resume h m"
  from assms hs obtain b where "map_option f_point (t_frames ?m h) = Some (At b)"
    "c = co_bind (tree b) (conts (t_frames ?m) (h # ws))"
    by (auto simp: resumable_def handle_resume_def)
  moreover have "stacked ?m (h # ws)" using assms hs by (simp add: resumable_def stacked_def handle_resume_def)
  ultimately show ?thesis
    using stack_simulates [of ?m h ws b E] by (simp add: hs handle_resume_def)
qed

subsection \<open>Destroyed frames with an active \<open>resume()\<close>\<close>

text \<open>
  A destroyed frame stays destroyed, and once its \<open>resume()\<close> is active control has to come back
  through it before the event loop is reached.
\<close>

definition in_loop :: "('s, 'v) tasks \<Rightarrow> bool" where
  "in_loop m \<longleftrightarrow> (case t_control m of Returned \<Rightarrow> True | Blocked a h \<Rightarrow> True | _ \<Rightarrow> False)"

definition gone_active :: "nat \<Rightarrow> ('s, 'v) tasks \<Rightarrow> bool" where
  "gone_active c m \<longleftrightarrow> c < t_next m \<and> t_frames m c = None \<and> c \<in> set (t_native m) \<union> set (t_ghosts m) \<and>
     (in_loop m \<longrightarrow> t_native m = [])"

lemma gone_active_body: "gone_active c m \<Longrightarrow> t_control m = Running h \<Longrightarrow> gone_active c (body_step E h b m)"
  by (cases b) (auto simp: gone_active_def in_loop_def task_defs split: option.split)

lemma gone_active_step:
  assumes "gone_active c m"
  shows "gone_active c (task_step E m)"
proof (cases "t_control m")
  case (Running h)
  with assms gone_active_body [OF assms Running] show ?thesis
    by (auto simp: task_step_def gone_active_def in_loop_def set_frame_def destroy_def task_destructor_def
        split: option.split point.split)
next
  case (Unwinding x)
  with assms show ?thesis
    by (auto simp: task_defs gone_active_def in_loop_def loop_control_def split: option.split list.split)
qed (use assms in \<open>simp_all add: task_step_def\<close>)

lemma gone_active_steps: "gone_active c m \<Longrightarrow> gone_active c (task_steps E i m)"
  unfolding task_steps_def by (induction i) (simp_all add: gone_active_step)

lemma gone_active_loop: "gone_active c m \<Longrightarrow> in_loop m \<Longrightarrow> c \<in> set (t_ghosts m)"
  by (auto simp: gone_active_def)

subsection \<open>Properties\<close>

text \<open>
  C8. The frames of \<open>std::task\<close> implement the trees the rest of the development reasons about.
  Take any stack of coroutines that await one another, the innermost ready to be resumed, and the
  tree it stands for. Resuming the innermost handle runs the machine, through all the nested
  \<open>resume()\<close> calls of awaited tasks and waiters, to exactly where the tree gets to: if the tree runs
  to its end, every call returns and the machine is back in the event loop with every frame of the
  stack destroyed; if the tree suspends, every call returns and the machine is back in the event
  loop with a stack, over the same outermost frame, that waits on the same object and stands for
  the rest of the tree; if the tree stops the process, so does the machine. Along the way the
  process state and the answers of the environment are the same, and the frames of other coroutines
  are untouched. This rests on the standard's view that a coroutine inside its \<open>await_suspend\<close> is
  suspended, so that its frame may be destroyed before its \<open>resume()\<close> returns; the frames for which
  this happens are recorded, and they are there whenever an awaited task completes at once, as the next
  property shows.
\<close>

theorem task_refines_tree:
  assumes "resumable m hs c"
  shows "case advance E c (t_calls m) (t_state m) of
      (Finished v, n, s) \<Rightarrow> (\<exists>j m'. task_steps E j (handle_resume (hd hs) m) = m' \<and>
        t_control m' = Returned \<and> t_native m' = [] \<and> t_calls m' = n \<and> t_state m' = s \<and> others_same m hs m' \<and>
        (\<forall>h \<in> set hs. t_frames m' h = None))
    | (Paused a c', n, s) \<Rightarrow> (\<exists>j m' hs'. task_steps E j (handle_resume (hd hs) m) = m' \<and>
        t_calls m' = n \<and> t_state m' = s \<and> others_same m hs m' \<and>
        suspended_as m' a hs' c' \<and> last hs' = last hs)
    | (Ended e, n, s) \<Rightarrow> (\<exists>j m'. task_steps E j (handle_resume (hd hs) m) = m' \<and> t_control m' = Stuck e)"
proof -
  have same: "others_same (handle_resume h m) hs m' = others_same m hs m'" for h m'
    by (simp add: others_same_def handle_resume_def)
  show ?thesis
    using resume_simulates [OF assms, of E]
    by (auto simp: simulates_def reaches_def same split: prod.splits progress.splits)
qed

text \<open>
  C32. An awaited task that completes without suspending, such as the closing of a descriptor, is
  destroyed while it is running. Its final suspension calls the waiter from inside the \<open>resume()\<close> of
  the task; the waiter goes on with the result, the temporary task object frees the frame, and two
  more \<open>resume()\<close> calls than before are active, that of the destroyed task among them. They stay
  until the thread gets back to the event loop, and it cannot get there without returning through
  the \<open>resume()\<close> of the destroyed frame. So the native stack grows with every such await.
\<close>

theorem synchronous_child_destroyed_active:
  assumes st: "stacked m (h # hs)" "t_control m = Running h"
    and at: "map_option f_point (t_frames m h) = Some (At (CoAwait b k))"
    and sync: "advance E (tree b) (t_calls m) (t_state m) = (Finished v, n, s)"
  shows "\<exists>j m' xs. task_steps E j m = m' \<and> t_control m' = Running h \<and> t_calls m' = n \<and> t_state m' = s \<and>
    map_option f_point (t_frames m' h) = Some (At (k v)) \<and> t_frames m' (t_next m) = None \<and>
    t_native m' = h # xs @ t_next m # t_native m \<and>
    (\<forall>i. t_control (task_steps E i m') = Returned \<or> (\<exists>a g. t_control (task_steps E i m') = Blocked a g) \<longrightarrow>
      t_next m \<in> set (t_ghosts (task_steps E i m')))"
proof -
  from at obtain f where f: "t_frames m h = Some f" "f_point f = At (CoAwait b k)" by auto
  note push = await_push [OF st f]
  have "lands E (task_step E m) (t_next m) (h # hs) (Finished v, n, s)"
    using body_lands [OF _ push(2), of b E] sync by (simp add: push(1))
  then obtain nx xs where nx: "t_next m < nx" and
    r: "reaches E m (at_point h (At (k v)) (moved m nx n s (h # xs @ [t_next m])))"
    by (rule await_returned [OF st f])
  let ?m = "at_point h (At (k v)) (moved m nx n s (h # xs @ [t_next m]))"
  have fresh: "h \<noteq> t_next m" "t_frames m (t_next m) = None"
    using stacked_alloc [OF st(1), of h] st(1) by (auto simp: stacked_def)
  then have "gone_active (t_next m) ?m"
    using nx st(2) by (simp add: gone_active_def in_loop_def set_frame_def)
  then have "t_next m \<in> set (t_ghosts (task_steps E i ?m))" if "in_loop (task_steps E i ?m)" for i
    using gone_active_loop [OF gone_active_steps that] by blast
  moreover obtain j where "task_steps E j m = ?m" using r by (auto simp: reaches_def)
  ultimately show ?thesis
    using f fresh st(2) by (intro exI [of _ j] exI [of _ ?m] exI [of _ xs]) (auto simp: set_frame_def in_loop_def)
qed

text \<open>
  C40. A task nobody awaits destroys its own frame when it returns; the task object still holds the
  handle, and its destructor then asks a destroyed frame whether it is done. A task that is only
  resumed is safe exactly as long as it does not return, which is how the program uses it.
\<close>

theorem finished_top_task_dangles:
  assumes "resumable m hs c" and "advance E c (t_calls m) (t_state m) = (Finished v, n, s)"
  shows "\<exists>j m'. task_steps E j (handle_resume (hd hs) m) = m' \<and> t_control m' = Returned \<and>
    t_control (task_destructor (last hs) m') = Stuck (Trapped DanglingReference)"
proof -
  have "hs \<noteq> []" using assms(1) by (auto simp: resumable_def stacked_def)
  then have "last hs \<in> set hs" by simp
  moreover from resume_simulates [OF assms(1), of E] assms(2) obtain m' where
    "reaches E (handle_resume (hd hs) m) m'" "t_control m' = Returned" "\<forall>h \<in> set hs. t_frames m' h = None"
    by (auto simp: simulates_def)
  ultimately show ?thesis
    by (auto simp: reaches_def task_destructor_def)
qed

subsection \<open>Witnesses\<close>

text \<open>A task that awaits another one, which waits for an event on object 7 and returns 3.\<close>

definition demo_body :: "(unit, nat) body" where
  "demo_body = CoAwait (CoBlock 7 (CoReturn 3)) (\<lambda>v. CoReturn (v + 1))"

definition no_tasks :: "(unit, nat) tasks" where
  "no_tasks = \<lparr>t_control = Returned, t_frames = Map.empty, t_next = 0, t_calls = 0, t_state = (),
     t_native = [], t_ghosts = []\<rparr>"

definition demo_tasks :: "(unit, nat) body \<Rightarrow> (unit, nat) tasks" where
  "demo_tasks b = snd (get_return_object b no_tasks)"

definition demo_tasks_env :: "unit env" where
  "demo_tasks_env = \<lparr>e_call = (\<lambda>_ _. sys_value 0), e_interfere = (\<lambda>_ s. s)\<rparr>"

lemma demo_resumable: "resumable (demo_tasks b) [0] (tree b)"
  using new_task_resumable [of no_tasks b] by (simp add: demo_tasks_def no_tasks_def)

theorem task_refines_tree_witness:
  "\<exists>j m' hs'. task_steps demo_tasks_env j (handle_resume 0 (demo_tasks demo_body)) = m' \<and>
     t_calls m' = 0 \<and> t_state m' = () \<and> others_same (demo_tasks demo_body) [0] m' \<and>
     suspended_as m' 7 hs' (Ret 4) \<and> last hs' = 0"
  using task_refines_tree [OF demo_resumable [of demo_body], of demo_tasks_env]
  by (simp add: demo_body_def demo_tasks_def get_return_object_def no_tasks_def)

text \<open>
  A task that awaits one that returns at once: it goes on with two more calls active, and when it has
  returned the thread has gone back through the \<open>resume()\<close> calls of both destroyed frames.
\<close>

definition demo_sync_body :: "(unit, nat) body" where
  "demo_sync_body = CoAwait (CoReturn 3) (\<lambda>v. CoReturn (v + 1))"

theorem synchronous_child_destroyed_active_witness:
  "(\<exists>j m' xs. task_steps demo_tasks_env j (handle_resume 0 (demo_tasks demo_sync_body)) = m' \<and> t_control m' = Running 0 \<and>
     t_calls m' = 0 \<and> t_state m' = () \<and> map_option f_point (t_frames m' 0) = Some (At (CoReturn 4)) \<and> t_frames m' 1 = None \<and>
     t_native m' = 0 # xs @ [1, 0] \<and>
     (\<forall>i. t_control (task_steps demo_tasks_env i m') = Returned \<or> (\<exists>a g. t_control (task_steps demo_tasks_env i m') = Blocked a g) \<longrightarrow>
       1 \<in> set (t_ghosts (task_steps demo_tasks_env i m')))) \<and>
   t_control (task_steps demo_tasks_env 8 (handle_resume 0 (demo_tasks demo_sync_body))) = Returned \<and>
   t_ghosts (task_steps demo_tasks_env 8 (handle_resume 0 (demo_tasks demo_sync_body))) = [0, 1, 0]"
proof -
  let ?m = "handle_resume 0 (demo_tasks demo_sync_body)"
  have m: "t_control ?m = Running 0" "map_option f_point (t_frames ?m 0) = Some (At (CoAwait (CoReturn 3) (\<lambda>v. CoReturn (v + 1))))"
    "t_next ?m = 1" "t_native ?m = [0]" "stacked ?m [0]" "t_calls ?m = 0" "t_state ?m = ()"
    by (simp_all add: demo_tasks_def get_return_object_def no_tasks_def handle_resume_def stacked_def demo_sync_body_def)
  have ended: "t_control (task_steps demo_tasks_env 8 ?m) = Returned" "t_ghosts (task_steps demo_tasks_env 8 ?m) = [0, 1, 0]"
    by (simp_all add: task_steps_def eval_nat_numeral task_defs loop_control_def demo_tasks_def no_tasks_def demo_sync_body_def)
  have sync: "advance demo_tasks_env (tree (CoReturn (3::nat))) (t_calls ?m) (t_state ?m) = (Finished 3, 0, ())"
    using m by simp
  have four: "(3::nat) + 1 = 4" by simp
  show ?thesis
    by (intro conjI ended synchronous_child_destroyed_active [OF m(5,1,2) sync, unfolded m(3,4) four])
qed

theorem finished_top_task_dangles_witness:
  "\<exists>j m'. task_steps demo_tasks_env j (handle_resume 0 (demo_tasks (CoReturn 3))) = m' \<and>
    t_control m' = Returned \<and>
    t_control (task_destructor 0 m') = Stuck (Trapped DanglingReference)"
  using finished_top_task_dangles [OF demo_resumable [of "CoReturn 3"], of demo_tasks_env] by simp

end
