(* ===== verification/TransferLoops.thy ===== *)
theory TransferLoops
  imports AsyncSocket
begin

text \<open>
  The transfer loops over the network and over pipes: what they return is what the kernel moved,
  nothing is lost, repeated or reordered, and they end. Both directions are stated once, over the
  single operation they repeat, in a locale that the socket and the pipe operations instantiate.
\<close>

subsection \<open>Bytes moved by an execution\<close>

text \<open>The bytes the kernel delivered and those it accepted, along a trace.\<close>

fun delivered :: "syscall \<times> sysret \<Rightarrow> byte list" where
  "delivered (SysRecv fd n, r) = (if s_ret r = -1 then [] else received n r)"
| "delivered (SysRead fd n, r) = (if s_ret r = -1 then [] else received n r)"
| "delivered (q, r) = []"

fun accepted :: "syscall \<times> sysret \<Rightarrow> byte list" where
  "accepted (SysSend fd buf, r) = (if s_ret r = -1 then [] else take (written (length buf) r) buf)"
| "accepted (SysWrite fd buf, r) = (if s_ret r = -1 then [] else take (written (length buf) r) buf)"
| "accepted (q, r) = []"

definition stream_in :: "(syscall \<times> sysret) list \<Rightarrow> byte list" where
  "stream_in tr = concat (map delivered tr)"

definition stream_out :: "(syscall \<times> sysret) list \<Rightarrow> byte list" where
  "stream_out tr = concat (map accepted tr)"

lemma streams [simp]:
  "stream_in [] = []" "stream_in (x # tr) = delivered x @ stream_in tr"
  "stream_in (tr @ tr') = stream_in tr @ stream_in tr'"
  "stream_out [] = []" "stream_out (x # tr) = accepted x @ stream_out tr"
  "stream_out (tr @ tr') = stream_out tr @ stream_out tr'"
  by (simp_all add: stream_in_def stream_out_def)

subsection \<open>Receiving\<close>

text \<open>
  One attempt to read: it returns in every environment, after at most two calls and one
  suspension, with what was delivered.
\<close>

locale reader =
  fixes op :: "nat \<Rightarrow> ('j, sysret) task"
  assumes attempt: "\<exists>r n' s'. run E (op k) n s = (Done r, n', s') \<and> n' \<le> n + 3 \<and>
    stream_in (trace E (op k) n s) = (if s_ret r = -1 then [] else received k r)"
begin

lemma loop:
  "\<exists>r bs n' s'. run E (read_loop op len acc) n s = (Done (r, bs), n', s') \<and>
     bs = acc @ stream_in (trace E (read_loop op len acc) n s) \<and>
     (r = -1 \<or> r = int (length bs)) \<and> (length acc \<le> len \<longrightarrow> length bs \<le> len) \<and>
     n' \<le> n + 3 * max 1 (len - length acc)"
proof (induction "len - length acc" arbitrary: acc n s rule: less_induct)
  case less
  let ?k = "len - length acc"
  obtain r n1 s1 where op: "run E (op ?k) n s = (Done r, n1, s1)" "n1 \<le> n + 3"
    "stream_in (trace E (op ?k) n s) = (if s_ret r = -1 then [] else received ?k r)"
    using attempt by blast
  let ?chunk = "received ?k r"
  have chunk: "length ?chunk \<le> ?k" by (rule length_received)
  show ?case
  proof (cases "s_ret r \<noteq> -1 \<and> ?chunk \<noteq> [] \<and> length acc + length ?chunk < len")
    case True
    then have "len - length (acc @ ?chunk) < ?k" by (cases ?chunk) auto
    from less [OF this, of n1 s1] obtain q bs n' s' where IH:
      "run E (read_loop op len (acc @ ?chunk)) n1 s1 = (Done (q, bs), n', s')"
      "bs = (acc @ ?chunk) @ stream_in (trace E (read_loop op len (acc @ ?chunk)) n1 s1)"
      "q = -1 \<or> q = int (length bs)" "length bs \<le> len"
      "n' \<le> n1 + 3 * max 1 (len - length (acc @ ?chunk))"
      using True by auto
    have "n' \<le> n + 3 * max 1 ?k" using IH(5) op(2) True by (cases ?chunk) auto
    moreover have "run E (read_loop op len acc) n s = (Done (q, bs), n', s')"
      using True op(1) IH(1) by (subst read_loop.simps) (simp add: run_bind Let_def)
    moreover have "stream_in (trace E (read_loop op len acc) n s) =
        ?chunk @ stream_in (trace E (read_loop op len (acc @ ?chunk)) n1 s1)"
      using True op by (subst read_loop.simps) (simp add: trace_bind Let_def)
    ultimately show ?thesis using IH(2-4) by auto
  next
    case False
    then have "run E (read_loop op len acc) n s =
        (if s_ret r = -1 then (Done (-1, acc), n1, s1)
         else (Done (int (length (acc @ ?chunk)), acc @ ?chunk), n1, s1))"
      using op(1) by (subst read_loop.simps) (auto simp: run_bind Let_def)
    moreover have "stream_in (trace E (read_loop op len acc) n s) = (if s_ret r = -1 then [] else ?chunk)"
      using False op by (subst read_loop.simps) (auto simp: trace_bind Let_def)
    ultimately show ?thesis using op(2) chunk by (auto simp: le_diff_conv)
  qed
qed

end

subsection \<open>Sending\<close>

text \<open>
  A send on a broken connection raises \<open>SIGPIPE\<close>. The daemon and \<open>sync\<close> ignore it from the start, and no
  coroutine of theirs changes that.
\<close>

definition ignores_sigpipe :: "'j process env \<Rightarrow> 'j process \<Rightarrow> bool" where
  "ignores_sigpipe E s \<longleftrightarrow> sigpipe_ignored s \<and> (\<forall>n t. sigpipe_ignored t \<longrightarrow> sigpipe_ignored (e_interfere E n t))"

locale writer =
  fixes op :: "byte list \<Rightarrow> ('j, sysret) task"
  assumes attempt: "ignores_sigpipe E s \<Longrightarrow>
    \<exists>r n' s'. run E (op buf) n s = (Done r, n', s') \<and> ignores_sigpipe E s' \<and> n' \<le> n + 3 \<and>
    stream_out (trace E (op buf) n s) = (if s_ret r = -1 then [] else take (written (length buf) r) buf)"
begin

lemma loop:
  assumes "sent \<le> length buf" and "ignores_sigpipe E s"
  shows "\<exists>r k n' s'. run E (write_loop op buf sent) n s = (Done r, n', s') \<and>
     stream_out (trace E (write_loop op buf sent) n s) = take k (drop sent buf) \<and>
     sent + k \<le> length buf \<and> (r = -1 \<or> r = int (sent + k)) \<and>
     n' \<le> n + 3 * max 1 (length buf - sent)"
  using assms
proof (induction "length buf - sent" arbitrary: sent n s rule: less_induct)
  case less
  obtain r n1 s1 where op: "run E (op (drop sent buf)) n s = (Done r, n1, s1)" "n1 \<le> n + 3"
    and quiet: "ignores_sigpipe E s1" and out:
    "stream_out (trace E (op (drop sent buf)) n s) =
       (if s_ret r = -1 then [] else take (written (length buf - sent) r) (drop sent buf))"
    using attempt [OF less.prems(2), of "drop sent buf" n] by auto
  let ?w = "written (length buf - sent) r"
  have w: "sent + ?w \<le> length buf" using written_le [of "length buf - sent" r] less.prems by simp
  show ?case
  proof (cases "s_ret r \<noteq> -1 \<and> ?w \<noteq> 0 \<and> sent + ?w < length buf")
    case True
    then have "length buf - (sent + ?w) < length buf - sent" by linarith
    from less.hyps [OF this w quiet, of n1] obtain q k n' s' where IH:
      "run E (write_loop op buf (sent + ?w)) n1 s1 = (Done q, n', s')"
      "stream_out (trace E (write_loop op buf (sent + ?w)) n1 s1) = take k (drop (sent + ?w) buf)"
      "sent + ?w + k \<le> length buf" "q = -1 \<or> q = int (sent + ?w + k)"
      "n' \<le> n1 + 3 * max 1 (length buf - (sent + ?w))"
      by blast
    have "n' \<le> n + 3 * max 1 (length buf - sent)" using IH(5) op(2) True by auto
    moreover have "run E (write_loop op buf sent) n s = (Done q, n', s')"
      using True op(1) IH(1) by (subst write_loop.simps) (simp add: run_bind Let_def)
    moreover have "stream_out (trace E (write_loop op buf sent) n s) = take (?w + k) (drop sent buf)"
      using True op out IH(2)
      by (subst write_loop.simps) (simp add: trace_bind Let_def take_add add.commute [of sent])
    ultimately show ?thesis using IH(3,4) by (auto simp: add.assoc intro!: exI [of _ "?w + k"])
  next
    case False
    then have "run E (write_loop op buf sent) n s =
        (if s_ret r = -1 then (Done (-1), n1, s1) else (Done (int (sent + ?w)), n1, s1))"
      using op(1) by (subst write_loop.simps) (auto simp: run_bind Let_def)
    moreover have "stream_out (trace E (write_loop op buf sent) n s) =
        take (if s_ret r = -1 then 0 else ?w) (drop sent buf)"
      using False op out by (subst write_loop.simps) (auto simp: trace_bind Let_def)
    ultimately show ?thesis using op(2) w less.prems
      by (auto intro!: exI [of _ "if s_ret r = -1 then 0 else ?w"])
  qed
qed

end

subsection \<open>Sockets and pipes\<close>

lemmas attempt_simps = with_watch_def watch_defs set_next_io_def await_suspend_def await_resume_def
  suspend_def on_fd_def io_of_def co_simps run_bind trace_bind

interpretation sock_in: reader "RecvOperation a"
  by unfold_locales
    (auto simp: RecvOperation_def RecvOperation_syscall_def attempt_simps shouldWait_def)

interpretation pipe_in: reader "ReadOp a"
  by unfold_locales (auto simp: ReadOp_def ReadOp_syscall_def attempt_simps shouldWait_def)

interpretation sock_out: writer "SendOperation a"
  by unfold_locales
    (auto simp: SendOperation_def SendOperation_syscall_def raise_sigpipe_def attempt_simps shouldWait_def
      ignores_sigpipe_def addPendingOp_def)

interpretation pipe_out: writer "WriteOp a"
  by unfold_locales
    (auto simp: WriteOp_def WriteOp_syscall_def raise_sigpipe_def attempt_simps shouldWait_def
      ignores_sigpipe_def addPendingOp_def)

subsection \<open>For every interference\<close>

text \<open>The same bounds under \<open>wp\<close>, for clients that reason about all environments at once.\<close>

lemma wp_read_loop:
  assumes "\<And>k s. wp R H (op k) (\<lambda>_ _. True) s" and "length acc \<le> len"
  shows "wp R H (read_loop op len acc) (\<lambda>(r, bs) _. length bs \<le> len \<and> (r = -1 \<or> r = int (length bs))) s"
  using assms(2)
proof (induction "len - length acc" arbitrary: acc s rule: less_induct)
  case (less acc s)
  have step: "len - length (acc @ c) < len - length acc" if "c \<noteq> []" "length (acc @ c) < len" for c :: "byte list"
    using that by (cases c) auto
  have room: "length (acc @ received (len - length acc) r) \<le> len" for r
    using length_received [of "len - length acc" r] less.prems by simp
  have "wp R H (op (len - length acc)) (\<lambda>r. wp R H
      (if s_ret r = -1 then Ret (-1, acc)
       else let chunk = received (len - length acc) r; acc' = acc @ chunk
         in if chunk \<noteq> [] \<and> length acc' < len then read_loop op len acc'
            else Ret (int (length acc'), acc'))
      (\<lambda>(r, bs) _. length bs \<le> len \<and> (r = -1 \<or> r = int (length bs)))) s"
    by (rule wp_conseq [OF assms(1)])
      (auto simp: Let_def less.prems room step simp del: length_append intro!: less.hyps)
  then show ?case by (subst read_loop.simps) simp
qed

lemma wp_write_loop:
  assumes "\<And>b s. wp R H (op b) (\<lambda>_ _. True) s" and "sent \<le> length buf"
  shows "wp R H (write_loop op buf sent) (\<lambda>r _. r = -1 \<or> (0 \<le> r \<and> r \<le> int (length buf))) s"
  using assms(2)
proof (induction "length buf - sent" arbitrary: sent s rule: less_induct)
  case (less sent s)
  have room: "sent + written (length buf - sent) r \<le> length buf"
    "int sent + int (written (length buf - sent) r) \<le> int (length buf)" for r
    using written_le [of "length buf - sent" r] less.prems by simp_all
  have "wp R H (op (drop sent buf)) (\<lambda>r. wp R H
      (if s_ret r = -1 then Ret (-1)
       else let n = written (length buf - sent) r; sent' = sent + n
         in if n \<noteq> 0 \<and> sent' < length buf then write_loop op buf sent' else Ret (int sent'))
      (\<lambda>r _. r = -1 \<or> (0 \<le> r \<and> r \<le> int (length buf)))) s"
    by (rule wp_conseq [OF assms(1)]) (auto simp: Let_def room less.prems intro!: less.hyps)
  then show ?case by (subst write_loop.simps) simp
qed

lemma wp_recv:
  "wp R H (AsyncSocket_recv a len) (\<lambda>(r, bs) _. length bs \<le> len \<and> (r = -1 \<or> r = int (length bs))) s"
  unfolding AsyncSocket_recv_def
  by (rule wp_read_loop) (auto simp: RecvOperation_def RecvOperation_syscall_def with_watch_def watch_defs
      set_next_io_def await_suspend_def await_resume_def suspend_def on_fd_def io_of_def co_defs)

lemma wp_send:
  assumes "\<And>t. \<not> sigpipe_ignored t \<Longrightarrow> H (Killed SIGPIPE) t"
  shows "wp R H (AsyncSocket_send a buf) (\<lambda>r _. r = -1 \<or> (0 \<le> r \<and> r \<le> int (length buf))) s"
  unfolding AsyncSocket_send_def
  by (rule wp_write_loop) (auto simp: SendOperation_def SendOperation_syscall_def raise_sigpipe_def assms
      with_watch_def watch_defs set_next_io_def await_suspend_def await_resume_def suspend_def on_fd_def io_of_def co_defs)

subsection \<open>Properties\<close>

text \<open>
  C25. \<open>AsyncSocket::recv\<close> and \<open>asyncRead\<close>, in any environment and whatever other coroutines do while
  they wait: they return, and what they have put into the buffer is, in order, exactly what the
  kernel delivered to them, never more than the buffer holds. The value returned is the number of
  these bytes or the failure value.
\<close>

theorem receive_stream:
  "(\<exists>r bs n' s'. run E (AsyncSocket_recv a len) n s = (Done (r, bs), n', s') \<and>
      bs = stream_in (trace E (AsyncSocket_recv a len) n s) \<and> length bs \<le> len \<and>
      (r = -1 \<or> r = int (length bs))) \<and>
   (\<exists>r bs n' s'. run E (asyncRead a len) n s = (Done (r, bs), n', s') \<and>
      bs = stream_in (trace E (asyncRead a len) n s) \<and> length bs \<le> len \<and>
      (r = -1 \<or> r = int (length bs)))"
  using sock_in.loop [of E a len "[]" n s] pipe_in.loop [of E a len "[]" n s]
  by (auto simp: AsyncSocket_recv_def asyncRead_def)

text \<open>
  C26. \<open>AsyncSocket::send\<close> and \<open>asyncWrite\<close> in a process that ignores \<open>SIGPIPE\<close>: they return, and what the
  kernel accepted from them is a prefix of the buffer, whose length they report unless they fail. In
  particular a transfer that reports the length of the buffer has sent all of it.
\<close>

theorem send_stream:
  assumes "ignores_sigpipe E s"
  shows "(\<exists>r n' s'. run E (AsyncSocket_send a buf) n s = (Done r, n', s') \<and>
      (\<exists>k \<le> length buf. stream_out (trace E (AsyncSocket_send a buf) n s) = take k buf \<and>
         (r = -1 \<or> r = int k))) \<and>
   (\<exists>r n' s'. run E (asyncWrite a buf) n s = (Done r, n', s') \<and>
      (\<exists>k \<le> length buf. stream_out (trace E (asyncWrite a buf) n s) = take k buf \<and>
         (r = -1 \<or> r = int k)))"
  using sock_out.loop [OF _ assms, of 0 buf a n] pipe_out.loop [OF _ assms, of 0 buf a n]
  by (auto simp: AsyncSocket_send_def asyncWrite_def)

text \<open>
  C27. The transfer loops end, with \<open>SIGPIPE\<close> ignored: a transfer of \<open>k\<close> bytes returns after at most
  \<open>3 * max 1 k\<close> system calls and suspensions, however little each of them moves. A closed connection, which moves nothing,
  ends the loop at once, so that it never spins.
\<close>

theorem transfer_terminates:
  assumes "ignores_sigpipe E s"
  shows "(\<exists>r n' s'. run E (AsyncSocket_recv a len) n s = (Done r, n', s') \<and> n' \<le> n + 3 * max 1 len) \<and>
   (\<exists>r n' s'. run E (asyncRead a len) n s = (Done r, n', s') \<and> n' \<le> n + 3 * max 1 len) \<and>
   (\<exists>r n' s'. run E (AsyncSocket_send a buf) n s = (Done r, n', s') \<and> n' \<le> n + 3 * max 1 (length buf)) \<and>
   (\<exists>r n' s'. run E (asyncWrite a buf) n s = (Done r, n', s') \<and> n' \<le> n + 3 * max 1 (length buf))"
  using sock_in.loop [of E a len "[]" n s] pipe_in.loop [of E a len "[]" n s]
    sock_out.loop [OF _ assms, of 0 buf a n] pipe_out.loop [OF _ assms, of 0 buf a n]
  by (auto simp: AsyncSocket_recv_def asyncRead_def AsyncSocket_send_def asyncWrite_def)

subsection \<open>Witnesses\<close>

text \<open>A connection that moves one byte at a time, in a process that ignores \<open>SIGPIPE\<close>.\<close>

definition demo_slow_env :: "'s env" where
  "demo_slow_env = \<lparr>e_call = (\<lambda>_ _. (sys_value 1)\<lparr>s_bytes := [7]\<rparr>), e_interfere = (\<lambda>_ s. s)\<rparr>"

definition demo_quiet :: "unit process" where
  "demo_quiet = \<lparr>mStates = [], mTypeConf = [], isPeer = True,
     mIoContext = \<lparr>mEpollFD = 3, mManagedFD = [(5, 0)], aheap = [0 \<mapsto> afd_new 5], next_address = 1\<rparr>,
     sigpipe_ignored = True, running = 0\<rparr>"

lemma demo_quiet_ignores: "ignores_sigpipe demo_slow_env demo_quiet"
  by (simp add: ignores_sigpipe_def demo_slow_env_def demo_quiet_def)

theorem send_stream_witness:
  "\<exists>r n' s'. run demo_slow_env (AsyncSocket_send 0 [1, 2, 3]) 0 demo_quiet = (Done r, n', s') \<and>
     (\<exists>k \<le> 3. stream_out (trace demo_slow_env (AsyncSocket_send 0 [1, 2, 3]) 0 demo_quiet) = take k [1, 2, 3] \<and>
       (r = -1 \<or> r = int k))"
  using send_stream [OF demo_quiet_ignores, of 0 "[1, 2, 3]" 0] by (simp add: numeral_3_eq_3)

theorem transfer_terminates_witness:
  "\<exists>r n' s'. run demo_slow_env (asyncWrite 0 [1, 2, 3]) 0 demo_quiet = (Done r, n', s') \<and> n' \<le> 9"
  using transfer_terminates [OF demo_quiet_ignores, of 0 0 0 "[1, 2, 3]"] by simp

end
