(* ===== verification/WireSafety.thy ===== *)
theory WireSafety
  imports WireProtocol TransferLoops
begin

text \<open>
  What the wire protocol promises against a peer that does not follow it: the bounds of a
  received message, the rejection of another protocol version by the server, and the one gap, a
  client that takes a closed connection for a matching version.
\<close>

lemma wp_with_bandwidth:
  "(\<And>bw. wp R H (k bw) Q s) \<Longrightarrow> H (Trapped DivisionByZero) s \<Longrightarrow>
   wp R H (with_bandwidth b t0 t1 old k) Q s"
  by (simp add: with_bandwidth_def split: option.split)

lemma wp_after_recv:
  assumes "\<And>r bs t. length bs \<le> len \<Longrightarrow> r = -1 \<or> r = int (length bs) \<Longrightarrow> wp R H (f (r, bs)) Q t"
  shows "wp R H (co_bind (AsyncSocket_recv a len) f) Q s"
  unfolding wp_bind by (rule wp_conseq [OF wp_recv]) (auto intro: assms)

lemma wp_after_send:
  assumes "\<And>t. \<not> sigpipe_ignored t \<Longrightarrow> H (Killed SIGPIPE) t"
    and "\<And>r t. r = -1 \<or> (0 \<le> r \<and> r \<le> int (length buf)) \<Longrightarrow> wp R H (f r) Q t"
  shows "wp R H (co_bind (AsyncSocket_send a buf) f) Q s"
  unfolding wp_bind by (rule wp_conseq, rule wp_send) (auto intro: assms)

lemma wp_after_call: "(\<And>r. wp R H (f r) Q s) \<Longrightarrow> wp R H (co_bind (co_call q) f) Q s"
  by (simp add: co_call_def)

lemma wp_if: "(b \<Longrightarrow> wp R H c Q s) \<Longrightarrow> (\<not> b \<Longrightarrow> wp R H d Q s) \<Longrightarrow> wp R H (if b then c else d) Q s"
  by simp

lemma length_fill_zeros: "length bs \<le> n \<Longrightarrow> length (fill (replicate n 0) bs) = n"
  by (simp add: length_fill)

lemma store32_zero: "store32 le 0 = [0, 0, 0, 0]"
  by (simp add: store32_def be_bytes_def)

lemma version_seen:
  "length bs \<le> 4 \<Longrightarrow> length buf = 4 \<Longrightarrow>
   (WIRE_PROTO_VERSION = htonl le (load32 le (fill buf bs))) = (fill buf bs = be_bytes WIRE_PROTO_VERSION)"
  by (metis htonl_load32 length_fill be_bytes_value be_value_bytes)

lemma recv_length:
  assumes "run E (AsyncSocket_recv a len) n s = (Done (r, bs), n', s')"
  shows "length bs \<le> len"
  using sock_in.loop [of E a len "[]" n s] assms by (auto simp: AsyncSocket_recv_def)

lemma read_loop_sends_nothing:
  assumes "\<And>k n s. stream_out (trace E (op k) n s) = []"
  shows "stream_out (trace E (read_loop op len acc) n s) = []"
  using assms
proof (induction op len acc arbitrary: n s rule: read_loop.induct)
  case (1 op len acc)
  then show ?case
    by (subst read_loop.simps) (auto simp: trace_bind Let_def split: prod.split outcome.split)
qed

lemma recv_sends_nothing: "stream_out (trace E (AsyncSocket_recv a len) n s) = []"
  unfolding AsyncSocket_recv_def
  by (rule read_loop_sends_nothing) (auto simp: RecvOperation_def RecvOperation_syscall_def attempt_simps)

subsection \<open>Properties\<close>

text \<open>
  C15. Whatever a peer sends, and however the connection fails, the message that
  \<open>receiveNetworkMessage\<close> leaves behind is bounded: the type name has at most 128 bytes, the data
  at most one mebibyte. A message reported as received has a name and at least two bytes of data,
  and the byte count is at most that of the frame. The only ways in which the call can stop the
  process are the bandwidth estimate's division by zero and, where \<open>SIGPIPE\<close> is not ignored, that
  signal when the peer does not wait for the acknowledgement.
\<close>

theorem received_message_bounded:
  "wp R (\<lambda>h t. h = Trapped DivisionByZero \<or> (h = Killed SIGPIPE \<and> \<not> sigpipe_ignored t)) (receiveNetworkMessage X a st)
     (\<lambda>(n, msg, st') _. length (mTypeName msg) \<le> 128 \<and> length (mMsgData msg) \<le> 1024 * 1024 \<and>
        (n = -1 \<or> (1 \<le> length (mTypeName msg) \<and> 2 \<le> length (mMsgData msg) \<and>
          0 \<le> n \<and> n \<le> 5 + int (length (mTypeName msg)) + int (length (mMsgData msg))))) s"
  unfolding receiveNetworkMessage_def Let_def case_prod_beta
  by (intro wp_after_call wp_after_recv wp_after_send wp_if wp_with_bandwidth)
    (auto simp: co_fail_def length_fill_zeros DATA_TYPE_NAME_MAX_LENGHT_def DATA_MAX_LENGHT_def
      simp del: of_nat_unat)

text \<open>
  The server of a handshake, on a host of any byte order: when the four bytes it waits for,
  completed with zeros if the connection ends early, are not the protocol version most
  significant byte first, it reports a protocol error and has sent nothing.
\<close>

lemma server_rejects_version:
  assumes "run E (AsyncSocket_recv a 4) n s = (Done (r, bs), n1, s1)" and "r \<noteq> -1"
    and "fill [0, 0, 0, 0] bs \<noteq> [0, 0, 0, 1]"
  shows "run E (with_errc (serverHandShake X a st) None) n s =
      (Done ((False, st), Some errc_protocol_error), n1, s1) \<and>
    stream_out (trace E (serverHandShake X a st) n s) = []"
proof -
  have "be_bytes WIRE_PROTO_VERSION = [0, 0, 0, 1]" by (simp add: be_bytes_def WIRE_PROTO_VERSION_def)
  with assms recv_length [OF assms(1)]
  have other: "WIRE_PROTO_VERSION \<noteq> htonl le (load32 le (fill (store32 le 0) bs))" for le
    by (simp add: version_seen store32_zero)
  obtain e where "run E (with_errc (AsyncSocket_recv a 4) None) n s = (Done ((r, bs), e), n1, s1)"
    using run_with_errc [of E "AsyncSocket_recv a 4" None n s] assms(1) by auto
  with other assms(1,2) show ?thesis
    by (simp add: serverHandShake_def Let_def with_errc_bind run_bind trace_bind recv_sends_nothing co_fail_def)
qed

text \<open>
  C33. The client of a handshake receives the version of the server over its own, so that it sees
  what arrived completed with the rest of what it sent: it accepts exactly the prefixes of its
  own version, the empty one included. A server that closes the connection instead of answering
  passes, anything else is a protocol error.
\<close>

theorem client_version_check:
  assumes "run E (AsyncSocket_send a [0, 0, 0, 1]) (Suc n) s = (Done r1, n1, s1)" and "r1 \<noteq> -1"
    and "run E (AsyncSocket_recv a 4) n1 s1 = (Done (r2, bs), n2, s2)" and "r2 \<noteq> -1"
    and "run E (AsyncSocket_send a (store32 (x_little_endian X) 1)) (Suc n2) s2 = (Done r3, n3, s3)"
    and "r3 \<noteq> -1"
  shows "if bs = take (length bs) [0, 0, 0, 1]
    then \<exists>st'. run E (clientHandShake X a st) n s = (Done (True, st'), n3, s3)
    else run E (with_errc (clientHandShake X a st) None) n s =
      (Done ((False, st), Some errc_protocol_error), Suc n2, s2)"
proof -
  have v: "be_bytes WIRE_PROTO_VERSION = [0, 0, 0, 1]" "store32 le (htonl le WIRE_PROTO_VERSION) = [0, 0, 0, 1]" for le
    by (simp_all add: store32_htonl be_bytes_def WIRE_PROTO_VERSION_def)
  have len: "length bs \<le> 4" using recv_length [OF assms(3)] .
  then have "fill [0, 0, 0, 1 :: byte] bs = [0, 0, 0, 1] \<longleftrightarrow> bs = take (length bs) [0, 0, 0, 1]"
    by (metis append_eq_conv_conj append_take_drop_id fill_def)
  with version_seen [OF len, of "[0, 0, 0, 1]"] v(1)
  have seen: "(WIRE_PROTO_VERSION = htonl le (load32 le (fill [0, 0, 0, 1] bs))) =
      (bs = take (length bs) [0, 0, 0, 1])" for le by simp
  obtain e1 where e1: "run E (with_errc (AsyncSocket_send a [0, 0, 0, 1]) None) (Suc n) s = (Done (r1, e1), n1, s1)"
    using run_with_errc [of E "AsyncSocket_send a [0, 0, 0, 1]" None "Suc n" s] assms(1) by auto
  obtain e2 where e2: "run E (with_errc (AsyncSocket_recv a 4) e1) n1 s1 = (Done ((r2, bs), e2), n2, s2)"
    using run_with_errc [of E "AsyncSocket_recv a 4" e1 n1 s1] assms(3) by auto
  show ?thesis
  proof (cases "bs = take (length bs) [0, 0, 0, 1]")
    case True
    then have "htonl le (load32 le (fill [0, 0, 0, 1] bs)) = WIRE_PROTO_VERSION" for le using seen by metis
    moreover have "run E (AsyncSocket_send a (store32 (x_little_endian X) WIRE_PROTO_VERSION)) (Suc n2) s2 = (Done r3, n3, s3)"
      using assms(5) by (simp add: WIRE_PROTO_VERSION_def)
    ultimately show ?thesis
      using True assms(1-4,6) by (simp add: clientHandShake_def Let_def run_bind co_call_def v)
  next
    case False
    with seen assms e1 e2 show ?thesis
      by (simp add: clientHandShake_def Let_def with_errc_bind run_bind co_call_def v co_fail_def)
  qed
qed

subsection \<open>Witnesses\<close>

text \<open>A connection on which every receive delivers the given bytes and every send succeeds.\<close>

definition demo_peer_env :: "byte list \<Rightarrow> 's env" where
  "demo_peer_env bs = \<lparr>e_call = (\<lambda>_ q. case q of
       SysRecv _ n \<Rightarrow> (sys_value (int (length (take n bs))))\<lparr>s_bytes := take n bs\<rparr>
     | SysSend _ buf \<Rightarrow> sys_value (int (length buf))
     | _ \<Rightarrow> sys_value 0), e_interfere = (\<lambda>_ s. s)\<rparr>"

lemma demo_peer_recv:
  "\<exists>s'. run (demo_peer_env bs) (AsyncSocket_recv a 4) n s = (Done (int (length bs), bs), Suc n, s')"
  if "length bs \<in> {0, 4}"
  using that
  by (auto simp: AsyncSocket_recv_def read_loop.simps RecvOperation_def RecvOperation_syscall_def attempt_simps
      demo_peer_env_def shouldWait_def sys_value_def received_def)

lemma demo_peer_send:
  "\<exists>s'. run (demo_peer_env bs) (AsyncSocket_send a buf) n s = (Done (int (length buf)), Suc n, s')"
  by (auto simp: AsyncSocket_send_def write_loop.simps SendOperation_def SendOperation_syscall_def attempt_simps
      raise_sigpipe_def
      demo_peer_env_def shouldWait_def sys_value_def written_def Let_def)

definition demo_side :: "json process" where
  "demo_side = \<lparr>mStates = [], mTypeConf = [], isPeer = True,
     mIoContext = \<lparr>mEpollFD = 3, mManagedFD = [(5, 0)], aheap = [0 \<mapsto> afd_new 5], next_address = 1\<rparr>,
     sigpipe_ignored = True, running = 0\<rparr>"

text \<open>The server closed the connection; the client goes on.\<close>

theorem client_version_check_witness:
  "\<exists>st' n3 s3. run (demo_peer_env []) (clientHandShake (ref_ext ''a'') 0 NetworkStats_default) 0 demo_side =
     (Done (True, st'), n3, s3)"
proof -
  obtain s1 where s1: "run (demo_peer_env []) (AsyncSocket_send 0 [0, 0, 0, 1]) (Suc 0) demo_side = (Done 4, 2, s1)"
    using demo_peer_send [of "[]" 0 "[0, 0, 0, 1]" 1 demo_side] by (auto simp: numeral_2_eq_2)
  obtain s2 where s2: "run (demo_peer_env []) (AsyncSocket_recv 0 4) 2 s1 = (Done (0, []), 3, s2)"
    using demo_peer_recv [of "[]" 0 2 s1] by auto
  obtain s3 where s3: "run (demo_peer_env []) (AsyncSocket_send 0 (store32 (x_little_endian (ref_ext ''a'')) 1)) (Suc 3) s2
      = (Done 4, 5, s3)"
    using demo_peer_send [of "[]" 0 "store32 (x_little_endian (ref_ext ''a'')) 1" 4 s2] by auto
  from client_version_check [OF s1 _ s2 _ s3, where st = NetworkStats_default] show ?thesis by auto
qed

end
