(* ===== verification/Descriptors.thy ===== *)
theory Descriptors
  imports SyncSession TransferLoops
begin

text \<open>
  The life of a descriptor object: closing it leaves the table of the I/O context and the object
  consistent, the objects of accepted connections are closed when the code lets go of them, and
  what is left open when starting a listener or a command fails.
\<close>

subsection \<open>Rules\<close>

text \<open>An invariant that a coroutine keeps, and the others do not break, holds when it returns.\<close>

definition rely_ok :: "('s \<Rightarrow> 's \<Rightarrow> bool) \<Rightarrow> ('s \<Rightarrow> bool) \<Rightarrow> bool" where
  "rely_ok R I \<longleftrightarrow> (\<forall>s s'. I s \<longrightarrow> R s s' \<longrightarrow> I s')"

lemma wp_keep:
  "co_keeps (\<lambda>_::unit. I) c \<Longrightarrow> rely_ok R I \<Longrightarrow> I s \<Longrightarrow> (\<And>a t. I t \<Longrightarrow> Q a t) \<Longrightarrow> wp R (\<lambda>_ _. True) c Q s"
  by (rule wp_conseq [of _ _ _ "\<lambda>_. I"]) (auto simp: rely_ok_def intro: co_keeps_wp)

lemma wp_keep_bind:
  "co_keeps (\<lambda>_::unit. I) c \<Longrightarrow> rely_ok R I \<Longrightarrow> I s \<Longrightarrow> (\<And>a t. I t \<Longrightarrow> wp R (\<lambda>_ _. True) (f a) Q t) \<Longrightarrow>
   wp R (\<lambda>_ _. True) (co_bind c f) Q s"
  unfolding wp_bind by (rule wp_keep)

lemma wp_cond:
  "(b \<Longrightarrow> wp R H c Q s) \<Longrightarrow> (\<not> b \<Longrightarrow> wp R H d Q s) \<Longrightarrow> wp R H (if b then c else d) Q s"
  by simp

lemma wp_case_prod:
  "(\<And>a b. x = (a, b) \<Longrightarrow> wp R H (f a b) Q s) \<Longrightarrow> wp R H (case x of (a, b) \<Rightarrow> f a b) Q s"
  by (simp split: prod.split)

lemma wp_case_prod_applied:
  "(\<And>a b. x = (a, b) \<Longrightarrow> wp R H (f a b y) Q s) \<Longrightarrow> wp R H ((case x of (a, b) \<Rightarrow> f a b) y) Q s"
  by (simp split: prod.split)

lemma wp_case_option:
  "(x = None \<Longrightarrow> wp R H c Q s) \<Longrightarrow> (\<And>a. x = Some a \<Longrightarrow> wp R H (f a) Q s) \<Longrightarrow>
   wp R H (case x of None \<Rightarrow> c | Some a \<Rightarrow> f a) Q s"
  by (simp split: option.split)

lemma wp_halt: "wp R (\<lambda>_ _. True) (Halt h) Q s"
  by simp

lemmas wp_rules = wp_cond wp_case_prod wp_case_prod_applied wp_case_option wp_halt

lemma wp_get: "wp R H (f s) Q s \<Longrightarrow> wp R H (co_bind co_get f) Q s"
  by (simp add: co_get_def)

lemma io_wf_app: "app_free (\<lambda>_ s. io_wf (mIoContext s))"
  by (simp add: app_free_def)

subsection \<open>Closed objects\<close>

definition is_closed :: "nat \<Rightarrow> 'j process \<Rightarrow> bool" where
  "is_closed a s \<longleftrightarrow> (\<exists>x. get_afd s a = Some x \<and> mFD x = -1)"

text \<open>A closed object stays closed: no operation gives an object another descriptor.\<close>

lemma closed_safe: "io_safe (\<lambda>_ s. io_wf (mIoContext s) \<and> is_closed a s)"
proof -
  have "is_closed a (new_afd fd s)" if "io_wf (mIoContext s)" "is_closed a s" for fd and s :: "'j process"
  proof -
    have "a \<noteq> next_address (mIoContext s)"
      using that io_wf_fresh [OF that(1), of a] by (auto simp: is_closed_def get_afd_def)
    with that show ?thesis by (auto simp: is_closed_def get_afd_def new_afd_def Let_def)
  qed
  moreover have "is_closed a (update_afd r f s)" if "is_closed a s" "\<forall>x. mFD (f x) = mFD x" for r f and s :: "'j process"
    using that by (auto simp: is_closed_def)
  moreover have "is_closed a (drop_managed b fd s)" if "is_closed a s" for b fd and s :: "'j process"
    using that by (auto simp: is_closed_def drop_managed_def Let_def get_afd_def update_afd_def)
  ultimately show ?thesis
    by (auto simp: io_safe_def io_wf_update_afd io_wf_new_afd io_wf_drop_managed)
qed

lemma closed_app: "app_free (\<lambda>_ s. io_wf (mIoContext s) \<and> is_closed a s)"
  by (simp add: app_free_def is_closed_def get_afd_def)

lemma managed_fd:
  "io_wf (mIoContext s) \<Longrightarrow> smap_find (mManagedFD (mIoContext s)) fd = Some a \<Longrightarrow>
   \<exists>x. get_afd s a = Some x \<and> mFD x = fd \<and> fd_of s a = fd"
  using io_wf_managed [of "mIoContext s" fd a] by (auto simp: fd_of_def get_afd_def)

lemma closed_drop:
  "io_wf (mIoContext s) \<Longrightarrow> smap_find (mManagedFD (mIoContext s)) fd = Some a \<Longrightarrow>
   is_closed a (drop_managed a fd s)"
  using io_wf_managed [of "mIoContext s" fd a]
  by (auto simp: is_closed_def drop_managed_def Let_def get_afd_def update_afd_def)

text \<open>After the cleanup of a session the socket is closed, or the process has stopped.\<close>

lemma wp_close:
  "io_wf (mIoContext s) \<Longrightarrow>
   wp R (\<lambda>_ _. True) (or_exit (closeAFD (Some a))) (\<lambda>_ t. io_wf (mIoContext t) \<and> is_closed a t) s"
  unfolding closeAFD_def CloseOperation_eq
  by (auto simp: co_simps io_of_def or_exit_bind with_errc_bind closed_drop io_wf_drop_managed
      split: option.split)

lemma wp_clean_socket:
  assumes wf: "io_wf (mIoContext s)"
    and R: "rely_ok R (\<lambda>s. io_wf (mIoContext s) \<and> is_closed a s)"
    and rest: "co_keeps (\<lambda>_::unit. \<lambda>s. io_wf (mIoContext s) \<and> is_closed a s) d"
  shows "wp R (\<lambda>_ _. True) (co_then (clean_socket a) d) (\<lambda>_. is_closed a) s"
  unfolding co_then_def clean_socket_def wp_bind
  by (rule wp_conseq [OF wp_close [OF wf]]) (simp, rule wp_keep [OF rest R], auto)

text \<open>
  A connection attempt makes its object at the next free address; when it gives the object up, the
  object is closed.
\<close>

lemma wp_connect:
  fixes s :: "'j process"
  assumes wf: "io_wf (mIoContext s)" and a: "a = next_address (mIoContext s)"
    and R: "rely_ok R (\<lambda>s. io_wf (mIoContext s))"
    and connected: "\<And>t. io_wf (mIoContext t) \<Longrightarrow> wp R (\<lambda>_ _. True) (f (Some a)) Q t"
    and failed: "\<And>t. io_wf (mIoContext t) \<Longrightarrow> get_afd t a = None \<or> is_closed a t \<Longrightarrow>
        wp R (\<lambda>_ _. True) (f None) Q t"
  shows "wp R (\<lambda>_ _. True) (co_bind (ConnectingSocket_connect X peer) f) Q s"
proof -
  have tail: "wp R (\<lambda>_ _. True) (ConnectOperation X a peer) (\<lambda>r. wp R (\<lambda>_ _. True)
      (if s_ret r = -1 then co_then (or_exit (closeAFD (Some a))) (Ret None) else Ret (Some a))
      (\<lambda>sock. wp R (\<lambda>_ _. True) (f sock) Q)) t" if "io_wf (mIoContext t)" for t
  proof (rule wp_keep [where I = "\<lambda>s. io_wf (mIoContext s)"])
    fix r and t :: "'j process" assume t: "io_wf (mIoContext t)"
    have "wp R (\<lambda>_ _. True) (co_then (or_exit (closeAFD (Some a))) (Ret None)) (\<lambda>sock. wp R (\<lambda>_ _. True) (f sock) Q) t"
      unfolding co_then_def wp_bind by (rule wp_conseq [OF wp_close [OF t]]) (simp add: failed)
    with connected [OF t] show "wp R (\<lambda>_ _. True)
        (if s_ret r = -1 then co_then (or_exit (closeAFD (Some a))) (Ret None) else Ret (Some a))
        (\<lambda>sock. wp R (\<lambda>_ _. True) (f sock) Q) t"
      by simp
  qed (intro keeps io_safe_blind io_wf_safe R that)+
  have "get_afd s a = None" using io_wf_fresh [OF wf, of a] by (simp add: a get_afd_def)
  with failed [OF wf] tail show ?thesis
    unfolding ConnectingSocket_connect_def registerFD_def attachWriteOnly_def attach_with_def co_bind_assoc
    by (auto simp: co_simps or_exit_bind io_of_def io_wf_new_afd [OF wf] io_wf_update_afd simp flip: a)
qed

lemma wp_touch_state:
  "io_wf (mIoContext s) \<Longrightarrow> (\<And>t. io_wf (mIoContext t) \<Longrightarrow> wp R H d Q t) \<Longrightarrow>
   wp R H (co_then (co_update (\<lambda>s. s\<lparr>mStates := f s\<rparr>)) d) Q s"
  by (simp add: co_then_def co_update_def)

lemma run_closeAFD:
  assumes wf: "io_wf (mIoContext s)" and fd: "smap_find (mManagedFD (mIoContext s)) fd = Some a"
    and del: "s_ret (e_call E n (SysEpollDel (mEpollFD (mIoContext s)) fd)) \<noteq> -1"
    and close: "s_ret (e_call E (Suc n) (SysClose fd)) = 0"
  shows "run E (closeAFD (Some a)) n s = (Done True, n + 2, drop_managed a fd s)"
  using managed_fd [OF wf fd] fd del close
  by (auto simp: closeAFD_def CloseOperation_eq io_of_def co_simps with_errc_bind shouldWait_def)

lemma drop_managed_simps:
  "smap_find (mManagedFD (mIoContext (drop_managed a fd s))) fd' =
     (if fd' = fd then None else smap_find (mManagedFD (mIoContext s)) fd')"
  "mEpollFD (mIoContext (drop_managed a fd s)) = mEpollFD (mIoContext s)"
  "get_afd (drop_managed a fd s) r =
     (if r = a then map_option (\<lambda>x. x\<lparr>mFD := -1\<rparr>) (get_afd s a) else get_afd s r)"
  by (simp_all add: drop_managed_def Let_def smap_find_erase get_afd_def update_afd_def)

subsection \<open>Starting commands\<close>

lemma trace_close_all:
  "run E (close_all fds) n s = (Done (), n + length fds, s)"
  "closed_fds (trace E (close_all fds) n s) = set fds" "opened_fds (trace E (close_all fds) n s) = {}"
  by (induction fds arbitrary: n) (auto simp: co_simps)

text \<open>Once the process descriptor is open the parent returns the command or does not return.\<close>

lemma execute_parent_none:
  assumes "run E (execute_parent pid cr cw pr pw) n s = (Done None, n', s')"
  shows "s_ret (e_call E n (SysPidfdOpen pid)) = -1"
proof (rule ccontr)
  assume ok: "s_ret (e_call E n (SysPidfdOpen pid)) \<noteq> -1"
  define rest where "rest = (\<lambda>fd. co_bind (or_exit (registerFD fd)) (\<lambda>tPac.
         co_then (attach tPac)
         (co_then (set_command tPac (\<lambda>a. a\<lparr>mProcessId := pid\<rparr>))
         (co_bind (or_exit (registerFD pr)) (\<lambda>tOut.
         co_then (set_command tPac (\<lambda>a. a\<lparr>mStdOut := tOut\<rparr>))
         (co_then (attachReadonly tOut)
         (co_bind (or_exit (registerFD pw)) (\<lambda>tIn.
         co_then (set_command tPac (\<lambda>a. a\<lparr>mStdIn := tIn\<rparr>))
         (co_then (attachWriteOnly tIn)
         (co_then (close_all [cr, cw]) (Ret tPac)))))))))) :: ('a, nat option) task)"
  have "wp (\<lambda>_ _. True) (\<lambda>_ _. True) (rest fd) (\<lambda>r _. r \<noteq> None) s" for fd s
    by (auto simp: rest_def co_simps registerFD_def attach_def attachReadonly_def attachWriteOnly_def
        attach_with_def set_command_def or_exit_bind io_of_def split: option.split)
  from wp_run [OF this, of E "s_ret (e_call E n (SysPidfdOpen pid))" "Suc n" s] assms ok
  show False unfolding rest_def execute_parent_def by (simp add: co_call_def)
qed

subsection \<open>Properties\<close>

text \<open>
  C10. However a session that a peer opened ends, be it by a refused handshake, a malformed message,
  an unknown type, a lost connection or by success: when \<open>handleReqSyncConnection\<close> returns, the
  object of the accepted socket is closed, so that its destructor does not end the daemon. This
  holds for all answers of the operating system and whatever other coroutines do meanwhile, as
  long as they keep the table of descriptors well-formed and closed objects closed.
\<close>

theorem accepted_socket_closed:
  assumes wf: "io_wf (mIoContext s)" and R: "rely_ok R (\<lambda>s. io_wf (mIoContext s))"
    and Rc: "rely_ok R (\<lambda>s. io_wf (mIoContext s) \<and> is_closed a s)"
  shows "wp R (\<lambda>_ _. True) (handleReqSyncConnection X a) (\<lambda>_. is_closed a) s"
  unfolding handleReqSyncConnection_def
  by (rule wp_keep_bind [where I = "\<lambda>s. io_wf (mIoContext s)"] wp_rules wp_clean_socket wp_touch_state
      | intro keeps closed_safe io_wf_safe io_safe_blind app_free_merge io_wf_app R Rc wf
      | assumption)+

text \<open>
  C11. The other side: however \<open>syncWithPeer\<close> ends, be it that the peer cannot be reached, refuses the
  version, sends a malformed or unknown message, closes the connection early, or by success, the
  object of the socket it opened, if it got that far, is closed when it returns. The object is the
  one at the first free address at the start.
\<close>

theorem connected_socket_closed:
  assumes wf: "io_wf (mIoContext s)" and a: "a = next_address (mIoContext s)"
    and R: "rely_ok R (\<lambda>s. io_wf (mIoContext s))"
    and Rc: "rely_ok R (\<lambda>s. io_wf (mIoContext s) \<and> is_closed a s)"
  shows "wp R (\<lambda>_ _. True) (syncWithPeer X ty peer) (\<lambda>_ t. get_afd t a = None \<or> is_closed a t) s"
proof -
  have fresh: "get_afd s a = None" using io_wf_fresh [OF wf, of a] by (simp add: a get_afd_def)
  have close: "wp R (\<lambda>_ _. True) (co_then (clean_socket a) d) (\<lambda>_ t. get_afd t a = None \<or> is_closed a t) t"
    if "io_wf (mIoContext t)" "co_keeps (\<lambda>_::unit. \<lambda>s. io_wf (mIoContext s) \<and> is_closed a s) d" for d t
    by (rule wp_conseq [OF wp_clean_socket [OF that(1) Rc that(2)]]) simp
  show ?thesis
    unfolding syncWithPeer_def
    by (rule wp_get, rule wp_case_option, simp add: fresh co_fail_def, rule wp_connect [OF wf a R],
        unfold option.case)
      (rule wp_keep_bind [where I = "\<lambda>s. io_wf (mIoContext s)"] wp_rules close
        | intro keeps closed_safe io_wf_safe io_safe_blind app_free_merge io_wf_app R Rc
        | assumption | simp)+
qed

text \<open>
  C28. Closing a managed object, on a well-formed table: exactly two calls, the removal from epoll
  and the \<open>close\<close> of its descriptor, and no suspension. Afterwards, whether or not \<open>close\<close> reported
  success, the descriptor is not managed any more, all others still are, the table is well-formed
  and the destructor of the object is harmless. Closing the object once more is reported as an
  error and makes no call.
\<close>

theorem close_releases:
  assumes wf: "io_wf (mIoContext s)" and fd: "smap_find (mManagedFD (mIoContext s)) fd = Some a"
    and del: "s_ret (e_call E n (SysEpollDel (mEpollFD (mIoContext s)) fd)) \<noteq> -1"
    and neg: "smap_find (mManagedFD (mIoContext s)) (-1) = None"
  shows "\<exists>ret s'. run E (closeAFD (Some a)) n s = (Done ret, n + 2, s') \<and>
      map fst (trace E (closeAFD (Some a)) n s) = [SysEpollDel (mEpollFD (mIoContext s)) fd, SysClose fd] \<and>
      smap_find (mManagedFD (mIoContext s')) fd = None \<and>
      (\<forall>fd'. fd' \<noteq> fd \<longrightarrow> smap_find (mManagedFD (mIoContext s')) fd' = smap_find (mManagedFD (mIoContext s)) fd') \<and>
      io_wf (mIoContext s') \<and> map_option afd_destructor (get_afd s' a) = Some None \<and>
      run E (with_errc (closeAFD (Some a)) None) k s' = (Done (False, Some errc_no_such_file_or_directory), k, s')"
proof -
  let ?s = "drop_managed a fd s"
  obtain x where x: "get_afd s a = Some x" "mFD x = fd" "fd_of s a = fd" using managed_fd [OF wf fd] by blast
  let ?r = "e_call E (Suc n) (SysClose fd)"
  have close: "\<exists>ret. run E (closeAFD (Some a)) n s = (Done ret, n + 2, ?s)"
    "map fst (trace E (closeAFD (Some a)) n s) = [SysEpollDel (mEpollFD (mIoContext s)) fd, SysClose fd]"
    using x fd del by (auto simp: closeAFD_def CloseOperation_eq io_of_def co_simps with_errc_bind sys_value_def)
  have managed: "smap_find (mManagedFD (mIoContext ?s)) fd' =
      (if fd' = fd then None else smap_find (mManagedFD (mIoContext s)) fd')" for fd'
    by (simp add: drop_managed_def Let_def smap_find_erase)
  have obj: "get_afd ?s a = Some (x\<lparr>mFD := -1\<rparr>)"
    using x(1) by (simp add: drop_managed_def Let_def get_afd_def update_afd_def)
  then have "run E (with_errc (closeAFD (Some a)) None) k ?s =
      (Done (False, Some errc_no_such_file_or_directory), k, ?s)"
    using managed [of "-1"] neg by (simp add: closeAFD_def io_of_def co_simps fd_of_def)
  moreover have "map_option afd_destructor (get_afd ?s a) = Some None"
    by (simp add: obj afd_destructor_def)
  ultimately show ?thesis using close managed io_wf_drop_managed [OF wf fd] by auto
qed

text \<open>
  C34. A command that cannot be started leaves nothing behind in the parent: when \<open>execute\<close> returns
  null, because a pipe, the fork or the process descriptor failed, every descriptor it opened has
  been closed. \<open>fork\<close> is taken to return \<open>-1\<close> or a child's number here, the side of the parent.
\<close>

theorem failed_command_leaks_nothing:
  assumes "\<And>i. s_ret (e_call E i SysFork) = -1 \<or> s_ret (e_call E i SysFork) > 0"
    and "run E (AsyncCommand_execute cmd) n s = (Done None, n', s')"
  shows "opened_fds (trace E (AsyncCommand_execute cmd) n s) \<subseteq>
    closed_fds (trace E (AsyncCommand_execute cmd) n s)"
proof -
  obtain cr pw pr cw where fds: "s_fds (e_call E n SysPipe) = (cr, pw)" "s_fds (e_call E (Suc n) SysPipe) = (pr, cw)"
    by fastforce
  let ?fork = "e_call E (Suc (Suc n)) SysFork"
  consider "s_ret (e_call E n SysPipe) = -1"
    | "s_ret (e_call E n SysPipe) \<noteq> -1" "s_ret (e_call E (Suc n) SysPipe) = -1"
    | "s_ret (e_call E n SysPipe) \<noteq> -1" "s_ret (e_call E (Suc n) SysPipe) \<noteq> -1" "s_ret ?fork = -1"
    | "s_ret (e_call E n SysPipe) \<noteq> -1" "s_ret (e_call E (Suc n) SysPipe) \<noteq> -1" "s_ret ?fork > 0"
    using assms(1) [of "Suc (Suc n)"] by blast
  then show ?thesis
  proof cases
    case 4
    with assms(2) fds have "run E (execute_parent (s_ret ?fork) cr cw pr pw) (Suc (Suc (Suc n))) s = (Done None, n', s')"
      by (simp add: AsyncCommand_execute_def co_call_def)
    from execute_parent_none [OF this] 4 fds show ?thesis
      by (auto simp: AsyncCommand_execute_def execute_parent_def co_simps trace_close_all simp del: close_all.simps)
  qed (use fds in \<open>auto simp: AsyncCommand_execute_def co_simps trace_close_all simp del: close_all.simps\<close>)
qed

text \<open>
  C38. A listener that cannot be set up, by contrast, leaves its socket open: when \<open>setsockopt\<close>,
  \<open>bind\<close> or \<open>listen\<close> fails, \<open>setupListener\<close> reports the error and returns null, and the socket it
  created is never closed.
\<close>

theorem failed_listener_leaks_socket:
  assumes "s_ret (e_call E n SysSocket) = fd" and "fd \<ge> 0"
    and "s_ret (e_call E (n + 1) (SysSetsockopt fd ''IPV6_V6ONLY'' 0)) \<ge> 0"
    and "s_ret (e_call E (n + 2) (SysSetsockopt fd ''SO_REUSEADDR'' 1)) \<ge> 0"
    and "s_ret (e_call E (n + 3) (SysBind fd port)) < 0"
  shows "run E (with_errc (setupListener port) None) n s =
      (Done (None, Some (FromErrno (s_errno (e_call E (n + 3) (SysBind fd port))))), n + 4, s) \<and>
    opened_fds (trace E (setupListener port) n s) = {fd} \<and>
    closed_fds (trace E (setupListener port) n s) = {}"
  using assms by (simp add: setupListener_def co_simps numeral_eq_Suc)

text \<open>
  C35. \<open>waitTermination\<close> of a command whose standard input was closed before and whose child has
  ended: it reaps the child, closes the pipe and the process descriptor, and leaves a command
  object whose destructor is harmless.
\<close>

theorem ended_command_released:
  assumes wf: "io_wf (mIoContext s)" and pac: "get_afd s pac = Some x" "mStdIn x = None" "mStdOut x = Some out"
    and managed: "smap_find (mManagedFD (mIoContext s)) (mFD x) = Some pac"
      "smap_find (mManagedFD (mIoContext s)) fd = Some out" "out \<noteq> pac"
    and child: "s_ret (e_call E n (SysWaitpidNohang (mProcessId x))) = mProcessId x" "mProcessId x > 0"
    and calls: "\<And>i ep fd. s_ret (e_call E i (SysEpollDel ep fd)) = 0" "\<And>i fd. s_ret (e_call E i (SysClose fd)) = 0"
  shows "\<exists>s'. run E (waitTermination pac) n s = (Done True, n + 5, s') \<and>
    map_option command_destructor (get_afd s' pac) = Some None \<and> is_closed out s' \<and>
    smap_find (mManagedFD (mIoContext s')) fd = None \<and> smap_find (mManagedFD (mIoContext s')) (mFD x) = None"
proof -
  define t1 where "t1 = update_afd pac (\<lambda>x. x\<lparr>mNextIOState := mNextIOState x AND NOT EPOLLIN\<rparr>)
     (update_afd pac (\<lambda>x. x\<lparr>mNextIOState := mNextIOState x OR EPOLLIN\<rparr>) s)"
  define t2 where "t2 = drop_managed out fd t1"
  define t3 where "t3 = update_afd pac (\<lambda>x. x\<lparr>mProcessId := -1\<rparr>) (update_afd pac (\<lambda>x. x\<lparr>mStdOut := None\<rparr>) t2)"
  have neq: "mFD x \<noteq> fd" using managed by auto
  have wf1: "io_wf (mIoContext t1)" unfolding t1_def by (intro io_wf_update_afd wf) simp_all
  have m1: "smap_find (mManagedFD (mIoContext t1)) f = smap_find (mManagedFD (mIoContext s)) f" for f
    by (simp add: t1_def)
  have wf2: "io_wf (mIoContext t2)" unfolding t2_def by (rule io_wf_drop_managed [OF wf1]) (simp add: m1 managed)
  have wf3: "io_wf (mIoContext t3)" unfolding t3_def by (intro io_wf_update_afd wf2) simp_all
  have m3: "smap_find (mManagedFD (mIoContext t3)) f = (if f = fd then None else smap_find (mManagedFD (mIoContext s)) f)" for f
    by (simp add: t3_def t2_def drop_managed_simps m1)
  have wait: "run E (WaitpidOperation pac) n s = (Done (e_call E n (SysWaitpidNohang (mProcessId x))), Suc n, t1)"
    using child pac(1) by (simp add: WaitpidOperation_def WaitpidOperation_syscall_def with_watch_def watch_defs
        set_next_io_def await_suspend_def io_of_def co_simps shouldWait_def t1_def)
  have "run E (closeAFD (Some out)) (Suc n) t1 = (Done True, Suc n + 2, t2)"
    unfolding t2_def by (rule run_closeAFD [OF wf1]) (simp_all add: m1 managed calls)
  moreover have "run E (closeAFD (Some pac)) (Suc (Suc (Suc n))) t3 =
      (Done True, n + 5, drop_managed pac (mFD x) t3)"
    using run_closeAFD [OF wf3, of "mFD x" pac E "Suc (Suc (Suc n))"] by (simp add: m3 managed calls neq)
  moreover have "std_in_of pac t1 = None" "std_out_of pac t1 = Some out"
    using pac by (simp_all add: std_in_of_def std_out_of_def t1_def)
  ultimately have "run E (closeAFD_AsyncCommand pac) (Suc n) t1 = (Done True, n + 5, drop_managed pac (mFD x) t3)"
    by (simp add: closeAFD_AsyncCommand_def closeStdOut_def io_of_def co_simps t3_def)
  with wait child pac(1) have done_: "run E (waitTermination pac) n s = (Done True, n + 5, drop_managed pac (mFD x) t3)"
    by (simp add: waitTermination_def io_of_def co_simps getPid_def)
  obtain y where "get_afd s out = Some y" using managed_fd [OF wf managed(2)] by blast
  then have "is_closed out (drop_managed pac (mFD x) t3)"
    using managed(3) by (simp add: is_closed_def drop_managed_simps t3_def t2_def t1_def)
  moreover have "map_option command_destructor (get_afd (drop_managed pac (mFD x) t3) pac) = Some None"
    using pac managed(3) by (simp add: drop_managed_simps t3_def t2_def t1_def command_destructor_def afd_destructor_def)
  ultimately show ?thesis using done_ by (simp add: drop_managed_simps m3)
qed

text \<open>
  C37. \<open>WaitpidOperation\<close> is declared multi-shot, meant to go on waiting when it is resumed before the
  child has ended. It does not: \<open>waitTermination\<close> then returns false, with no error to show for it
  and the command still open, and the handle of the coroutine stays in the queue of the object.
\<close>

theorem early_wakeup_gives_up:
  assumes pac: "get_afd s pac = Some x" "mProcessId x > 0"
    and child: "s_ret (e_call E n (SysWaitpidNohang (mProcessId x))) = 0"
      "s_ret (e_call E (n + 2) (SysWaitpidNohang (mProcessId x))) = 0"
    and quiet: "\<And>i t. e_interfere E i t = t"
  shows "\<exists>s'. run E (with_errc (waitTermination pac) None) n s = (Done (False, None), n + 3, s') \<and>
    getPid pac s' = mProcessId x \<and> fd_of s' pac = mFD x \<and>
    pending_ops pac s' = mPendigOps x @ [running s, running s]"
  using assms
  by (simp add: waitTermination_def WaitpidOperation_def WaitpidOperation_syscall_def with_watch_def watch_defs
      set_next_io_def await_suspend_def await_resume_def suspend_def addPendingOp_def io_of_def co_simps
      with_errc_bind getPid_def shouldWait_def sys_error_def sys_value_def EAGAIN_def fd_of_def pending_ops_def)

subsection \<open>Witnesses\<close>

text \<open>A process with a connection on descriptor 5, a command on 6 and its output pipe on 7.\<close>

definition demo_table :: iocontext where
  "demo_table = \<lparr>mEpollFD = 3, mManagedFD = [(5, 0), (6, 1), (7, 2)],
     aheap = [0 \<mapsto> afd_new 5, 1 \<mapsto> (afd_new 6)\<lparr>mProcessId := 42, mStdOut := Some 2\<rparr>, 2 \<mapsto> afd_new 7],
     next_address = 3\<rparr>"

definition demo_open :: "json process" where
  "demo_open = \<lparr>mStates = [], mTypeConf = [], isPeer = True, mIoContext = demo_table,
     sigpipe_ignored = True, running = 9\<rparr>"

definition demo_calm :: "'s env" where
  "demo_calm = \<lparr>e_call = (\<lambda>_ q. case q of
       SysWaitpidNohang pid \<Rightarrow> sys_value pid
     | SysSocket \<Rightarrow> sys_value 5
     | SysBind _ _ \<Rightarrow> sys_error 98
     | SysPipe \<Rightarrow> (sys_value 0)\<lparr>s_fds := (10, 11)\<rparr>
     | SysFork \<Rightarrow> sys_error 11
     | _ \<Rightarrow> sys_value 0), e_interfere = (\<lambda>_ s. s)\<rparr>"

lemma demo_table_wf: "io_wf (mIoContext demo_open)"
  by (rule io_wfI)
    (auto simp: demo_open_def demo_table_def smap_wf_def smap_find_def afd_new_def split: if_splits)

lemmas demo_open_simps = demo_open_def demo_table_def smap_find_def get_afd_def afd_new_def

lemma demo_calm_answers:
  "e_call demo_calm n (SysWaitpidNohang pid) = sys_value pid" "e_call demo_calm n SysSocket = sys_value 5"
  "e_call demo_calm n (SysBind fd port) = sys_error 98" "e_call demo_calm n SysFork = sys_error 11"
  "e_call demo_calm n SysPipe = (sys_value 0)\<lparr>s_fds := (10, 11)\<rparr>"
  "e_call demo_calm n (SysSetsockopt fd opt v) = sys_value 0" "e_call demo_calm n (SysClose fd) = sys_value 0"
  "e_call demo_calm n (SysEpollDel ep fd) = sys_value 0"
  "s_ret (sys_value v) = v" "s_ret (sys_error e) = -1" "s_errno (sys_error e) = e"
  by (simp_all add: demo_calm_def sys_value_def sys_error_def)

lemma demo_managed:
  "smap_find (mManagedFD (mIoContext demo_open)) 6 = Some 1"
  "smap_find (mManagedFD (mIoContext demo_open)) 7 = Some 2"
  "get_afd demo_open 1 = Some ((afd_new 6)\<lparr>mProcessId := 42, mStdOut := Some 2\<rparr>)"
  "smap_find (mManagedFD (mIoContext demo_open)) 5 = Some 0"
  "smap_find (mManagedFD (mIoContext demo_open)) (-1) = None"
  by (simp_all add: demo_open_simps)

theorem close_releases_witness:
  "\<exists>ret s'. run demo_calm (closeAFD (Some 0)) 0 demo_open = (Done ret, 2, s') \<and>
     smap_find (mManagedFD (mIoContext s')) 5 = None \<and> map_option afd_destructor (get_afd s' 0) = Some None"
proof -
  have "s_ret (e_call demo_calm 0 (SysEpollDel (mEpollFD (mIoContext demo_open)) 5)) \<noteq> -1"
    by (simp add: demo_calm_def sys_value_def)
  from close_releases [OF demo_table_wf _ this, of 0 0] demo_managed show ?thesis by auto
qed

theorem accepted_socket_closed_witness:
  "io_wf (mIoContext demo_open) \<and>
   wp (=) (\<lambda>_ _. True) (handleReqSyncConnection (ref_ext ''a'') 0) (\<lambda>_. is_closed 0) demo_open"
  using accepted_socket_closed [OF demo_table_wf, of "(=)" 0] demo_table_wf by (simp add: rely_ok_def)

theorem connected_socket_closed_witness:
  "wp (=) (\<lambda>_ _. True) (syncWithPeer (ref_ext ''a'') ''T'' (ipv4 10 0 0 1))
     (\<lambda>_ t. get_afd t 3 = None \<or> is_closed 3 t) demo_open"
  by (rule connected_socket_closed [OF demo_table_wf])
    (simp_all add: rely_ok_def demo_open_def demo_table_def)

theorem failed_command_leaks_nothing_witness:
  "\<exists>n' s'. run demo_calm (AsyncCommand_execute ''true'') 0 demo_open = (Done None, n', s') \<and>
     opened_fds (trace demo_calm (AsyncCommand_execute ''true'') 0 demo_open) \<subseteq>
     closed_fds (trace demo_calm (AsyncCommand_execute ''true'') 0 demo_open)"
proof -
  have "\<exists>n' s'. run demo_calm (AsyncCommand_execute ''true'') 0 demo_open = (Done None, n', s')"
    by (simp add: AsyncCommand_execute_def co_simps demo_calm_answers)
  with failed_command_leaks_nothing [of demo_calm "''true''" 0 demo_open] show ?thesis
    by (auto simp: demo_calm_answers)
qed

theorem failed_listener_leaks_socket_witness:
  "run demo_calm (with_errc (setupListener TCP_PORT) None) 0 demo_open = (Done (None, Some (FromErrno 98)), 4, demo_open) \<and>
   opened_fds (trace demo_calm (setupListener TCP_PORT) 0 demo_open) = {5}"
  using failed_listener_leaks_socket [of demo_calm 0 5 TCP_PORT demo_open]
  by (simp add: demo_calm_answers)

theorem ended_command_released_witness:
  "\<exists>s'. run demo_calm (waitTermination 1) 0 demo_open = (Done True, 5, s') \<and>
     map_option command_destructor (get_afd s' 1) = Some None \<and> is_closed 2 s'"
proof -
  let ?x = "(afd_new 6)\<lparr>mProcessId := 42, mStdOut := Some 2\<rparr>"
  have "mStdIn ?x = None" "mStdOut ?x = Some 2" "mProcessId ?x = 42" "mFD ?x = 6"
    by (simp_all add: afd_new_def)
  then show ?thesis
    using ended_command_released [OF demo_table_wf demo_managed(3), of 2 7 demo_calm 0] demo_managed
    by (auto simp: demo_calm_answers )
qed

definition demo_running :: "'s env" where
  "demo_running = \<lparr>e_call = (\<lambda>_ _. sys_value 0), e_interfere = (\<lambda>_ s. s)\<rparr>"

theorem early_wakeup_gives_up_witness:
  "\<exists>s'. run demo_running (with_errc (waitTermination 1) None) 0 demo_open = (Done (False, None), 3, s') \<and>
     getPid 1 s' = 42 \<and> pending_ops 1 s' = [9, 9]"
proof -
  have "s_ret (e_call demo_running n q) = 0" "e_interfere demo_running n s = s" for n q and s :: "json process"
    by (simp_all add: demo_running_def sys_value_def)
  moreover have "running demo_open = 9" by (simp add: demo_open_def)
  ultimately show ?thesis
    using early_wakeup_gives_up [OF demo_managed(3), of demo_running 0] by (auto simp: afd_new_def)
qed

end
