(* ===== verification/EventLoop.thy ===== *)
theory EventLoop
  imports Scheduler TransferLoops
begin

text \<open>
  The event loop and the coroutines it resumes: a receive that had to wait is completed by the
  next event on its descriptor, and at the end of every turn epoll watches each managed descriptor
  for exactly the events the operations on it asked for.
\<close>

subsection \<open>Subscriptions\<close>

text \<open>
  What epoll watches: for each descriptor of its interest set the events, as \<open>epoll_ctl\<close> and \<open>close\<close>
  are documented to change it. A failing call changes nothing.
\<close>

fun epoll_effect :: "int \<Rightarrow> syscall \<times> sysret \<Rightarrow> (int \<rightharpoonup> u32) \<Rightarrow> (int \<rightharpoonup> u32)" where
  "epoll_effect ep (SysEpollAdd ep' fd ev, r) K = (if ep' = ep \<and> s_ret r \<noteq> -1 then K(fd \<mapsto> ev) else K)"
| "epoll_effect ep (SysEpollMod ep' fd ev, r) K = (if ep' = ep \<and> s_ret r \<noteq> -1 then K(fd \<mapsto> ev) else K)"
| "epoll_effect ep (SysEpollDel ep' fd, r) K = (if ep' = ep \<and> s_ret r \<noteq> -1 then K(fd := None) else K)"
| "epoll_effect ep (SysClose fd, r) K = (if s_ret r \<noteq> -1 then K(fd := None) else K)"
| "epoll_effect ep (q, r) K = K"

definition epoll_watches :: "int \<Rightarrow> (syscall \<times> sysret) list \<Rightarrow> (int \<rightharpoonup> u32) \<Rightarrow> (int \<rightharpoonup> u32)" where
  "epoll_watches ep tr K = fold (epoll_effect ep) tr K"

lemma epoll_watches_simps [simp]:
  "epoll_watches ep [] K = K" "epoll_watches ep (ev # tr) K = epoll_watches ep tr (epoll_effect ep ev K)"
  by (simp_all add: epoll_watches_def)

text \<open>What the operations on an object want, and the call that tells epoll when it differs.\<close>

definition wanted :: "afd \<Rightarrow> u32" where
  "wanted x = mNextIOState x OR EPOLLET"

definition interest_call :: "'j process \<Rightarrow> int \<times> nat \<Rightarrow> syscall list" where
  "interest_call s el = (case get_afd s (snd el) of
     None \<Rightarrow> []
   | Some x \<Rightarrow> if mIoState x = wanted x then [] else [SysEpollMod (mEpollFD (mIoContext s)) (mFD x) (wanted x)])"

definition interest_set :: "afd \<Rightarrow> afd" where
  "interest_set x = x\<lparr>mIoState := wanted x\<rparr>"

lemma interest_set_simps [simp]:
  "mIoState (interest_set x) = wanted x" "wanted (interest_set x) = wanted x" "mFD (interest_set x) = mFD x"
  by (simp_all add: interest_set_def wanted_def)

text \<open>Attaching a descriptor: epoll watches it for what the object remembers.\<close>

lemma attach_watches:
  assumes "get_afd s a = Some x" and "s_ret (e_call E n (SysEpollAdd (mEpollFD (mIoContext s)) (mFD x) st)) \<noteq> -1"
  shows "\<exists>s'. run E (attach_with st (Some a)) n s = (Done (), Suc n, s') \<and> get_afd s' a = Some (x\<lparr>mIoState := st\<rparr>) \<and>
    epoll_watches (mEpollFD (mIoContext s)) (trace E (attach_with st (Some a)) n s) K = K(mFD x \<mapsto> st)"
  using assms by (simp add: attach_with_def io_of_def co_simps fd_of_def)

text \<open>One round of the loop over the table.\<close>

definition told :: "nat \<Rightarrow> 'j process \<Rightarrow> 'j process" where
  "told a s = (case get_afd s a of
     None \<Rightarrow> s
   | Some x \<Rightarrow> if mIoState x = wanted x then s else update_afd a (\<lambda>y. y\<lparr>mIoState := wanted x\<rparr>) s)"

lemma told_object: "get_afd (told a s) b = (if b = a then map_option interest_set (get_afd s b) else get_afd s b)"
proof -
  have "interest_set x = x" if "mIoState x = wanted x" for x using that by (cases x) (simp add: interest_set_def)
  then show ?thesis by (simp add: told_def interest_set_def split: option.split)
qed

lemma told_frame [simp]:
  "mManagedFD (mIoContext (told a s)) = mManagedFD (mIoContext s)" "mEpollFD (mIoContext (told a s)) = mEpollFD (mIoContext s)"
  by (simp_all add: told_def split: option.split)

lemma update_interest_step:
  assumes "get_afd s (snd el) = Some x"
  shows "advance E (update_interest (el # els)) n s =
      advance E (update_interest els) (n + length (interest_call s el)) (told (snd el) s)"
    and "trace E (update_interest (el # els)) n s = map (\<lambda>q. (q, e_call E n q)) (interest_call s el) @
      trace E (update_interest els) (n + length (interest_call s el)) (told (snd el) s)"
  using assms by (auto simp: told_def interest_call_def wanted_def io_of_def co_simps advance_bind Let_def)

declare update_interest.simps(2) [simp del]

definition objects_of :: "(int \<times> nat) list \<Rightarrow> 'j process \<Rightarrow> bool" where
  "objects_of els s \<longleftrightarrow> distinct (map snd els) \<and> (\<forall>(fd, a) \<in> set els. \<exists>x. get_afd s a = Some x \<and> mFD x = fd)"

lemma objects_of_told:
  assumes "objects_of (el # els) s"
  obtains x where "get_afd s (snd el) = Some x" "mFD x = fst el" "objects_of els (told (snd el) s)"
    "snd el \<notin> snd ` set els" "\<forall>e \<in> set els. get_afd (told (snd el) s) (snd e) = get_afd s (snd e)"
proof -
  have new: "snd el \<notin> snd ` set els" using assms by (simp add: objects_of_def)
  then have same: "\<forall>e \<in> set els. get_afd (told (snd el) s) (snd e) = get_afd s (snd e)"
    by (auto simp: told_object image_iff)
  moreover from this have "objects_of els (told (snd el) s)"
    using assms by (fastforce simp: objects_of_def)
  moreover obtain x where "get_afd s (snd el) = Some x" "mFD x = fst el"
    using assms by (auto simp: objects_of_def)
  ultimately show thesis using new by (intro that)
qed

lemma update_interest_run:
  "objects_of els s \<Longrightarrow> \<exists>n' s'. advance E (update_interest els) n s = (Finished (), n', s') \<and>
    mManagedFD (mIoContext s') = mManagedFD (mIoContext s) \<and>
    (\<forall>a. get_afd s' a = (if a \<in> snd ` set els then map_option interest_set (get_afd s a) else get_afd s a)) \<and>
    map fst (trace E (update_interest els) n s) = concat (map (interest_call s) els)"
proof (induction els arbitrary: n s)
  case (Cons el els)
  obtain x where x: "get_afd s (snd el) = Some x" and "mFD x = fst el"
    and rest: "objects_of els (told (snd el) s)" "snd el \<notin> snd ` set els"
      "\<forall>e \<in> set els. get_afd (told (snd el) s) (snd e) = get_afd s (snd e)"
    by (rule objects_of_told [OF Cons.prems])
  have "map (interest_call (told (snd el) s)) els = map (interest_call s) els"
    using rest(3) by (simp add: interest_call_def split: option.split)
  then have "concat (map (interest_call (told (snd el) s)) els) = concat (map (interest_call s) els)"
    by (rule arg_cong)
  moreover obtain n' s' where
    "advance E (update_interest els) (n + length (interest_call s el)) (told (snd el) s) = (Finished (), n', s')"
    "mManagedFD (mIoContext s') = mManagedFD (mIoContext s)"
    "\<And>a. get_afd s' a = (if a \<in> snd ` set els then map_option interest_set (get_afd (told (snd el) s) a)
       else get_afd (told (snd el) s) a)"
    "map fst (trace E (update_interest els) (n + length (interest_call s el)) (told (snd el) s)) =
       concat (map (interest_call (told (snd el) s)) els)"
    using Cons.IH [OF rest(1), of "n + length (interest_call s el)"] unfolding told_frame by blast
  ultimately show ?case
    using rest(2) unfolding update_interest_step [OF x] by (auto simp: told_object comp_def)
qed simp

text \<open>Epoll after the pass, when it watched before what the objects remember and the calls succeed.\<close>

lemma update_interest_watches:
  assumes "objects_of els s" and "distinct (map fst els)"
    and "\<And>fd a. (fd, a) \<in> set els \<Longrightarrow> K fd = map_option mIoState (get_afd s a)"
    and "\<And>ev. ev \<in> set (trace E (update_interest els) n s) \<Longrightarrow> s_ret (snd ev) \<noteq> -1"
  shows "epoll_watches (mEpollFD (mIoContext s)) (trace E (update_interest els) n s) K fd =
    (case map_of els fd of None \<Rightarrow> K fd | Some a \<Rightarrow> map_option wanted (get_afd s a))"
  using assms
proof (induction els arbitrary: n s K)
  case (Cons el els)
  obtain x where x: "get_afd s (snd el) = Some x" "mFD x = fst el"
    and rest: "objects_of els (told (snd el) s)" "snd el \<notin> snd ` set els"
      "\<forall>e \<in> set els. get_afd (told (snd el) s) (snd e) = get_afd s (snd e)"
    by (rule objects_of_told [OF Cons.prems(1)])
  let ?K = "K(fst el \<mapsto> wanted x)"
  have K: "K (fst el) = Some (mIoState x)" using Cons.prems(3) [of "fst el" "snd el"] x by simp
  let ?n = "n + length (interest_call s el)"
  have "?K fd' = map_option mIoState (get_afd (told (snd el) s) a)" if "(fd', a) \<in> set els" for fd' a
  proof -
    have "fd' \<noteq> fst el" using Cons.prems(2) that by (auto simp: image_iff)
    then show ?thesis using Cons.prems(3) [of fd' a] that rest(3) [rule_format, OF that] by simp
  qed
  moreover have ok: "s_ret (snd ev) \<noteq> -1" if "ev \<in> set (trace E (update_interest els) ?n (told (snd el) s))" for ev
    using Cons.prems(4) that unfolding update_interest_step [OF x(1)] by simp
  ultimately have "epoll_watches (mEpollFD (mIoContext s)) (trace E (update_interest els) ?n (told (snd el) s)) ?K fd =
      (case map_of els fd of None \<Rightarrow> ?K fd | Some a \<Rightarrow> map_option wanted (get_afd (told (snd el) s) a))"
    using Cons.IH [OF rest(1), of ?K ?n] Cons.prems(2) by (simp del: fun_upd_apply)
  moreover have call: "s_ret (e_call E n q) \<noteq> -1" if "q \<in> set (interest_call s el)" for q
    using Cons.prems(4) [of "(q, e_call E n q)"] that unfolding update_interest_step [OF x(1)] by simp
  have "epoll_watches (mEpollFD (mIoContext s)) (trace E (update_interest (el # els)) n s) K =
      epoll_watches (mEpollFD (mIoContext s)) (trace E (update_interest els) ?n (told (snd el) s)) ?K"
    using call K x unfolding update_interest_step [OF x(1)] by (auto simp: interest_call_def fun_upd_idem)
  moreover have "map_of els fd = Some a \<Longrightarrow> get_afd (told (snd el) s) a = get_afd s a" for a
    using rest(3) by (force dest: map_of_SomeD)
  moreover have "map_of els (fst el) = None" using Cons.prems(2) by (simp add: map_of_eq_None_iff)
  ultimately show ?case
    using x by (cases el; cases "fd = fst el") (simp_all split: option.split)
qed simp

subsection \<open>A receive that waits\<close>

text \<open>Up to its suspension, and from there when the data has arrived.\<close>

lemma recv_suspends:
  assumes "fd_of s a = fd" and "e_call E n (SysRecv fd len) = sys_error EAGAIN"
  shows "\<exists>c. advance E (AsyncSocket_recv a len) n s = (Paused a c, Suc n,
       addPendingOp a (running s) (update_afd a (\<lambda>x. x\<lparr>mNextIOState := mNextIOState x OR EPOLLIN\<rparr>) s)) \<and>
     (\<forall>n' t bs. fd_of t a = fd \<longrightarrow> length bs = len \<longrightarrow>
        e_call E n' (SysRecv fd len) = (sys_value (int len))\<lparr>s_bytes := bs\<rparr> \<longrightarrow>
        advance E c n' t = (Finished (int len, bs), Suc n',
          update_afd a (\<lambda>x. x\<lparr>mNextIOState := mNextIOState x AND NOT EPOLLIN\<rparr>) t))"
  unfolding AsyncSocket_recv_def using assms
  by (subst read_loop.simps) (auto simp: RecvOperation_def RecvOperation_syscall_def with_watch_def watch_defs
      set_next_io_def await_suspend_def await_resume_def suspend_def on_fd_def io_of_def co_simps advance_bind
      shouldWait_def sys_error_def sys_value_def EAGAIN_def received_def Let_def)

text \<open>A turn that reports one event, on a descriptor on which one coroutine waits.\<close>

lemma one_event_turn:
  assumes "e_call E (m_calls m) (SysEpollWait (mEpollFD (mIoContext (m_process m))) DEFAULT_MAX_EVENTS) =
      (sys_value 1)\<lparr>s_events := [(fd, ev)]\<rparr>"
    and "smap_find (mManagedFD (mIoContext (m_process m))) fd = Some a" and "pending_ops a (m_process m) = [h]"
    and "resume_handle E a h (m\<lparr>m_calls := Suc (m_calls m)\<rparr>) = r"
  shows "IOContext_run_once E m = (case r of
        Inl e \<Rightarrow> Inl e
      | Inr m3 \<Rightarrow> let m4 = on_process (pop_pending_op a) m3 in
          run_task E (update_interest (mManagedFD (mIoContext (m_process m4)))) m4)"
  using assms by (auto simp: IOContext_run_once_def Let_def sys_value_def resumePendingOps_def split: sum.split)

subsection \<open>Properties\<close>

lemma table_objects:
  assumes wf: "io_wf (mIoContext s)"
  shows "objects_of (mManagedFD (mIoContext s)) s"
proof -
  let ?els = "mManagedFD (mIoContext s)"
  have keys: "distinct (map fst ?els)" by (rule smap_wf_distinct [OF io_wf_map [OF wf]])
  then have find: "smap_find ?els fd = Some a" if "(fd, a) \<in> set ?els" for fd a
    using that by (simp add: smap_find_def)
  then have "inj_on snd (set ?els)"
    using io_wf_managed_inj [OF wf] by (auto intro!: inj_onI)
  with keys have "distinct (map snd ?els)" by (simp add: distinct_map)
  moreover have "\<exists>x. get_afd s a = Some x \<and> mFD x = fd" if "(fd, a) \<in> set ?els" for fd a
    using io_wf_managed [OF wf find [OF that]] by (auto simp: get_afd_def)
  ultimately show ?thesis by (auto simp: objects_of_def)
qed

text \<open>
  C29. The end of a turn of the loop that handled events, in a process whose table of descriptors is
  well-formed. The loop asks epoll, with one \<open>epoll_ctl\<close> each and in the order of the table, to watch every
  managed descriptor for exactly the events its operations want next, edge-triggered, leaving out those
  whose remembered events are these already, and remembers them. So if epoll watched what was
  remembered and does as it is asked, it now watches exactly what is wanted: no change of subscription is lost
  between the coroutines and epoll, however many descriptors were opened, closed or waited on during
  the turn. What is remembered is updated even for a descriptor for which \<open>epoll_ctl\<close> failed, which is
  then not asked for again.
\<close>

theorem interest_synchronised:
  assumes events: "r = e_call E (m_calls m) (SysEpollWait (mEpollFD (mIoContext (m_process m))) DEFAULT_MAX_EVENTS)"
      "s_ret r \<noteq> -1"
    and dispatched: "dispatch_events E (take (nat (s_ret r)) (s_events r)) (m\<lparr>m_calls := Suc (m_calls m)\<rparr>) = Inr m2"
    and wf: "io_wf (mIoContext (m_process m2))"
    and tr: "tr = trace E (update_interest (mManagedFD (mIoContext (m_process m2)))) (m_calls m2) (m_process m2)"
  shows "\<exists>m'. IOContext_run_once E m = Inr m' \<and>
    mManagedFD (mIoContext (m_process m')) = mManagedFD (mIoContext (m_process m2)) \<and>
    map fst tr = concat (map (interest_call (m_process m2)) (mManagedFD (mIoContext (m_process m2)))) \<and>
    (\<forall>fd a. smap_find (mManagedFD (mIoContext (m_process m'))) fd = Some a \<longrightarrow>
      (\<exists>x. get_afd (m_process m') a = Some x \<and> mFD x = fd \<and> mIoState x = mNextIOState x OR EPOLLET)) \<and>
    (\<forall>K. (\<forall>fd a x. smap_find (mManagedFD (mIoContext (m_process m2))) fd = Some a \<and> get_afd (m_process m2) a = Some x \<longrightarrow>
        K fd = Some (mIoState x)) \<and> (\<forall>ev \<in> set tr. s_ret (snd ev) \<noteq> -1) \<longrightarrow>
      (\<forall>fd a. smap_find (mManagedFD (mIoContext (m_process m'))) fd = Some a \<longrightarrow>
        (\<exists>x. get_afd (m_process m') a = Some x \<and>
          epoll_watches (mEpollFD (mIoContext (m_process m2))) tr K fd = Some (mNextIOState x OR EPOLLET))))"
proof -
  let ?s = "m_process m2" and ?els = "mManagedFD (mIoContext (m_process m2))"
  have els: "objects_of ?els ?s" by (rule table_objects [OF wf])
  obtain n' s' where run: "advance E (update_interest ?els) (m_calls m2) ?s = (Finished (), n', s')"
    "mManagedFD (mIoContext s') = ?els"
    "\<And>a. get_afd s' a = (if a \<in> snd ` set ?els then map_option interest_set (get_afd ?s a) else get_afd ?s a)"
    "map fst tr = concat (map (interest_call ?s) ?els)"
    using update_interest_run [OF els, of E "m_calls m2"] unfolding tr by blast
  let ?m' = "m2\<lparr>m_process := s', m_calls := n'\<rparr>"
  have turn: "IOContext_run_once E m = Inr ?m'"
    using events dispatched run(1) by (simp add: IOContext_run_once_def Let_def run_task_def)
  have obj: "\<exists>x. get_afd ?s a = Some x \<and> mFD x = fd \<and> get_afd s' a = Some (interest_set x)"
    if "smap_find ?els fd = Some a" for fd a
  proof -
    have "(fd, a) \<in> set ?els" using that by (simp add: smap_find_def map_of_SomeD)
    moreover from this have "a \<in> snd ` set ?els" by force
    ultimately show ?thesis using els run(3) [of a] by (auto simp: objects_of_def)
  qed
  have watches: "\<exists>x. get_afd s' a = Some x \<and> epoll_watches (mEpollFD (mIoContext ?s)) tr K fd = Some (wanted x)"
    if K: "\<forall>fd a x. smap_find ?els fd = Some a \<and> get_afd ?s a = Some x \<longrightarrow> K fd = Some (mIoState x)"
      and ok: "\<forall>ev \<in> set tr. s_ret (snd ev) \<noteq> -1" and fd: "smap_find ?els fd = Some a" for K fd a
  proof -
    have "distinct (map fst ?els)" using wf by (simp add: io_wf_def smap_wf_distinct)
    moreover have "K fd' = map_option mIoState (get_afd ?s b)" if "(fd', b) \<in> set ?els" for fd' b
      using that K obj [of fd' b] calculation by (auto simp: smap_find_def)
    ultimately have "epoll_watches (mEpollFD (mIoContext ?s)) tr K fd = map_option wanted (get_afd ?s a)"
      using update_interest_watches [OF els, of K E "m_calls m2" fd] ok fd unfolding tr by (simp add: smap_find_def)
    with obj [OF fd] show ?thesis by auto
  qed
  have remembered: "\<exists>x. get_afd s' a = Some x \<and> mFD x = fd \<and> mIoState x = mNextIOState x OR EPOLLET"
    if "smap_find ?els fd = Some a" for fd a
    using obj [OF that] by (auto simp: interest_set_def wanted_def)
  show ?thesis
  proof (intro exI [of _ ?m'] conjI allI impI)
    fix K fd a
    assume K: "(\<forall>fd a x. smap_find ?els fd = Some a \<and> get_afd ?s a = Some x \<longrightarrow> K fd = Some (mIoState x)) \<and>
        (\<forall>ev \<in> set tr. s_ret (snd ev) \<noteq> -1)"
      and "smap_find (mManagedFD (mIoContext (m_process ?m'))) fd = Some a"
    then show "\<exists>x. get_afd (m_process ?m') a = Some x \<and>
        epoll_watches (mEpollFD (mIoContext ?s)) tr K fd = Some (mNextIOState x OR EPOLLET)"
      using watches [OF conjunct1 [OF K] conjunct2 [OF K], of fd a] run(2) by (simp add: wanted_def)
  qed (use turn run(2,4) remembered in simp_all)
qed

text \<open>
  C14. No wake-up is lost: a coroutine that receives on a socket, is told to wait and suspends, is
  continued by the next turn of the loop that reports an event on the descriptor. If the data is
  there by then, the receive is complete and the coroutine goes on with it in that very turn; the
  queue entry is removed afterwards and the subscriptions are updated.
\<close>

theorem event_completes_receive:
  assumes obj: "get_afd (m_process m) a = Some x" "mFD x = fd" "mPendigOps x = []"
      "smap_find (mManagedFD (mIoContext (m_process m))) fd = Some a"
    and wait: "e_call E (m_calls m) (SysRecv fd len) = sys_error EAGAIN"
    and event: "e_call E (m_calls m + 1) (SysEpollWait (mEpollFD (mIoContext (m_process m))) DEFAULT_MAX_EVENTS) =
      (sys_value 1)\<lparr>s_events := [(fd, ev)]\<rparr>"
    and data: "e_call E (m_calls m + 2) (SysRecv fd len) = (sys_value (int len))\<lparr>s_bytes := bs\<rparr>"
      "length bs = len"
  shows "\<exists>m1 m2. start E h (co_bind (AsyncSocket_recv a len) k) m = Inr m1 \<and>
    m_calls m2 = m_calls m + 3 \<and> mStates (m_process m2) = mStates (m_process m) \<and>
    IOContext_run_once E m1 = (case start E h (k (int len, bs)) m2 of
        Inl e \<Rightarrow> Inl e
      | Inr m3 \<Rightarrow> let m4 = on_process (pop_pending_op a) m3 in
          run_task E (update_interest (mManagedFD (mIoContext (m_process m4)))) m4)"
proof -
  let ?s = "(m_process m)\<lparr>running := h\<rparr>"
  let ?s1 = "addPendingOp a h (update_afd a (\<lambda>x. x\<lparr>mNextIOState := mNextIOState x OR EPOLLIN\<rparr>) ?s)"
  let ?s2 = "update_afd a (\<lambda>x. x\<lparr>mNextIOState := mNextIOState x AND NOT EPOLLIN\<rparr>) (?s1\<lparr>running := h\<rparr>)"
  have fd: "fd_of ?s a = fd" using obj by (simp add: fd_of_def get_afd_def)
  have fd1: "fd_of (?s1\<lparr>running := h\<rparr>) a = fd"
    using obj by (simp add: fd_of_def get_afd_def addPendingOp_def update_afd_def)
  obtain c where c: "advance E (AsyncSocket_recv a len) (m_calls m) ?s = (Paused a c, Suc (m_calls m), ?s1)"
    "\<And>n' t bs. fd_of t a = fd \<Longrightarrow> length bs = len \<Longrightarrow>
        e_call E n' (SysRecv fd len) = (sys_value (int len))\<lparr>s_bytes := bs\<rparr> \<Longrightarrow>
        advance E c n' t = (Finished (int len, bs), Suc n',
          update_afd a (\<lambda>x. x\<lparr>mNextIOState := mNextIOState x AND NOT EPOLLIN\<rparr>) t)"
    using recv_suspends [OF fd wait] by auto
  have resumed: "advance E c (Suc (Suc (m_calls m))) (?s1\<lparr>running := h\<rparr>) = (Finished (int len, bs), Suc (Suc (Suc (m_calls m))), ?s2)"
    using c(2) [OF fd1 data(2)] data(1) by simp
  let ?m1 = "m\<lparr>m_process := ?s1, m_calls := Suc (m_calls m), m_pool := (m_pool m)(h \<mapsto> (a, co_bind c k))\<rparr>"
  let ?m2 = "?m1\<lparr>m_process := ?s2, m_calls := Suc (Suc (Suc (m_calls m)))\<rparr>"
  have m1: "start E h (co_bind (AsyncSocket_recv a len) k) m = Inr ?m1"
    using obj(1) by (simp add: start_def advance_bind c(1) addPendingOp_def) (simp add: get_afd_def)
  have queue: "pending_ops a ?s1 = [h]"
    using obj by (simp add: pending_ops_def addPendingOp_def get_afd_def update_afd_def)
  have same: "?s2\<lparr>running := h\<rparr> = ?s2"
    by (rule process.equality) simp_all
  have go: "start E h (co_bind c k) (?m1\<lparr>m_calls := Suc (Suc (m_calls m))\<rparr>) = start E h (k (int len, bs)) ?m2"
    using resumed by (auto simp: start_def advance_bind same split: prod.split progress.split)
  have "IOContext_run_once E ?m1 = (case start E h (k (int len, bs)) ?m2 of
        Inl e \<Rightarrow> Inl e
      | Inr m3 \<Rightarrow> let m4 = on_process (pop_pending_op a) m3 in
          run_task E (update_interest (mManagedFD (mIoContext (m_process m4)))) m4)"
  proof (rule one_event_turn)
    show "resume_handle E a h (?m1\<lparr>m_calls := Suc (m_calls ?m1)\<rparr>) = start E h (k (int len, bs)) ?m2"
      using go by (simp add: resume_handle_def)
  qed (use event obj(4) queue in \<open>simp_all add: addPendingOp_def\<close>)
  moreover have "m_calls ?m2 = m_calls m + 3" "mStates (m_process ?m2) = mStates (m_process m)"
    by (simp_all add: addPendingOp_def)
  ultimately show ?thesis using m1 by blast
qed

subsection \<open>Witnesses\<close>

definition demo_loop_machine :: "unit machine" where
  "demo_loop_machine = \<lparr>m_process = \<lparr>mStates = [], mTypeConf = [], isPeer = False,
       mIoContext = \<lparr>mEpollFD = 3, mManagedFD = [(5, 0)], aheap = [0 \<mapsto> afd_new 5], next_address = 1\<rparr>,
       sigpipe_ignored = True, running = 0\<rparr>, m_pool = Map.empty, m_calls = 0\<rparr>"

definition demo_idle_env :: "'s env" where
  "demo_idle_env = \<lparr>e_call = (\<lambda>_ _. sys_value 0), e_interfere = (\<lambda>_ s. s)\<rparr>"

theorem interest_synchronised_witness:
  "\<exists>m' x. IOContext_run_once demo_idle_env demo_loop_machine = Inr m' \<and> get_afd (m_process m') 0 = Some x \<and>
     epoll_watches 3 (trace demo_idle_env (update_interest [(5, 0)]) 1 (m_process demo_loop_machine)) [5 \<mapsto> mIoState (afd_new 5)] 5 =
       Some (mNextIOState x OR EPOLLET)"
proof -
  let ?m = "demo_loop_machine" and ?E = "demo_idle_env :: unit process env"
  let ?tr = "trace ?E (update_interest [(5, 0)]) 1 (m_process ?m)"
  have m: "mManagedFD (mIoContext (m_process ?m)) = [(5, 0)]" "mEpollFD (mIoContext (m_process ?m)) = 3" "m_calls ?m = 0"
    "get_afd (m_process ?m) 0 = Some (afd_new 5)"
    by (simp_all add: demo_loop_machine_def get_afd_def)
  have wf: "io_wf (mIoContext (m_process ?m))"
    by (rule io_wfI) (auto simp: demo_loop_machine_def smap_wf_def smap_find_def afd_new_def split: if_splits)
  have ok: "s_ret (snd ev) \<noteq> -1" if "ev \<in> set (trace ?E (update_interest [(5, 0)]) 1 (m_process ?m))" for ev
    using that m(4) update_interest_step(2) [of "m_process ?m" "(5, 0)" "afd_new 5" ?E "[]" 1]
    by (auto simp: demo_idle_env_def sys_value_def)
  have "dispatch_events ?E (take (nat (s_ret (sys_value 0))) (s_events (sys_value 0))) (?m\<lparr>m_calls := Suc (m_calls ?m)\<rparr>) =
      Inr (?m\<lparr>m_calls := 1\<rparr>)"
    by (simp add: sys_value_def m)
  from interest_synchronised [of "sys_value 0" ?E ?m "?m\<lparr>m_calls := 1\<rparr>", OF _ _ this _ refl] wf
  obtain m' where "IOContext_run_once ?E ?m = Inr m'" "mManagedFD (mIoContext (m_process m')) = [(5, 0)]" and
    watches: "\<forall>K. (\<forall>fd a x. smap_find [(5, 0)] fd = Some a \<and> get_afd (m_process ?m) a = Some x \<longrightarrow> K fd = Some (mIoState x)) \<and>
        (\<forall>ev \<in> set ?tr. s_ret (snd ev) \<noteq> -1) \<longrightarrow>
      (\<forall>fd a. smap_find [(5, 0)] fd = Some a \<longrightarrow>
        (\<exists>x. get_afd (m_process m') a = Some x \<and> epoll_watches 3 ?tr K fd = Some (mNextIOState x OR EPOLLET)))"
    by (auto simp: demo_idle_env_def sys_value_def m)
  moreover have "\<exists>x. get_afd (m_process m') 0 = Some x \<and>
      epoll_watches 3 ?tr [5 \<mapsto> mIoState (afd_new 5)] 5 = Some (mNextIOState x OR EPOLLET)"
    using watches [rule_format, of "[5 \<mapsto> mIoState (afd_new 5)]" 5 0] ok m(4) by (auto simp: smap_find_def split: if_splits)
  ultimately show ?thesis by blast
qed

text \<open>The first receive is told to wait, then epoll reports the descriptor, then two bytes are there.\<close>

definition demo_event_env :: "'s env" where
  "demo_event_env = \<lparr>e_call = (\<lambda>n _. if n = 0 then sys_error EAGAIN
     else if n = 1 then (sys_value 1)\<lparr>s_events := [(5, 1)]\<rparr>
     else if n = 2 then (sys_value 2)\<lparr>s_bytes := [7, 8]\<rparr>
     else sys_value 0), e_interfere = (\<lambda>_ s. s)\<rparr>"

theorem event_completes_receive_witness:
  "\<exists>m1 m2. start demo_event_env 1 (co_bind (AsyncSocket_recv 0 2) (\<lambda>_. Ret ())) demo_loop_machine = Inr m1 \<and>
     m_calls m2 = 3 \<and>
     IOContext_run_once demo_event_env m1 = (case start demo_event_env 1 (Ret ()) m2 of
        Inl e \<Rightarrow> Inl e
      | Inr m3 \<Rightarrow> let m4 = on_process (pop_pending_op 0) m3 in
          run_task demo_event_env (update_interest (mManagedFD (mIoContext (m_process m4)))) m4)"
proof -
  have obj: "get_afd (m_process demo_loop_machine) 0 = Some (afd_new 5)" "mFD (afd_new 5) = 5" "mPendigOps (afd_new 5) = []"
    "smap_find (mManagedFD (mIoContext (m_process demo_loop_machine))) 5 = Some 0" "m_calls demo_loop_machine = 0"
    by (simp_all add: demo_loop_machine_def get_afd_def afd_new_def smap_find_def)
  from event_completes_receive [OF obj(1-4), of demo_event_env 2 1 "[7, 8]" 1 "\<lambda>_. Ret ()"] show ?thesis
    by (auto simp: demo_event_env_def obj(5))
qed

end
