(* ===== verification/Rounds.thy ===== *)
theory Rounds
  imports Cli TransferLoops
begin

text \<open>
  What the loops and the command line operations do in one round: the bleaching of all registered
  types, the choice of the types to synchronise, the entries an insertion creates, and the paths
  through \<open>main\<close>.
\<close>

subsection \<open>Bleaching\<close>

lemma run_or_exit_bleach:
  "smap_find (mStates s) ty = Some t \<Longrightarrow> 1 \<le> secs \<Longrightarrow>
   run E (or_exit (bleach ty secs)) n s =
     (Done (bleach_count secs t), n, s\<lparr>mStates := smap_put ty (bleach_state secs t) (mStates s)\<rparr>)"
  by (simp add: bleach_def co_simps or_exit_bind)

lemma bleach_types_run:
  assumes "distinct (map fst confs)" and "1 \<le> secs" and "smap_wf (mStates s)"
    and "\<And>ty. ty \<in> fst ` set confs \<Longrightarrow> smap_find (mStates s) ty \<noteq> None"
  shows "\<exists>st. run E (bleach_types secs confs) n s = (Done (), n, s\<lparr>mStates := st\<rparr>) \<and> smap_wf st \<and>
    (\<forall>ty. smap_find st ty = (if ty \<in> fst ` set confs then map_option (bleach_state secs) (smap_find (mStates s) ty)
       else smap_find (mStates s) ty))"
  using assms
proof (induction confs arbitrary: s)
  case Nil
  have "s\<lparr>mStates := mStates s\<rparr> = s" by simp
  with Nil show ?case by (auto intro!: exI [of _ "mStates s"])
next
  case (Cons conf confs)
  obtain t where t: "smap_find (mStates s) (fst conf) = Some t" using Cons.prems(4) by fastforce
  let ?s = "s\<lparr>mStates := smap_put (fst conf) (bleach_state secs t) (mStates s)\<rparr>"
  have "smap_find (mStates ?s) ty \<noteq> None" if "ty \<in> fst ` set confs" for ty
    using Cons.prems(4) that by (auto simp: smap_find_put)
  then obtain st where st: "run E (bleach_types secs confs) n ?s = (Done (), n, ?s\<lparr>mStates := st\<rparr>)" "smap_wf st"
    "\<And>ty. smap_find st ty = (if ty \<in> fst ` set confs then map_option (bleach_state secs) (smap_find (mStates ?s) ty)
       else smap_find (mStates ?s) ty)"
    using Cons.IH [of ?s] Cons.prems by (auto simp: smap_wf_put)
  have "run E (bleach_types secs (conf # confs)) n s = (Done (), n, s\<lparr>mStates := st\<rparr>)"
    using st(1) run_or_exit_bleach [OF t Cons.prems(2), of E n] by (simp add: co_then_def run_bind)
  moreover have "smap_find st ty = (if ty \<in> fst ` set (conf # confs)
      then map_option (bleach_state secs) (smap_find (mStates s) ty) else smap_find (mStates s) ty)" for ty
    using Cons.prems(1) t by (auto simp: st(3) smap_find_put)
  ultimately show ?case using st(2) by blast
qed

lemma bleachTimes_ge_1: "1 \<le> bleachTimes e"
proof -
  let ?m = "if e > SECOND then e else SECOND"
  have "bleachTimes e = ?m div SECOND" unfolding bleachTimes_def by (intro cdiv_nonneg) (auto simp: SECOND_def)
  moreover have "SECOND div SECOND \<le> ?m div SECOND" by (intro zdiv_mono1) (auto simp: SECOND_def)
  ultimately show ?thesis by (simp add: SECOND_def)
qed

lemma run_or_exit_load:
  assumes "r = e_call E n (ReadFile tConfigPath)" and "s_ret r \<noteq> -1" and "\<not> x_parse_error X (s_bytes r)"
    and "x_serial_confs X (DataTypeConf_serial_process X) FROM_JSON
      ((x_ctx X)\<lparr>mJson := x_parse X (s_bytes r)\<rparr>) ''mTypeConf'' [] = (ctx, confs)"
  shows "run E (or_exit (loadRegisteredTypes X)) n s = (Done (mOk ctx), Suc n,
      s\<lparr>mTypeConf := confs, mStates := drop_states confs (create_states confs (mStates s))\<rparr>)"
  using assms by (simp add: loadRegisteredTypes_def co_simps or_exit_bind)

subsection \<open>Inserting\<close>

text \<open>The data that stays when a document has several members of the same name: the last.\<close>

definition member_values :: "(string \<times> 'j) list \<Rightarrow> string \<Rightarrow> 'j option" where
  "member_values members = map_of (rev (map (\<lambda>(name, v). (c_string name, v)) members))"

lemma member_values_Cons:
  "member_values ((name, v) # members) k = (case member_values members k of
     Some w \<Rightarrow> Some w | None \<Rightarrow> if k = c_string name then Some v else None)"
  by (simp add: member_values_def map_add_def split: option.split)

definition own_entry :: "'j ext \<Rightarrow> DataTypeConf \<Rightarrow> 'j \<Rightarrow> 'j StateEntry" where
  "own_entry X c v = \<lparr>mAuthor = authorPlaceOlder X, mTtl = mBleachTTL c + mUpdateInterval c + 1, mData = v\<rparr>"

lemma insert_ttl_eq:
  "insert_ttl c = (if - (2 ^ 63) \<le> mBleachTTL c + mUpdateInterval c \<and> mBleachTTL c + mUpdateInterval c + 1 < 2 ^ 63
     then Some (mBleachTTL c + mUpdateInterval c + 1) else None)"
  by (auto simp: insert_ttl_def int64_add_def)

lemma insert_one_run:
  assumes "smap_find (mStates s) ty = Some t" and "smap_find (mTypeConf s) ty = Some c"
  shows "run E (insert_one X ty (name, v)) n s = (case insert_ttl c of
      None \<Rightarrow> (Stopped (Trapped SignedOverflow), n, s)
    | Some _ \<Rightarrow> (Done (), n, s\<lparr>mStates := smap_put ty (smap_put (c_string name) (own_entry X c v) t) (mStates s)\<rparr>))"
  using assms by (simp add: insert_one_def insert_ttl_eq Let_def own_entry_def smap_touch_def smap_emplace_def co_simps)

lemma insert_members_run:
  assumes "smap_find (mStates s) ty = Some t" and "smap_find (mTypeConf s) ty = Some c" and "smap_wf t"
    and "insert_ttl c \<noteq> None"
  shows "\<exists>st t'. run E (insert_members X ty members) n s = (Done (), n, s\<lparr>mStates := st\<rparr>) \<and>
    smap_find st ty = Some t' \<and> smap_wf t' \<and>
    (\<forall>k. smap_find t' k = (case member_values members k of None \<Rightarrow> smap_find t k | Some v \<Rightarrow> Some (own_entry X c v))) \<and>
    (\<forall>ty'. ty' \<noteq> ty \<longrightarrow> smap_find st ty' = smap_find (mStates s) ty')"
  using assms(1-3)
proof (induction members arbitrary: s t)
  case Nil
  moreover have "s\<lparr>mStates := mStates s\<rparr> = s" by simp
  ultimately show ?case by (auto simp: member_values_def intro!: exI [of _ "mStates s"])
next
  case (Cons m members)
  obtain name v where m: "m = (name, v)" by (cases m)
  let ?t = "smap_put (c_string name) (own_entry X c v) t"
  let ?s = "s\<lparr>mStates := smap_put ty ?t (mStates s)\<rparr>"
  have step: "run E (insert_one X ty m) n s = (Done (), n, ?s)"
    using insert_one_run [OF Cons.prems(1,2)] assms(4) by (auto simp: m)
  have "smap_find (mStates ?s) ty = Some ?t" "smap_find (mTypeConf ?s) ty = Some c" "smap_wf ?t"
    using Cons.prems by (simp_all add: smap_find_put smap_wf_put)
  from Cons.IH [OF this] obtain st t' where
    t': "run E (insert_members X ty members) n ?s = (Done (), n, ?s\<lparr>mStates := st\<rparr>)" "smap_find st ty = Some t'" "smap_wf t'"
    "\<And>k. smap_find t' k = (case member_values members k of None \<Rightarrow> smap_find ?t k | Some v \<Rightarrow> Some (own_entry X c v))"
    "\<And>ty'. ty' \<noteq> ty \<Longrightarrow> smap_find st ty' = smap_find (mStates ?s) ty'"
    by blast
  have "smap_find t' k = (case member_values (m # members) k of None \<Rightarrow> smap_find t k | Some v \<Rightarrow> Some (own_entry X c v))" for k
    by (simp add: t'(4) m member_values_Cons smap_find_put split: option.split)
  moreover have "run E (insert_members X ty (m # members)) n s = (Done (), n, s\<lparr>mStates := st\<rparr>)"
    using t'(1) step by (simp add: co_then_def run_bind)
  moreover have "\<forall>ty'. ty' \<noteq> ty \<longrightarrow> smap_find st ty' = smap_find (mStates s) ty'" using t'(5) by (simp add: smap_find_put)
  ultimately show ?case using t'(2,3) by blast
qed

lemma insert_members_overflow:
  assumes "smap_find (mStates s) ty = Some t" and "smap_find (mTypeConf s) ty = Some c" and "insert_ttl c = None"
    and "members \<noteq> []"
  shows "run E (insert_members X ty members) n s = (Stopped (Trapped SignedOverflow), n, s)"
  using insert_one_run [OF assms(1,2)] assms(3,4)
  by (cases members; cases "hd members") (auto simp: co_then_def run_bind)

subsection \<open>Discovery\<close>

text \<open>The chunks that are read one after the other from a point on, then the end of the output.\<close>

primrec reads_chunks ::
  "'j process env \<Rightarrow> nat \<Rightarrow> byte list list \<Rightarrow> nat \<times> 'j process \<Rightarrow> nat \<times> 'j process \<Rightarrow> bool" where
  "reads_chunks E cmd [] p fin \<longleftrightarrow>
     run E (or_exit (readStdOut cmd maxRecv)) (fst p) (snd p) = (Done (0, []), fin)"
| "reads_chunks E cmd (c # cs) p fin \<longleftrightarrow> c \<noteq> [] \<and>
     (\<exists>q. run E (or_exit (readStdOut cmd maxRecv)) (fst p) (snd p) = (Done (int (length c), c), q) \<and>
       reads_chunks E cmd cs q fin)"

lemma read_candidates_run:
  "reads_chunks E cmd chunks p fin \<Longrightarrow> length chunks < fuel \<Longrightarrow>
   run E (read_candidates fuel cmd acc) (fst p) (snd p) = (Done (acc @ concat chunks), fin)"
proof (induction chunks arbitrary: p fuel acc)
  case Nil
  then show ?case by (cases fuel) (auto simp: run_bind split: prod.split)
next
  case (Cons c chunks)
  then obtain k q where k: "fuel = Suc k" "length chunks < k" and
    q: "run E (or_exit (readStdOut cmd maxRecv)) (fst p) (snd p) = (Done (int (length c), c), q)"
    "reads_chunks E cmd chunks q fin" "c \<noteq> []"
    by (cases fuel) auto
  from Cons.IH [OF q(2) k(2), of "acc @ c"] q(1,3) k(1) show ?case
    by (cases q) (simp add: run_bind)
qed

lemma getlines_lines:
  "\<forall>l \<in> set ls. CHR 0x0A \<notin> set l \<Longrightarrow> getlines (concat (map (\<lambda>l. l @ [CHR 0x0A]) ls)) = ls"
proof (induction ls)
  case (Cons l ls)
  then have "takeWhile (\<lambda>c. c \<noteq> CHR 0x0A) (l @ CHR 0x0A # r) = l" "dropWhile (\<lambda>c. c \<noteq> CHR 0x0A) (l @ CHR 0x0A # r) = CHR 0x0A # r"
    for r by (auto simp: takeWhile_append dropWhile_append)
  with Cons show ?case by (subst getlines.simps) auto
qed (simp add: getlines.simps)

lemma parse_candidates_run:
  "\<forall>l \<in> set ls. x_inet_pton X l = Some (addr l) \<Longrightarrow>
   run E (parse_candidates X ls acc) n s = (Done (True, acc @ map (\<lambda>l. x_setport X (addr l) TCP_PORT) ls), n, s)"
  by (induction ls arbitrary: acc) auto

subsection \<open>Properties\<close>

text \<open>
  C23. One round of the bleaching coroutine, with a readable configuration file: it runs to its end
  without suspending and without ever ending the process. The registry is then that of the file;
  every type of the file holds its previous state (an empty one if it is new) bleached by the whole
  seconds since the last round ended, at least one; types that are gone from the file hold nothing,
  and nothing else of the process has changed.
\<close>

theorem bleach_round_effect:
  assumes X: "ordered_maps X" and s: "ss_wf s" and r: "r = e_call E n (ReadFile tConfigPath)"
    and ok: "s_ret r \<noteq> -1" "\<not> x_parse_error X (s_bytes r)"
    and secs_def: "secs = bleachTimes (s_ret (e_call E (n + 1) SteadyClockNow) - ts)"
  shows "\<exists>s'. run E (bleach_round X ts) n s = (Done (s_ret (e_call E (n + 2) SteadyClockNow)), n + 3, s') \<and>
    ss_wf s' \<and> 1 \<le> secs \<and>
    mTypeConf s' = file_confs X (s_bytes r) \<and> mIoContext s' = mIoContext s \<and> isPeer s' = isPeer s \<and>
    (\<forall>ty. smap_find (mStates s') ty = (case smap_find (file_confs X (s_bytes r)) ty of
        None \<Rightarrow> None
      | Some _ \<Rightarrow> Some (bleach_state secs (case smap_find (mStates s) ty of None \<Rightarrow> [] | Some t \<Rightarrow> t))))"
proof -
  obtain ctx confs where p: "x_serial_confs X (DataTypeConf_serial_process X) FROM_JSON
      ((x_ctx X)\<lparr>mJson := x_parse X (s_bytes r)\<rparr>) ''mTypeConf'' [] = (ctx, confs)" by fastforce
  then have confs: "smap_wf confs" using X unfolding ordered_maps_def by (metis snd_conv)
  have states: "smap_wf (mStates s)" using s by (simp add: ss_wf_def)
  let ?st = "drop_states confs (create_states confs (mStates s))"
  let ?s = "s\<lparr>mTypeConf := confs, mStates := ?st\<rparr>"
  note load = run_or_exit_load [OF r ok p, of s]
  have find: "smap_find ?st ty = (case smap_find confs ty of None \<Rightarrow> None
      | Some _ \<Rightarrow> Some (case smap_find (mStates s) ty of None \<Rightarrow> [] | Some t \<Rightarrow> t))" for ty
    by (rule synced_states_find [OF confs states])
  have dom: "ty \<in> fst ` set confs \<longleftrightarrow> smap_find confs ty \<noteq> None" for ty
    by (simp add: smap_find_def map_of_eq_None_iff)
  have wf: "ss_wf ?s" by (rule ss_wf_synced [OF s confs])
  have secs: "1 \<le> secs" unfolding secs_def by (rule bleachTimes_ge_1)
  have "\<exists>st. run E (bleach_types secs confs) (n + 2) ?s = (Done (), n + 2, ?s\<lparr>mStates := st\<rparr>) \<and> smap_wf st \<and>
    (\<forall>ty. smap_find st ty = (if ty \<in> fst ` set confs then map_option (bleach_state secs) (smap_find (mStates ?s) ty)
       else smap_find (mStates ?s) ty))"
  proof (rule bleach_types_run [OF smap_wf_distinct [OF confs] secs])
    show "smap_wf (mStates ?s)" using wf by (simp add: ss_wf_def)
    show "smap_find (mStates ?s) ty \<noteq> None" if "ty \<in> fst ` set confs" for ty
      using that by (auto simp: find dom split: option.split)
  qed
  then obtain st where st: "run E (bleach_types secs confs) (n + 2) ?s = (Done (), n + 2, ?s\<lparr>mStates := st\<rparr>)"
    "smap_wf st" "\<And>ty. smap_find st ty = (if ty \<in> fst ` set confs
       then map_option (bleach_state secs) (smap_find ?st ty) else smap_find ?st ty)" by auto
  have "run E (bleach_round X ts) n s =
      (Done (s_ret (e_call E (n + 2) SteadyClockNow)), n + 3, s\<lparr>mTypeConf := confs, mStates := st\<rparr>)"
    using st(1) by (simp add: bleach_round_def co_then_def run_bind load co_call_def co_get_def secs_def numeral_eq_Suc)
  moreover have all: "smap_find st ty = (case smap_find confs ty of None \<Rightarrow> None
      | Some _ \<Rightarrow> Some (bleach_state secs (case smap_find (mStates s) ty of None \<Rightarrow> [] | Some t \<Rightarrow> t)))" for ty
    by (auto simp: st(3) find dom split: option.split)
  moreover have "ss_wf (s\<lparr>mTypeConf := confs, mStates := st\<rparr>)"
    using s confs st(2) by (auto simp: ss_wf_def all bleach_wf split: option.splits)
  moreover have "file_confs X (s_bytes r) = confs" by (simp add: file_confs_def p)
  ultimately show ?thesis using secs by auto
qed

text \<open>
  The time that one round takes off the TTLs: a second if less has passed, and otherwise the
  whole seconds that have passed, never more. The fraction is dropped and not carried over, since
  the next round measures from the end of this one.
\<close>

lemma bleached_time:
  "1 \<le> bleachTimes e \<and>
   (if e < SECOND then bleachTimes e = 1
    else bleachTimes e * SECOND \<le> e \<and> e < (bleachTimes e + 1) * SECOND)"
proof (cases "e < SECOND")
  case True
  then show ?thesis by (simp add: bleachTimes_def cdiv_def SECOND_def)
next
  case False
  then have "bleachTimes e = e div SECOND"
    by (auto simp: bleachTimes_def SECOND_def cdiv_nonneg)
  with False bleachTimes_ge_1 [of e] show ?thesis by (auto simp: SECOND_def)
qed

text \<open>
  The types that a round of the daemon synchronises are, in the order of the registry, those
  whose update interval divides the current second. A registered interval of zero makes the
  remainder trap and ends the daemon, whichever other types there are.
\<close>

lemma due_types:
  "shouldSyncTypes tNow confs =
     (if \<exists>c \<in> snd ` set confs. mUpdateInterval c = 0 then None
      else Some (map fst (filter (\<lambda>c. mUpdateInterval (snd c) dvd tNow) confs)))"
  by (induction tNow confs rule: shouldSyncTypes.induct) (auto simp: cmod_eq_0)

text \<open>
  C24. Inserting the members of a JSON object into a type whose TTL and update interval, with a
  second, add up to a 64 bit number: the loop of \<open>insert\<close> runs to its end and changes nothing but the
  state of the type, which then holds for each member an entry of this host with the data of the last
  member of that name and that sum as its TTL, and all other keys as before. When the daemon on the same host
  merges that state, the new data replaces whatever the daemon knew, unless it knows an entry with a
  higher TTL. For other configurations, which \<open>register\<close> accepts, the first member makes the addition
  overflow.
\<close>

theorem insert_reaches_daemon:
  assumes "ss_wf s" and "smap_find (mStates s) ty = Some t" and "smap_find (mTypeConf s) ty = Some c"
    and "smap_wf d" and "x_isLoopbackNet X addr" and ttl: "ttl = mBleachTTL c + mUpdateInterval c + 1"
  shows "if - (2 ^ 63) < ttl \<and> ttl < 2 ^ 63 then
      \<exists>st t'. run E (insert_members X ty members) n s = (Done (), n, s\<lparr>mStates := st\<rparr>) \<and> smap_find st ty = Some t' \<and>
        (\<forall>k. smap_find t' k = (case member_values members k of None \<Rightarrow> smap_find t k | Some v \<Rightarrow> Some (own_entry X c v))) \<and>
        (\<forall>ty'. ty' \<noteq> ty \<longrightarrow> smap_find st ty' = smap_find (mStates s) ty') \<and>
        (\<forall>k v. member_values members k = Some v \<longrightarrow>
          smap_find (fst (merge_loop X (\<not> x_isLoopbackNet X addr) t' d)) k =
            (case smap_find d k of
               None \<Rightarrow> Some (own_entry X c v)
             | Some old \<Rightarrow> Some (if mTtl old \<le> ttl then own_entry X c v else old)))
    else members \<noteq> [] \<longrightarrow> run E (insert_members X ty members) n s = (Stopped (Trapped SignedOverflow), n, s)"
proof (cases "insert_ttl c")
  case None
  with ttl have "\<not> (- (2 ^ 63) < ttl \<and> ttl < 2 ^ 63)" by (auto simp: insert_ttl_eq split: if_splits)
  with insert_members_overflow [OF assms(2,3) None] show ?thesis by auto
next
  case (Some x)
  with ttl have range: "- (2 ^ 63) < ttl \<and> ttl < 2 ^ 63" by (auto simp: insert_ttl_eq split: if_splits)
  obtain st t' where t': "run E (insert_members X ty members) n s = (Done (), n, s\<lparr>mStates := st\<rparr>)"
    "smap_find st ty = Some t'" "smap_wf t'"
    "\<And>k. smap_find t' k = (case member_values members k of None \<Rightarrow> smap_find t k | Some v \<Rightarrow> Some (own_entry X c v))"
    "\<And>ty'. ty' \<noteq> ty \<Longrightarrow> smap_find st ty' = smap_find (mStates s) ty'"
    using insert_members_run [OF assms(2,3) ss_wf_state [OF assms(1,2)]] Some by blast
  have "smap_find (fst (merge_loop X (\<not> x_isLoopbackNet X addr) t' d)) k =
        (case smap_find d k of
           None \<Rightarrow> Some (own_entry X c v)
         | Some old \<Rightarrow> Some (if mTtl old \<le> ttl then own_entry X c v else old))"
    if "member_values members k = Some v" for k v
    using find_merged [OF t'(3) assms(4), of X "\<not> x_isLoopbackNet X addr" k] that assms(5)
    by (auto simp: t'(4) ttl merged_def merge_rule_def accepts_def echo_rejected_def own_entry_def split: option.split)
  with t' range show ?thesis by auto
qed

text \<open>
  C30. Discovery: the reading loop ends, after one round more than the discovery command's output has
  chunks, however the kernel cuts it, and the parser then gives, in order, exactly the addresses
  the command printed one per line, each with the port of the protocol.
\<close>

theorem discovery_reads_output:
  assumes "reads_chunks E cmd chunks (n, s) fin" and "length chunks < fuel"
    and "string_of_bytes (concat chunks) = concat (map (\<lambda>l. l @ [CHR 0x0A]) ls)"
    and "\<And>l. l \<in> set ls \<Longrightarrow> CHR 0x0A \<notin> set l \<and> x_inet_pton X l = Some (addr l)"
  shows "run E (co_bind (read_candidates fuel cmd []) (\<lambda>neigStrStream.
      parse_candidates X (getlines (string_of_bytes neigStrStream)) [])) n s =
    (Done (True, map (\<lambda>l. x_setport X (addr l) TCP_PORT) ls), fin)"
  using read_candidates_run [OF assms(1,2), of "[]"] parse_candidates_run [of ls X addr E "[]"] assms(3,4)
  by (cases fin) (simp add: run_bind getlines_lines)

text \<open>
  C39. Every operation of the program but the help needs the configuration file: without one, the
  constructor of \<open>SharedStateCli\<close> ends the process before the operation is looked at. That holds
  for \<open>register\<close> too, whose own code would create the file.
\<close>

theorem main_needs_registry:
  assumes "2 \<le> length argv" and "argv ! 1 \<noteq> ''help''" and "argv ! 1 \<noteq> ''--help''"
    and "s_ret (e_call E n SysEpollCreate) \<ge> 0"
    and "s_ret (e_call E (n + 1) (ReadFile tConfigPath)) = -1"
  shows "\<exists>s'. run E (main X fuel argv) n s =
    (Stopped (Aborted (FromErrno (s_errno (e_call E (n + 1) (ReadFile tConfigPath))))), n + 2, s')"
  using assms
  by (simp add: main_def SharedStateCli_def IOContext_setup_def loadRegisteredTypes_def co_simps or_exit_bind)

subsection \<open>Witnesses\<close>

lemma demo_conf_answers:
  "s_ret (e_call demo_conf_env n q) = 0" "s_bytes (e_call demo_conf_env n q) = demo_conf_file"
  by (simp_all add: demo_conf_env_def sys_value_def)

theorem bleach_round_effect_witness:
  "\<exists>s'. run demo_conf_env (bleach_round (ref_ext ''a'') 0) 0 (demo_process demo_mine) = (Done 0, 3, s') \<and>
     mTypeConf s' = demo_confs \<and> smap_find (mStates s') ''T'' = Some (bleach_state 1 demo_mine)"
proof -
  have "file_confs (ref_ext ''a'') demo_conf_file = demo_confs" by (simp add: file_confs_def demo_conf_parsed)
  moreover have "smap_find demo_confs ''T'' = Some demo_conf" by (simp add: demo_confs_def smap_find_def)
  moreover have "bleachTimes 0 = 1" by (simp add: bleachTimes_def cdiv_def SECOND_def)
  moreover have "\<not> x_parse_error (ref_ext ''a'') demo_conf_file"
    unfolding demo_conf_file_def by (rule ref.parse_line(2))
  ultimately show ?thesis
    using bleach_round_effect [OF ref_ordered [of "''a''"] demo_process_wf [OF demo_wf(1)] refl _ _ refl,
      where E = demo_conf_env and n = 0 and ts = 0]
    by (auto simp: demo_conf_answers demo_process_find)
qed

theorem insert_reaches_daemon_witness:
  "\<exists>st t'. run demo_conf_env (insert_members (ref_ext ''a'') ''T'' [(''k'', JInt 3)]) 0 (demo_process demo_mine) =
      (Done (), 0, (demo_process demo_mine)\<lparr>mStates := st\<rparr>) \<and> smap_find st ''T'' = Some t' \<and>
     smap_find (fst (merge_loop (ref_ext ''a'') False t' demo_theirs)) ''k'' =
       Some (own_entry (ref_ext ''a'') demo_conf (JInt 3))"
proof -
  have conf: "smap_find (mTypeConf (demo_process demo_mine)) ''T'' = Some demo_conf"
    by (simp add: demo_process_def smap_find_def)
  have lo: "x_isLoopbackNet (ref_ext ''a'') (ipv4 127 0 0 1)"
    by (simp add: ref_ext_def ref_isLoopback_def ref_to_ipv6_def ipv4_def v4_mapped_prefix_def)
  have k: "member_values [(''k'', JInt 3)] ''k'' = Some (JInt 3)"
    by (simp add: member_values_def c_string_def)
  have old: "mTtl old \<le> 331" if "smap_find demo_theirs ''k'' = Some old" for old
    using that by (auto simp: smap_find_def demo_entry_def)
  have ttl: "331 = mBleachTTL demo_conf + mUpdateInterval demo_conf + 1" by (simp add: demo_conf_def)
  have "- (2 ^ 63) < (331 :: int) \<and> (331 :: int) < 2 ^ 63" by simp
  note insert_reaches_daemon [OF demo_process_wf [OF demo_wf(1)] demo_process_find conf demo_wf(2) lo ttl,
      where members = "[(''k'', JInt 3)]" and E = demo_conf_env and n = 0, unfolded if_P [OF this]]
  then obtain st t' where t': "run demo_conf_env (insert_members (ref_ext ''a'') ''T'' [(''k'', JInt 3)]) 0 (demo_process demo_mine) =
      (Done (), 0, (demo_process demo_mine)\<lparr>mStates := st\<rparr>)" "smap_find st ''T'' = Some t'"
    and merged: "\<forall>k v. member_values [(''k'', JInt 3)] k = Some v \<longrightarrow>
      smap_find (fst (merge_loop (ref_ext ''a'') (\<not> x_isLoopbackNet (ref_ext ''a'') (ipv4 127 0 0 1)) t' demo_theirs)) k =
       (case smap_find demo_theirs k of
          None \<Rightarrow> Some (own_entry (ref_ext ''a'') demo_conf v)
        | Some old \<Rightarrow> Some (if mTtl old \<le> 331 then own_entry (ref_ext ''a'') demo_conf v else old))"
    by (elim exE conjE) (rule that; assumption)
  have "smap_find (fst (merge_loop (ref_ext ''a'') False t' demo_theirs)) ''k'' =
      Some (own_entry (ref_ext ''a'') demo_conf (JInt 3))"
  proof (cases "smap_find demo_theirs ''k''")
    case None
    with merged [rule_format, OF k] lo show ?thesis by (simp only: option.case not_True_eq_False)
  next
    case (Some x)
    from old [OF this] Some merged [rule_format, OF k] lo show ?thesis
      by (simp only: option.case if_True not_True_eq_False)
  qed
  with t'(1,2) show ?thesis by blast
qed

text \<open>A command whose output is one line, delivered in one piece, on descriptor 7.\<close>

definition demo_output :: string where
  "demo_output = ''10.0.0.1'' @ [CHR 0x0A]"

definition demo_output_env :: "'s env" where
  "demo_output_env = \<lparr>e_call = (\<lambda>n _. if n = 0 then (sys_value 9)\<lparr>s_bytes := bytes_of_string demo_output\<rparr> else sys_value 0),
     e_interfere = (\<lambda>_ s. s)\<rparr>"

definition demo_command :: "json process" where
  "demo_command = (demo_process [])\<lparr>mIoContext := \<lparr>mEpollFD = 3, mManagedFD = [(6, 1), (7, 2)],
     aheap = [1 \<mapsto> (afd_new 6)\<lparr>mProcessId := 42, mStdOut := Some 2\<rparr>, 2 \<mapsto> afd_new 7], next_address = 3\<rparr>\<rparr>"

lemma demo_output_answers:
  "e_call demo_output_env 0 q = (sys_value 9)\<lparr>s_bytes := bytes_of_string demo_output\<rparr>"
  "e_call demo_output_env (Suc n) q = sys_value 0"
  by (simp_all add: demo_output_env_def)

theorem discovery_reads_output_witness:
  "\<exists>fin. run demo_output_env (co_bind (read_candidates 2 1 []) (\<lambda>out.
      parse_candidates (ref_ext ''a'') (getlines (string_of_bytes out)) [])) 0 demo_command =
    (Done (True, [(ipv4 10 0 0 1)\<lparr>ss_port := TCP_PORT\<rparr>]), fin)"
proof -
  have addr: "x_inet_pton (ref_ext ''a'') ''10.0.0.1'' = Some (ipv4 10 0 0 1)"
    by (simp add: ref_ext_def ref_pton_def ipv4_def is_digit_def read_nat_def digit_value_def)
  have len: "length demo_output = 9" "demo_output \<noteq> []" by (simp_all add: demo_output_def)
  have first: "\<exists>s'. run demo_output_env (or_exit (asyncRead 2 1000)) 0 s =
      (Done (9, bytes_of_string demo_output), Suc (Suc 0), s') \<and> std_out_of 1 s' = std_out_of 1 s" for s :: "json process"
    by (simp add: asyncRead_def read_loop.simps [of "ReadOp 2" 1000 "[]"]
        read_loop.simps [of "ReadOp 2" 1000 "bytes_of_string demo_output"] ReadOp_def ReadOp_syscall_def attempt_simps
        or_exit_bind demo_output_answers shouldWait_def sys_value_def received_def len std_out_of_def Let_def)
  have second: "\<exists>fin. run demo_output_env (or_exit (asyncRead 2 1000)) (Suc (Suc 0)) s = (Done (0, []), fin)" for s :: "json process"
    by (simp add: asyncRead_def read_loop.simps [of "ReadOp 2" 1000 "[]"] ReadOp_def ReadOp_syscall_def attempt_simps
        or_exit_bind demo_output_answers shouldWait_def sys_value_def received_def Let_def)
  have out: "std_out_of 1 demo_command = Some 2"
    by (simp add: demo_command_def std_out_of_def get_afd_def)
  have "\<exists>fin. reads_chunks demo_output_env 1 [bytes_of_string demo_output] (0, demo_command) fin"
    using first [of demo_command] second out len
    by (fastforce simp: readStdOut_def io_of_def co_simps or_exit_bind maxRecv_def)
  then obtain fin where fin: "reads_chunks demo_output_env 1 [bytes_of_string demo_output] (0, demo_command) fin" by blast
  from discovery_reads_output [OF fin, of 2 "[''10.0.0.1'']" "ref_ext ''a''" "\<lambda>_. ipv4 10 0 0 1"] addr show ?thesis
    by (auto simp: demo_output_def ref_ext_def)
qed

definition demo_bare_env :: "'s env" where
  "demo_bare_env = \<lparr>e_call = (\<lambda>_ q. case q of ReadFile _ \<Rightarrow> sys_error 2 | _ \<Rightarrow> sys_value 3), e_interfere = (\<lambda>_ s. s)\<rparr>"

lemma demo_bare_answers:
  "s_ret (e_call demo_bare_env n SysEpollCreate) = 3" "s_ret (e_call demo_bare_env n (ReadFile p)) = -1"
  "s_errno (e_call demo_bare_env n (ReadFile p)) = 2"
  by (simp_all add: demo_bare_env_def sys_value_def sys_error_def)

theorem main_needs_registry_witness:
  "\<exists>s'. run demo_bare_env (main (ref_ext ''a'') 9
      [''shared-state-async'', ''register'', ''T'', ''community'', ''30'', ''300'']) 0 (demo_process []) =
    (Stopped (Aborted (FromErrno 2)), 2, s')"
  using main_needs_registry [of "[''shared-state-async'', ''register'', ''T'', ''community'', ''30'', ''300'']"
      demo_bare_env 0 "ref_ext ''a''" 9 "demo_process []"] by (simp add: demo_bare_answers numeral_2_eq_2)

end
