(* ===== verification/Replica.thy ===== *)
theory Replica
  imports TypeConf
begin

text \<open>
  The replicated state as its users see it, a map from types to maps from keys to entries, and the
  three operations that ever change it: merging a slice, bleaching a type, loading the registry.
  The program's operations refine their specification step by step; a locale carries the step
  over to any sequence, which is what every interleaving of the daemon's coroutines amounts to,
  since none of the three operations suspends.
\<close>

subsection \<open>Refinement of sequences\<close>

locale functional_refinement =
  fixes ok :: "'o \<Rightarrow> bool" and inv :: "'s \<Rightarrow> bool" and abs :: "'s \<Rightarrow> 'a"
    and cstep :: "'o \<Rightarrow> 's \<Rightarrow> 's" and astep :: "'o \<Rightarrow> 'a \<Rightarrow> 'a"
  assumes inv_step: "ok x \<Longrightarrow> inv s \<Longrightarrow> inv (cstep x s)"
    and abs_step: "ok x \<Longrightarrow> inv s \<Longrightarrow> abs (cstep x s) = astep x (abs s)"
begin

lemma sequence:
  "list_all ok xs \<Longrightarrow> inv s \<Longrightarrow> inv (fold cstep xs s) \<and> abs (fold cstep xs s) = fold astep xs (abs s)"
  by (induction xs arbitrary: s) (simp_all add: inv_step abs_step)

end

subsection \<open>The specification\<close>

type_synonym 'j replica = "string \<rightharpoonup> string \<rightharpoonup> 'j StateEntry"

datatype 'j replica_op =
    MergeOp string "'j state_slice" sockaddr_storage
  | BleachOp string int
  | LoadOp sysret

fun spec_step :: "'j ext \<times> 'j replica_op \<Rightarrow> 'j replica \<Rightarrow> 'j replica" where
  "spec_step (X, MergeOp ty sl peer) A = A(ty := map_option (\<lambda>t k. case smap_find sl k of
       None \<Rightarrow> t k
     | Some new \<Rightarrow> merge_rule X (\<not> x_isLoopbackNet X peer) new (t k)) (A ty))"
| "spec_step (X, BleachOp ty secs) A =
     (if secs < 1 then A else A(ty := map_option (\<lambda>t k. bleach_rule secs (t k)) (A ty)))"
| "spec_step (X, LoadOp r) A =
     (if s_ret r = -1 \<or> x_parse_error X (s_bytes r) then A
      else (\<lambda>ty. case smap_find (snd (x_serial_confs X (DataTypeConf_serial_process X) FROM_JSON
             ((x_ctx X)\<lparr>mJson := x_parse X (s_bytes r)\<rparr>) ''mTypeConf'' [])) ty of
           None \<Rightarrow> None
         | Some _ \<Rightarrow> Some (case A ty of None \<Rightarrow> Map.empty | Some t \<Rightarrow> t)))"

subsection \<open>The program\<close>

text \<open>One operation as the coroutines run it, its errors kept, with the configuration file's answer.\<close>

fun replica_task :: "'j ext \<times> 'j replica_op \<Rightarrow> ('j, unit) task" where
  "replica_task (X, MergeOp ty sl peer) = co_bind (with_errc (merge X ty sl peer) None) (\<lambda>_. Ret ())"
| "replica_task (X, BleachOp ty secs) = co_bind (with_errc (bleach ty secs) None) (\<lambda>_. Ret ())"
| "replica_task (X, LoadOp r) = co_bind (with_errc (loadRegisteredTypes X) None) (\<lambda>_. Ret ())"

definition file_env :: "'j ext \<times> 'j replica_op \<Rightarrow> 's env" where
  "file_env x = \<lparr>e_call = (\<lambda>_ _. case snd x of LoadOp r \<Rightarrow> r | _ \<Rightarrow> sys_value 0), e_interfere = (\<lambda>_ s. s)\<rparr>"

definition replica_step :: "'j ext \<times> 'j replica_op \<Rightarrow> 'j process \<Rightarrow> 'j process" where
  "replica_step x s = snd (snd (run (file_env x) (replica_task x) 0 s))"

definition replica_of :: "'j process \<Rightarrow> 'j replica" where
  "replica_of s ty = map_option smap_find (smap_find (mStates s) ty)"

fun op_ok :: "'j ext \<times> 'j replica_op \<Rightarrow> bool" where
  "op_ok (X, MergeOp ty sl peer) = smap_wf sl"
| "op_ok (X, BleachOp ty secs) = True"
| "op_ok (X, LoadOp r) = ordered_maps X"

lemma replica_put:
  "replica_of (s\<lparr>mStates := smap_put ty t (mStates s)\<rparr>) = (replica_of s)(ty \<mapsto> smap_find t)"
  by (auto simp: replica_of_def smap_find_put fun_eq_iff)

lemma final_state:
  "snd (snd (run E (co_bind (with_errc c e) (\<lambda>_. Ret ())) n s)) = snd (snd (run E c n s))"
  by (induction c arbitrary: n s e) auto

lemma merge_step:
  assumes "ss_wf s" and "smap_wf sl"
  shows "ss_wf (replica_step (X, MergeOp ty sl peer) s) \<and>
    replica_of (replica_step (X, MergeOp ty sl peer) s) = spec_step (X, MergeOp ty sl peer) (replica_of s)"
proof (cases "smap_find (mStates s) ty")
  case None
  then have "snd (snd (run E (merge X ty sl peer) n s)) = s" for E n by (simp add: merge_def co_simps)
  with None assms show ?thesis
    by (auto simp: replica_step_def final_state replica_of_def fun_eq_iff)
next
  case (Some t)
  let ?t = "merged X (\<not> x_isLoopbackNet X peer) sl t"
  have step: "replica_step (X, MergeOp ty sl peer) s = s\<lparr>mStates := smap_put ty ?t (mStates s)\<rparr>"
    by (simp add: replica_step_def final_state merge_run [OF assms Some])
  have t: "smap_wf t" by (rule ss_wf_state [OF assms(1) Some])
  have "replica_of s ty = Some (smap_find t)" by (simp add: replica_of_def Some)
  then show ?thesis
    using ss_wf_put_state [OF assms(1) Some merged_wf [OF assms(2) t]]
    by (simp add: step replica_put find_merged [OF assms(2) t] fun_eq_iff)
qed

lemma bleach_step:
  assumes "ss_wf s"
  shows "ss_wf (replica_step (X, BleachOp ty secs) s) \<and>
    replica_of (replica_step (X, BleachOp ty secs) s) = spec_step (X, BleachOp ty secs) (replica_of s)"
proof (cases "smap_find (mStates s) ty")
  case None
  then have "snd (snd (run E (bleach ty secs) n s)) = s" for E n by (simp add: bleach_def co_simps)
  with None assms show ?thesis
    by (auto simp: replica_step_def final_state replica_of_def fun_eq_iff)
next
  case (Some t)
  have t: "smap_wf t" by (rule ss_wf_state [OF assms Some])
  have "replica_of s ty = Some (smap_find t)" by (simp add: replica_of_def Some)
  then show ?thesis
    using ss_wf_put_state [OF assms Some bleach_wf [OF t]] assms Some
    by (auto simp: replica_step_def final_state bleach_def co_simps replica_put find_bleach [OF t] fun_eq_iff)
qed

lemma load_step:
  assumes "ss_wf s" and X: "ordered_maps X"
  shows "ss_wf (replica_step (X, LoadOp r) s) \<and>
    replica_of (replica_step (X, LoadOp r) s) = spec_step (X, LoadOp r) (replica_of s)"
proof (cases "s_ret r = -1 \<or> x_parse_error X (s_bytes r)")
  case True
  then have "replica_step (X, LoadOp r) s = s"
    by (auto simp: replica_step_def final_state file_env_def loadRegisteredTypes_def co_simps)
  with True assms show ?thesis by auto
next
  case False
  obtain ctx confs where p: "x_serial_confs X (DataTypeConf_serial_process X) FROM_JSON
      ((x_ctx X)\<lparr>mJson := x_parse X (s_bytes r)\<rparr>) ''mTypeConf'' [] = (ctx, confs)" by fastforce
  then have confs: "smap_wf confs" using X unfolding ordered_maps_def by (metis snd_conv)
  have states: "smap_wf (mStates s)" using assms by (simp add: ss_wf_def)
  have step: "replica_step (X, LoadOp r) s =
      s\<lparr>mTypeConf := confs, mStates := drop_states confs (create_states confs (mStates s))\<rparr>"
    using False p by (simp add: replica_step_def final_state file_env_def loadRegisteredTypes_def co_simps)
  have "smap_find [] = (Map.empty :: string \<rightharpoonup> 'a StateEntry)" by (simp add: smap_find_def fun_eq_iff)
  then show ?thesis
    using False ss_wf_synced [OF assms(1) confs]
    by (auto simp: step p replica_of_def synced_states_find [OF confs states] fun_eq_iff split: option.split)
qed

interpretation replica: functional_refinement op_ok ss_wf replica_of replica_step spec_step
proof
  fix x :: "'j ext \<times> 'j replica_op" and s :: "'j process"
  assume "op_ok x" "ss_wf s"
  then have "ss_wf (replica_step x s) \<and> replica_of (replica_step x s) = spec_step x (replica_of s)"
    by (cases x rule: op_ok.cases) (simp_all only: op_ok.simps merge_step bleach_step load_step)
  then show "ss_wf (replica_step x s)" "replica_of (replica_step x s) = spec_step x (replica_of s)" by blast+
qed

subsection \<open>Expiry\<close>

definition entry_of :: "'j replica \<Rightarrow> string \<Rightarrow> string \<Rightarrow> 'j StateEntry option" where
  "entry_of A ty k = (case A ty of None \<Rightarrow> None | Some t \<Rightarrow> t k)"

text \<open>The time bleached off a type along a sequence, and whether a sequence brings a key in again.\<close>

fun bleached_by :: "string \<Rightarrow> 'j ext \<times> 'j replica_op \<Rightarrow> int" where
  "bleached_by ty (X, BleachOp ty' secs) = (if ty' = ty \<and> 1 \<le> secs then secs else 0)"
| "bleached_by ty (X, MergeOp ty' sl peer) = 0"
| "bleached_by ty (X, LoadOp r) = 0"

fun brings :: "string \<Rightarrow> string \<Rightarrow> 'j ext \<times> 'j replica_op \<Rightarrow> bool" where
  "brings ty k (X, MergeOp ty' sl peer) = (ty' = ty \<and> smap_find sl k \<noteq> None)"
| "brings ty k (X, BleachOp ty' secs) = False"
| "brings ty k (X, LoadOp r) = False"

lemma bleached_nonneg: "0 \<le> bleached_by ty x"
  by (cases "(ty, x)" rule: bleached_by.cases) auto

text \<open>An entry that stays has lost exactly what was bleached, and is alive if anything was.\<close>

lemma entry_step:
  assumes "\<not> brings ty k x" and "entry_of (spec_step x A) ty k = Some e"
  shows "\<exists>e0. entry_of A ty k = Some e0 \<and> mTtl e = mTtl e0 - bleached_by ty x \<and>
    (0 < bleached_by ty x \<longrightarrow> 0 < mTtl e)"
  using assms
  by (cases "(x, A)" rule: spec_step.cases)
    (auto simp: entry_of_def bleach_rule_def split: option.splits if_splits)

lemma entry_fold:
  assumes "\<And>x. x \<in> set xs \<Longrightarrow> \<not> brings ty k x" and "entry_of (fold spec_step xs A) ty k = Some e"
  shows "\<exists>e0. entry_of A ty k = Some e0 \<and> mTtl e = mTtl e0 - sum_list (map (bleached_by ty) xs) \<and>
    (0 < sum_list (map (bleached_by ty) xs) \<longrightarrow> 0 < mTtl e)"
  using assms
proof (induction xs arbitrary: A)
  case (Cons x xs)
  from Cons.IH [of "spec_step x A"] Cons.prems obtain e1 where e1: "entry_of (spec_step x A) ty k = Some e1"
    "mTtl e = mTtl e1 - sum_list (map (bleached_by ty) xs)" "0 < sum_list (map (bleached_by ty) xs) \<longrightarrow> 0 < mTtl e"
    by auto
  from entry_step [OF _ e1(1)] Cons.prems(1) obtain e0 where e0: "entry_of A ty k = Some e0"
    "mTtl e1 = mTtl e0 - bleached_by ty x" "0 < bleached_by ty x \<longrightarrow> 0 < mTtl e1" by auto
  have "0 \<le> sum_list (map (bleached_by ty) xs)" by (rule sum_list_nonneg) (auto simp: bleached_nonneg)
  with e0 e1 bleached_nonneg [of ty x] show ?case by (cases "sum_list (map (bleached_by ty) xs) = 0") auto
qed auto

subsection \<open>Properties\<close>

text \<open>
  C3. The replicated state refines its specification: for any sequence of merges, bleaches and
  registry loads, with whatever the peers sent and the file held, the program's state, read as a
  map from types to maps from keys to entries, is what the specification computes: a merge of a
  known type applies the acceptance rule key by key and one of an unknown type changes nothing; a
  bleach shortens or drops; a load creates, keeps and drops whole types. The invariant holds all
  along.
\<close>

theorem replica_refinement:
  assumes "ss_wf s" and "list_all op_ok ops"
  shows "ss_wf (fold replica_step ops s) \<and> replica_of (fold replica_step ops s) = fold spec_step ops (replica_of s)"
  using replica.sequence [OF assms(2,1)] .

text \<open>
  C13. Information fades away: an entry that nobody brings in again is gone once its type has been
  bleached by at least its TTL, whatever else is merged, bleached or loaded meanwhile. Nothing
  but a merge that carries the key can keep it alive.
\<close>

theorem unrefreshed_entry_expires:
  assumes "ss_wf s" and "list_all op_ok ops" and "smap_find (mStates s) ty = Some t" and "smap_find t k = Some e"
    and "\<And>x. x \<in> set ops \<Longrightarrow> \<not> brings ty k x"
    and "mTtl e \<le> sum_list (map (bleached_by ty) ops)" and "0 < mTtl e"
  shows "case smap_find (mStates (fold replica_step ops s)) ty of None \<Rightarrow> True | Some t' \<Rightarrow> smap_find t' k = None"
proof -
  have start: "entry_of (replica_of s) ty k = Some e" using assms(3,4) by (simp add: entry_of_def replica_of_def)
  have "entry_of (fold spec_step ops (replica_of s)) ty k = None"
  proof (rule ccontr)
    assume "entry_of (fold spec_step ops (replica_of s)) ty k \<noteq> None"
    then obtain e' where "entry_of (fold spec_step ops (replica_of s)) ty k = Some e'" by auto
    from entry_fold [OF assms(5) this] start assms(6,7) show False by auto
  qed
  then have "entry_of (replica_of (fold replica_step ops s)) ty k = None"
    using replica.sequence [OF assms(2,1)] by simp
  then show ?thesis by (simp add: entry_of_def replica_of_def split: option.splits)
qed

subsection \<open>Witnesses\<close>

definition demo_ops :: "(json ext \<times> json replica_op) list" where
  "demo_ops = [(ref_ext ''a'', BleachOp ''T'' 3), (ref_ext ''a'', MergeOp ''T'' [(''z'', demo_entry ''b'' 9 1)] (ipv4 10 0 0 1)),
     (ref_ext ''a'', BleachOp ''T'' 4)]"

lemma demo_ops_ok: "list_all op_ok demo_ops"
  by (simp add: demo_ops_def smap_wf_def)

theorem replica_refinement_witness:
  "replica_of (fold replica_step demo_ops (demo_process demo_mine)) =
     fold spec_step demo_ops (replica_of (demo_process demo_mine))"
  using replica_refinement [OF demo_process_wf [OF demo_wf(1)] demo_ops_ok] by simp

theorem unrefreshed_entry_expires_witness:
  "case smap_find (mStates (fold replica_step demo_ops (demo_process demo_mine))) ''T'' of
     None \<Rightarrow> True | Some t' \<Rightarrow> smap_find t' ''k'' = None"
proof (rule unrefreshed_entry_expires [OF demo_process_wf [OF demo_wf(1)] demo_ops_ok demo_process_find])
  show "smap_find demo_mine ''k'' = Some (demo_entry ''a'' 5 1)" by (simp add: smap_find_def)
qed (auto simp: demo_ops_def demo_entry_def smap_find_def)

end
