(* ===== verification/Convergence.thy ===== *)
theory Convergence
  imports Replica
begin

text \<open>
  Replicas converge. A copy of an entry is stamped with the time at which it expires on the clock
  that bleaching advances; a replica holds, for every key, the copy with the latest stamp that has
  not expired. What it holds therefore depends on the set of the copies it has seen and on the time
  alone, not on their order, their number or the peers they came from.
\<close>

subsection \<open>What a replica has seen\<close>

definition stamp :: "int \<Rightarrow> 'j StateEntry \<Rightarrow> 'j StateEntry" where
  "stamp T e = e\<lparr>mTtl := mTtl e + T\<rparr>"

lemma stamp_simps [simp]:
  "mTtl (stamp T e) = mTtl e + T" "mAuthor (stamp T e) = mAuthor e" "stamp 0 e = e"
  "stamp T e = stamp T e' \<longleftrightarrow> e = e'"
  by (cases e; cases e'; simp add: stamp_def)+

lemma stamp_bleached [simp]: "stamp (T + secs) (e\<lparr>mTtl := mTtl e - secs\<rparr>) = stamp T e"
  by (simp add: stamp_def)

fun arrivals :: "string \<Rightarrow> string \<Rightarrow> int \<Rightarrow> 'j ext \<times> 'j replica_op \<Rightarrow> 'j StateEntry list" where
  "arrivals ty k T (X, MergeOp ty' sl peer) = (if ty' = ty
     then (case smap_find sl k of None \<Rightarrow> [] | Some e \<Rightarrow> [stamp T e]) else [])"
| "arrivals ty k T (X, BleachOp ty' secs) = []"
| "arrivals ty k T (X, LoadOp r) = []"

text \<open>The time and the copies of a key, before and after an operation.\<close>

type_synonym 'j history = "int \<times> 'j StateEntry list"

definition observe :: "string \<Rightarrow> string \<Rightarrow> 'j ext \<times> 'j replica_op \<Rightarrow> 'j history \<Rightarrow> 'j history" where
  "observe ty k x h = (fst h + bleached_by ty x, snd h @ arrivals ty k (fst h) x)"

definition first_seen :: "'j state_slice \<Rightarrow> string \<Rightarrow> 'j history" where
  "first_seen t k = (0, case smap_find t k of None \<Rightarrow> [] | Some e \<Rightarrow> [e])"

text \<open>
  A healthy operation: a copy that arrives is alive, a copy of an own entry that a remote peer
  sends back is not later than one seen before, and the type stays registered.
\<close>

fun healthy_op :: "string \<Rightarrow> string \<Rightarrow> 'j history \<Rightarrow> 'j ext \<times> 'j replica_op \<Rightarrow> bool" where
  "healthy_op ty k h (X, MergeOp ty' sl peer) = (ty' \<noteq> ty \<or> (case smap_find sl k of
       None \<Rightarrow> True
     | Some e \<Rightarrow> 0 < mTtl e \<and> (x_isLoopbackNet X peer \<or>
         list_all (\<lambda>c. mAuthor c \<noteq> authorPlaceOlder X) (snd h) \<or>
         list_ex (\<lambda>c. mTtl e + fst h \<le> mTtl c) (snd h))))"
| "healthy_op ty k h (X, BleachOp ty' secs) = True"
| "healthy_op ty k h (X, LoadOp r) = (s_ret r = -1 \<or> x_parse_error X (s_bytes r) \<or>
     smap_find (snd (x_serial_confs X (DataTypeConf_serial_process X) FROM_JSON
       ((x_ctx X)\<lparr>mJson := x_parse X (s_bytes r)\<rparr>) ''mTypeConf'' [])) ty \<noteq> None)"

fun healthy :: "string \<Rightarrow> string \<Rightarrow> 'j history \<Rightarrow> ('j ext \<times> 'j replica_op) list \<Rightarrow> bool" where
  "healthy ty k h [] = True"
| "healthy ty k h (x # xs) = (healthy_op ty k h x \<and> healthy ty k (observe ty k x h) xs)"

subsection \<open>What a replica holds\<close>

definition latest :: "'j history \<Rightarrow> 'j StateEntry option \<Rightarrow> bool" where
  "latest h v \<longleftrightarrow> (case v of
     None \<Rightarrow> \<forall>c\<in>set (snd h). mTtl c \<le> fst h
   | Some e \<Rightarrow> 0 < mTtl e \<and> stamp (fst h) e \<in> set (snd h) \<and> (\<forall>c\<in>set (snd h). mTtl c \<le> mTtl e + fst h))"

lemma latest_unique:
  assumes "latest (T, C) v" and "latest (T, D) w" and "set C = set D"
    and "\<And>c d. c \<in> set C \<Longrightarrow> d \<in> set C \<Longrightarrow> mTtl c = mTtl d \<Longrightarrow> c = d"
  shows "v = w"
proof (cases v; cases w)
  fix e e' assume v: "v = Some e" and w: "w = Some e'"
  with assms have "stamp T e \<in> set C" "stamp T e' \<in> set C" "mTtl e = mTtl e'"
    by (force simp: latest_def)+
  then have "stamp T e = stamp T e'" by (intro assms(4)) simp_all
  with v w show ?thesis by simp
qed (use assms in \<open>force simp: latest_def\<close>)+

lemma latest_merge:
  assumes "latest (T, C) v" and "0 < mTtl e"
    and "remote \<longrightarrow> (\<forall>c\<in>set C. mAuthor c \<noteq> authorPlaceOlder X) \<or> (\<exists>c\<in>set C. mTtl e + T \<le> mTtl c)"
  shows "latest (T, C @ [stamp T e]) (merge_rule X remote e v)"
proof (cases v)
  case (Some old)
  with assms have "\<not> echo_rejected X remote old e" by (force simp: latest_def echo_rejected_def)
  with Some assms(1,2) show ?thesis by (auto simp: latest_def merge_rule_def accepts_def)
qed (use assms in \<open>auto simp: latest_def merge_rule_def\<close>)

lemma latest_bleach:
  "latest (T, C) v \<Longrightarrow> 0 \<le> secs \<Longrightarrow> latest (T + secs, C) (bleach_rule secs v)"
  by (force simp: latest_def bleach_rule_def split: option.splits)

text \<open>The type of the key stays, and what it holds for the key stays the latest.\<close>

definition holds_latest :: "string \<Rightarrow> string \<Rightarrow> 'j history \<Rightarrow> 'j replica \<Rightarrow> bool" where
  "holds_latest ty k h A \<longleftrightarrow> (\<exists>t. A ty = Some t \<and> latest h (t k))"

lemma holds_latest_step:
  assumes "healthy_op ty k h x" and "holds_latest ty k h A"
  shows "holds_latest ty k (observe ty k x h) (spec_step x A)"
  using assms
  by (cases "(ty, k, h, x)" rule: healthy_op.cases)
    (auto simp: holds_latest_def observe_def latest_bleach list_all_iff list_ex_iff
      split: option.splits intro!: latest_merge)

lemma holds_latest_fold:
  "healthy ty k h xs \<Longrightarrow> holds_latest ty k h A \<Longrightarrow>
   holds_latest ty k (fold (observe ty k) xs h) (fold spec_step xs A)"
  by (induction xs arbitrary: h A) (simp_all add: holds_latest_step)

lemma replica_holds_latest:
  assumes "ss_wf s" and "list_all op_ok xs" and "smap_find (mStates s) ty = Some t"
    and "\<And>e. smap_find t k = Some e \<Longrightarrow> 0 < mTtl e" and "healthy ty k (first_seen t k) xs"
  obtains t' where "smap_find (mStates (fold replica_step xs s)) ty = Some t'"
    and "latest (fold (observe ty k) xs (first_seen t k)) (smap_find t' k)"
proof -
  have "holds_latest ty k (first_seen t k) (replica_of s)"
    using assms(3,4) by (auto simp: holds_latest_def latest_def first_seen_def replica_of_def split: option.split)
  from holds_latest_fold [OF assms(5) this] replica.sequence [OF assms(2,1)]
  have "holds_latest ty k (fold (observe ty k) xs (first_seen t k)) (replica_of (fold replica_step xs s))"
    by simp
  with that show thesis by (auto simp: holds_latest_def replica_of_def)
qed

subsection \<open>Properties\<close>

text \<open>
  C4. Strong eventual consistency: two replicas that have seen the same copies of a key, each in
  its own order, from whichever peers, as often as they like, interleaved with merges of other
  types, bleaching and registry loads as they come, hold the same entry for that key once they
  have bleached the type by the same time: the copy that expires last, or none if all have
  expired. It is assumed that every copy that arrives is alive, that no peer sends an own entry
  back with a later expiry than it was given, that the type stays registered, and that two
  different copies of the key do not expire at the same instant.
\<close>

theorem replicas_converge:
  assumes "ss_wf sA" and "list_all op_ok xs" and "smap_find (mStates sA) ty = Some tA"
    and "\<And>e. smap_find tA k = Some e \<Longrightarrow> 0 < mTtl e" and "healthy ty k (first_seen tA k) xs"
    and "ss_wf sB" and "list_all op_ok ys" and "smap_find (mStates sB) ty = Some tB"
    and "\<And>e. smap_find tB k = Some e \<Longrightarrow> 0 < mTtl e" and "healthy ty k (first_seen tB k) ys"
    and "fold (observe ty k) xs (first_seen tA k) = (T, C)"
    and "fold (observe ty k) ys (first_seen tB k) = (T, D)" and "set C = set D"
    and "\<And>c d. c \<in> set C \<Longrightarrow> d \<in> set C \<Longrightarrow> mTtl c = mTtl d \<Longrightarrow> c = d"
  shows "\<exists>tA' tB'. smap_find (mStates (fold replica_step xs sA)) ty = Some tA' \<and>
    smap_find (mStates (fold replica_step ys sB)) ty = Some tB' \<and>
    smap_find tA' k = smap_find tB' k \<and> latest (T, C) (smap_find tA' k)"
proof -
  obtain tA' where A: "smap_find (mStates (fold replica_step xs sA)) ty = Some tA'"
    "latest (T, C) (smap_find tA' k)"
    using replica_holds_latest [OF assms(1-5)] by (auto simp: assms(11))
  obtain tB' where B: "smap_find (mStates (fold replica_step ys sB)) ty = Some tB'"
    "latest (T, D) (smap_find tB' k)"
    using replica_holds_latest [OF assms(6-10)] by (auto simp: assms(12))
  show ?thesis using A B latest_unique [OF A(2) B(2) assms(13,14)] by blast
qed

subsection \<open>Witnesses\<close>

text \<open>
  Two hosts that hold and exchange copies of one key, authored by a third: the first hears of the
  later copy and then of the earlier one, the second the other way round, the earlier one twice.
\<close>

definition demo_here :: "(json ext \<times> json replica_op) list" where
  "demo_here = [(ref_ext ''a'', MergeOp ''T'' [(''z'', demo_entry ''c'' 9 1)] (ipv4 10 0 0 1)),
     (ref_ext ''a'', BleachOp ''T'' 3),
     (ref_ext ''a'', MergeOp ''T'' [(''z'', demo_entry ''c'' 2 8)] (ipv4 10 0 0 2))]"

definition demo_there :: "(json ext \<times> json replica_op) list" where
  "demo_there = [(ref_ext ''b'', MergeOp ''T'' [(''z'', demo_entry ''c'' 5 8)] (ipv4 10 0 0 1)),
     (ref_ext ''b'', BleachOp ''T'' 1),
     (ref_ext ''b'', MergeOp ''T'' [(''z'', demo_entry ''c'' 8 1)] (ipv4 10 0 0 2)),
     (ref_ext ''b'', BleachOp ''T'' 2),
     (ref_ext ''b'', MergeOp ''T'' [(''z'', demo_entry ''c'' 2 8)] (ipv4 10 0 0 1))]"

lemma demo_seen:
  "fold (observe ''T'' ''z'') demo_here (first_seen demo_mine ''z'') =
     (3, [demo_entry ''c'' 9 1, demo_entry ''c'' 5 8])"
  "fold (observe ''T'' ''z'') demo_there (first_seen demo_mine ''z'') =
     (3, [demo_entry ''c'' 5 8, demo_entry ''c'' 9 1, demo_entry ''c'' 5 8])"
  by (simp_all add: demo_here_def demo_there_def observe_def first_seen_def smap_find_def stamp_def
      demo_entry_def)

lemma demo_healthy:
  "healthy ''T'' ''z'' (first_seen demo_mine ''z'') demo_here" "list_all op_ok demo_here"
  "healthy ''T'' ''z'' (first_seen demo_mine ''z'') demo_there" "list_all op_ok demo_there"
  by (simp_all add: demo_here_def demo_there_def observe_def first_seen_def smap_find_def stamp_def
      demo_entry_def demo_host smap_wf_def)

theorem replicas_converge_witness:
  "\<exists>tA tB. smap_find (mStates (fold replica_step demo_here (demo_process demo_mine))) ''T'' = Some tA \<and>
     smap_find (mStates (fold replica_step demo_there (demo_process demo_mine))) ''T'' = Some tB \<and>
     smap_find tA ''z'' = smap_find tB ''z'' \<and>
     latest (3, [demo_entry ''c'' 9 1, demo_entry ''c'' 5 8]) (smap_find tA ''z'')"
proof (rule replicas_converge [OF demo_process_wf [OF demo_wf(1)] demo_healthy(2) demo_process_find _
      demo_healthy(1) demo_process_wf [OF demo_wf(1)] demo_healthy(4) demo_process_find _ demo_healthy(3)
      demo_seen])
  show "set [demo_entry ''c'' 9 1, demo_entry ''c'' 5 8] =
      set [demo_entry ''c'' 5 8, demo_entry ''c'' 9 1, demo_entry ''c'' 5 8]" by auto
qed (auto simp: smap_find_def demo_entry_def)

end
