(* ===== verification/Spec2Isabelle.thy ===== *)
theory Spec2Isabelle
  imports Subscriptions Session Task WireSafety Descriptors EventLoop Rounds Convergence
begin

text \<open>
  Shared State: a verification of \<open>shared-state-async\<close>, the daemon and command line tool with
  which the nodes of a mesh network keep eventually consistent copies of small tables.

  \<^bold>\<open>The program.\<close> A node holds, for every registered data type, a
  \<^emph>\<open>state\<close>: a map from keys to entries, each with an author, a time to live and a JSON
  document. \<open>SharedState::merge\<close> brings a slice of entries in, \<open>SharedState::bleach\<close>
  takes time off and removes what has expired, and \<open>loadRegisteredTypes\<close> brings the set of states
  in line with the configuration file. Two nodes synchronise in a session over TCP: a version handshake, the
  sender's slice, the receiver's answer with its own, a merge on both sides, then statistics and hooks. The
  program is written in C++20 coroutines (\<open>std::task\<close>) over an epoll event loop
  (\<open>IOContext\<close>): every blocking system call is an object derived from
  \<open>AwaitableSyscall\<close> that tries the call, suspends its coroutine on the queue of its descriptor
  when it would block, and tries again when the loop resumes it. The daemon (\<open>peer\<close>) runs three
  coroutines over one state: one accepts sessions, one bleaches, one synchronises with the neighbours that a
  discovery command prints. The other operations of the command line are short processes that talk to the
  local daemon in the same protocol.

  \<^bold>\<open>How code becomes definitions.\<close> A structure is a record, an \<open>enum\<close> a
  datatype, a \<open>std::map\<close> an association list with ascending keys, machine integers are words
  where the code depends on their width (lengths on the wire, event masks, ports) and \<open>int\<close> with
  the bound stated where it does not. Objects that the sources share through \<open>shared_ptr\<close> live in
  a heap and are named by their address. A coroutine is a tree (\<open>co\<close>) of state updates, calls to
  the operating system, suspensions, stored error conditions and early ends of the process;
  \<open>co_bind\<close> is \<open>co_await\<close>. The three ways in which the code hands out its
  \<open>errbub\<close> pointer are \<open>co_bind\<close> (pass it on), \<open>or_exit\<close>
  (\<open>nullptr\<close>: an error ends the process) and \<open>with_errc\<close> (a local variable). A tree
  has these semantics: \<open>run\<close> and \<open>advance\<close> execute it against a concrete environment,
  to its end or to its next suspension; \<open>drive\<close> does so at one end of a connection;
  \<open>wp\<close> (theory \<open>Coroutine\<close>), \<open>co_keeps\<close> (theory
  \<open>Guarantee\<close>) and \<open>owp\<close> (theory \<open>Ownership\<close>) speak about every environment and every interference of other coroutines at a
  suspension.

  \<^bold>\<open>The library.\<close> Code outside the repository (the socket address helpers, the generic
  serialiser and the JSON document of libretroshare and rapidjson) is the record \<open>ext\<close>, an
  argument of every definition that uses it; the JSON document is a type variable. What the program relies on
  is a hypothesis by name: \<open>ordered_maps\<close> (deserialised maps are ordered, as any
  \<open>std::map\<close> is) and the laws of the locale \<open>serializer\<close>. \<open>RefPlatform\<close>
  instantiates both, with the document type and the parser of \<open>JsonText\<close>, for the witnesses.

  \<^bold>\<open>Theories, sources, and what is shown.\<close>

  \<^item> \<open>Prelude\<close>, \<open>StdMap\<close>: machine types, fact collections, C++ division,
    \<open>std::map\<close> with the locale \<open>key_store\<close> of its laws.
  \<^item> \<open>Platform\<close> (\<open>include/sharedstate.hh\<close>,
    \<open>shared_state_errors.hh\<close>, \<open>.cc\<close>): data, constants, errors, \<open>ext\<close>.
  \<^item> \<open>Serial\<close> (\<open>serial_process\<close> methods, \<open>fromStateSlice\<close>,
    \<open>toStateSlice\<close>): a slice survives the trip through a message, for any library that keeps the
    laws of \<open>serializer\<close>.
  \<^item> \<open>Coroutine\<close>: trees, their semantics, the rules that connect them.
    \<open>Guarantee\<close>: what a coroutine guarantees to the others. A family of assertions is kept
    between suspensions, and at a suspension the coroutine has put itself into the queue of the object that it
    waits for.
  \<^item> \<open>Task\<close> (\<open>include/task.hh\<close>): frames, promises, waiters, the final
    suspension, dropped exceptions, destructors, and the native stack on which the \<open>resume()\<close> calls nest.
    The frame machine refines the trees: resuming the innermost of a stack of awaiting frames does
    what the composed tree does, returns from every nested call and frees every frame at the end. An
    awaited task that completes at once is destroyed while its own \<open>resume()\<close> is active, and the thread
    has to come back through it; \<open>t_ghosts\<close> records these. A task that nobody
    awaits destroys its own frame and leaves its handle dangling.
  \<^item> \<open>AsyncFileDescriptor\<close>, \<open>AwaitableSyscall\<close>, \<open>IoContext\<close>,
    \<open>Operations\<close>, \<open>AsyncSocket\<close>, \<open>AsyncCommand\<close> (the files of the same
    names, \<open>src/*_operation.cc\<close>, \<open>async_timer.cc\<close>,
    \<open>epoll_events_to_string.cc\<close>): descriptor objects with their queue of suspended coroutines,
    the table of managed descriptors, every awaitable system call, sockets, timers, child processes.
    \<open>io_wf\<close> says that the table and the objects agree; \<open>io_safe\<close> collects what an
    invariant must survive for all these operations to keep it.
  \<^item> \<open>TransferLoops\<close>: the receive and send loops over sockets and pipes return, move a
    prefix of the stream without loss, repetition or overflow of the buffer, in a bounded number of calls; a
    send on a broken connection fails with \<open>EPIPE\<close> or, where \<open>SIGPIPE\<close> is not ignored, kills. The
    locales \<open>reader\<close> and \<open>writer\<close> carry the proofs for all four.
  \<^item> \<open>Scheduler\<close>, \<open>EventLoop\<close> (\<open>IOContext::run\<close>,
    \<open>resumePendingOps\<close>): turns of the event loop over all suspended coroutines; the locale
    \<open>machine_invariant\<close> carries an invariant of the machine over turns and whole runs of the
    loop; the locale \<open>process_invariant\<close>, a sublocale of it, turns what each coroutine keeps
    into such an invariant. Suspending on an object that is not in the heap traps. A waiting receive is
    completed by the turn that reports its descriptor. \<open>epoll_watches\<close> is what the kernel watches after a
    sequence of \<open>epoll_ctl\<close> and \<open>close\<close> calls; a turn makes exactly the calls after which that is, for
    each managed descriptor, what its operations want.
  \<^item> \<open>Wakeup\<close>: in the daemon, over every interleaving, each suspended coroutine is in the
    queue of the object that it waits for, so an event on the object resumes it: no wakeup is lost.
  \<^item> \<open>Ownership\<close>, \<open>OwnedObjects\<close>, \<open>OwnedCommands\<close>,
    \<open>OwnedCoroutines\<close>, \<open>Subscriptions\<close>: whom a descriptor object belongs to. A
    coroutine owns the objects it registers and those it is given; \<open>owp\<close> is the weakest
    precondition under the discipline that it closes, rewires and unsubscribes only its own, and
    suspends only on one of them that is managed and subscribed, while the others leave these alone.
    Every operation, socket, timer, command, hook and session is shown to keep to it, and so, over
    every interleaving, the object a suspended coroutine of the daemon waits for is in the table
    under its descriptor and asks for events. The kernel is relied on, as \<open>honest_peer\<close> and
    \<open>honest_run\<close> say along a run, for not handing out a descriptor that is still open.
  \<^item> \<open>Descriptors\<close>: closing an object, the accepted socket and the connecting socket,
    each closed on every path of its session, and what a command or a listener that cannot be started leaves behind.
  \<^item> \<open>StateCore\<close> (\<open>merge\<close>, \<open>bleach\<close>): both loops act key by key
    by a reference rule; merging is monotone, idempotent, never changes the TTL of own entries from remote,
    two replicas agree on a key after a round exactly when no echo was rejected, bleaching is additive and
    commutes with merging where no echo is rejected; unknown types are errors that change nothing.
  \<^item> \<open>TypeConf\<close> (\<open>registerDataType\<close>, \<open>loadRegisteredTypes\<close>): what
    a load keeps, creates and drops, and that a registered type is in the file that is loaded next,
    beside every type that was in it before.
  \<^item> \<open>Replica\<close>: merges, bleaches and loads in any order refine a specification on maps of
    maps (locale \<open>functional_refinement\<close>); an entry nobody brings in again expires.
  \<^item> \<open>Convergence\<close>: two replicas that have seen the same copies of a key, each in its own
    order and as often as it likes, hold the same entry for it once they have bleached by the same time,
    if none of the copies is a later echo of an own entry and no two expire at the same time.
  \<^item> \<open>NetStats\<close> (\<open>MbitPerSec\<close>, \<open>collectStat\<close>): the statistics file and
    its bounds, and what the bandwidth estimate computes.
  \<^item> \<open>WireProtocol\<close>, \<open>WireSafety\<close>, \<open>Dialogue\<close> (handshakes and
    framed messages): against any peer, a received message is bounded and another version is rejected by the
    server; between two processes of this program every exchange delivers what was sent, for hosts of either
    byte order.
  \<^item> \<open>Hooks\<close> (\<open>notifyHooks\<close>, \<open>getCandidatesNeighbours\<close>),
    \<open>SyncSession\<close> (\<open>syncWithPeer\<close>, \<open>handleReqSyncConnection\<close>),
    \<open>Session\<close>: a session from the connection to the closed sockets ends on both sides, with the
    slice of the one merged at the other and the answer merged back.
  \<^item> \<open>Cli\<close>, \<open>Rounds\<close>, \<open>Daemon\<close> (\<open>app/\<close>): the
    operations of the command line, the loops of the daemon and \<open>main\<close>. The states and the table
    of descriptors stay well-formed in the daemon over every interleaving, and no write to a connection that
    the other side has closed kills it, as \<open>main\<close> ignores \<open>SIGPIPE\<close> for it; a bleaching round, an insertion,
    the choice of due types, reading the discovery output and the start without a configuration file have
    their effect stated.

  \<^bold>\<open>Bounds and fuel.\<close> The endless loops of the daemon take a number of rounds and end
  their observation with \<open>Unfinished\<close>, which is not a behaviour of the program; the invariant
  holds for every number of rounds and of turns, so the bound restricts nothing. The loop that reads the
  output of the discovery command ends only when the command closes it; it takes the same kind of bound, and
  one round more than the output has chunks is shown to be enough. \<open>pump\<close> in
  \<open>Session\<close> takes a number of alternations, and the session is shown to be over after those it
  needs. All other loops are recursive functions with a termination proof.

  \<^bold>\<open>Deviations found.\<close> Where the code does not do what its comments say, the theorems
  state what it does: a remote copy with equal TTL replaces an own entry, although a variable computed to
  prevent it is in scope; a client takes a connection closed during the handshake for a matching version; an
  update interval of zero and a transfer of less than a microsecond divide by zero; inserting into a type
  registered with huge times overflows; a frame is destroyed while its \<open>resume()\<close> is active, and the
  native stack grows with every await that completes at once; the event loop remembers a subscription
  that \<open>epoll_ctl\<close> refused as made; a multi-shot operation
  that is resumed early gives up; a listener that fails leaks its socket; \<open>insert\<close>, \<open>get\<close> and
  \<open>dump\<close> do not ignore \<open>SIGPIPE\<close>; \<open>register\<close> cannot create the configuration file it needs.

  \<^bold>\<open>Not modelled.\<close> Log output (\<open>RS_DBG\<close>, stack traces, the stream operator of
  \<open>async_file_descriptor.cc\<close>) and the usage text: output without effect on the state. The moment
  at which the last \<open>shared_ptr\<close> to an object goes away: the destructors are definitions, called
  where the sources destroy an object explicitly, and shown harmless on closed objects. Signals
  other than \<open>SIGPIPE\<close>, threads, which the program does not use, and exhaustion of memory. A call of the library that aborts inside rapidjson
  on a document of the wrong kind. The end of the connection in the middle of a session is covered by the
  results about arbitrary environments in \<open>WireSafety\<close> and \<open>Descriptors\<close>, not by
  \<open>pump\<close>. The tests under \<open>tests/\<close>, which call functions the program no longer has,
  and the note under \<open>doc/\<close>. What compiled code does on its way back through the \<open>resume()\<close> of a
  destroyed frame. The exception of \<open>mTypeConf.at\<close> in \<open>merge\<close>, which cannot occur in a well-formed
  process, the overflow of the unused \<open>minUpdateTtl\<close>, and the reference that \<open>syncWithPeer\<close> holds to the
  state of a type dropped and registered again meanwhile, which is a lookup by name.
  \<open>requestTermination\<close> of \<open>async_command.cc\<close>, which is
  compiled out.
\<close>

end
